(* ===== verification/Prelude.thy ===== *)
theory Prelude
  imports Main "HOL-Library.Word"
begin

text \<open>
  Shared vocabulary of the development: the integer widths of the supported (LP64)
  platforms, the result type of a C function that works on a machine state, the
  sequencing combinators, and generic list lemmas.

  A C function of the program becomes a function from the machine state to a
  \<open>res\<close>: \<open>Ok v s\<close> is a normal return (0, or the value \<open>v\<close> for a
  function that returns one), \<open>Fail s\<close> is the error return (-1), \<open>Blocked\<close> is a
  call that never returns because the kernel never answers a system call, \<open>Fault\<close>
  is undefined behaviour of the C program (a null dereference, an access outside an object),
  and \<open>Exited s\<close> is the end of the program: \<open>exit(EXIT_FAILURE)\<close>, or a call that the
  calling process does not return from.
\<close>

section \<open>Collections\<close>

named_theorems io_simps "unfolding of the sequencing combinators"
named_theorems sends_intros "writers and the bytes they put on the wire"
named_theorems parses_intros "readers and the bytes they take off the wire"

section \<open>Widths\<close>

type_synonym u8 = "8 word"
type_synonym u32 = "32 word"
type_synonym u64 = "64 word"
type_synonym byte = "8 word"

text \<open>C's \<open>int\<close> and \<open>pid_t\<close> are 32 bits wide; a value is kept as the word and read with
  \<open>sint\<close> where its sign matters. \<open>size_t\<close> is 64 bits wide.\<close>

type_synonym cint = "32 word"
type_synonym pid_t = "32 word"
type_synonym size_t = "64 word"

section \<open>Results and sequencing\<close>

datatype ('a, 's) res = Ok 'a 's | Fail 's | Blocked | Fault | Exited 's

type_synonym ('a, 's) io = "'s \<Rightarrow> ('a, 's) res"

abbreviation (input) io_ret :: "'a \<Rightarrow> ('a, 's) io" where
  "io_ret \<equiv> Ok"

abbreviation (input) io_fail :: "('a, 's) io" where
  "io_fail \<equiv> Fail"

definition io_fault :: "('a, 's) io" where
  "io_fault s = Fault"

text \<open>Sequencing stops at an error return: the shape of \<open>if (f(...) < 0) return -1;\<close>.\<close>

definition io_bind :: "('a, 's) io \<Rightarrow> ('a \<Rightarrow> ('b, 's) io) \<Rightarrow> ('b, 's) io" where
  "io_bind m f s = (case m s of
       Ok x s' \<Rightarrow> f x s'
     | Fail s' \<Rightarrow> Fail s'
     | Blocked \<Rightarrow> Blocked
     | Fault \<Rightarrow> Fault
     | Exited s' \<Rightarrow> Exited s')"

definition io_then :: "('a, 's) io \<Rightarrow> ('b, 's) io \<Rightarrow> ('b, 's) io" where
  "io_then m m' = io_bind m (\<lambda>_. m')"

text \<open>A call whose return code the caller drops.\<close>

definition io_ignore :: "('a, 's) io \<Rightarrow> (unit, 's) io" where
  "io_ignore m s = (case m s of
       Ok _ s' \<Rightarrow> Ok () s'
     | Fail s' \<Rightarrow> Ok () s'
     | Blocked \<Rightarrow> Blocked
     | Fault \<Rightarrow> Fault
     | Exited s' \<Rightarrow> Exited s')"

text \<open>A call whose error return is handled by \<open>h\<close>.\<close>

definition io_on_fail :: "('a, 's) io \<Rightarrow> ('a, 's) io \<Rightarrow> ('a, 's) io" where
  "io_on_fail m h s = (case m s of Fail s' \<Rightarrow> h s' | r \<Rightarrow> r)"

definition io_when :: "bool \<Rightarrow> (unit, 's) io \<Rightarrow> (unit, 's) io" where
  "io_when b m = (if b then m else io_ret ())"

definition io_modify :: "('s \<Rightarrow> 's) \<Rightarrow> (unit, 's) io" where
  "io_modify f s = Ok () (f s)"

definition io_get :: "('s \<Rightarrow> 'a) \<Rightarrow> ('a, 's) io" where
  "io_get f s = Ok (f s) s"

text \<open>Run the actions of a list in order.\<close>

fun io_each :: "('a \<Rightarrow> (unit, 's) io) \<Rightarrow> 'a list \<Rightarrow> (unit, 's) io" where
  "io_each f [] = io_ret ()"
| "io_each f (x # xs) = io_then (f x) (io_each f xs)"

text \<open>Run an action a number of times and collect its results.\<close>

fun io_repeat :: "nat \<Rightarrow> ('a, 's) io \<Rightarrow> ('a list, 's) io" where
  "io_repeat 0 m = io_ret []"
| "io_repeat (Suc k) m = io_bind m (\<lambda>x. io_bind (io_repeat k m) (\<lambda>xs. io_ret (x # xs)))"

lemma io_bind_Ok [simp]: "m s = Ok x s' \<Longrightarrow> io_bind m f s = f x s'"
  by (simp add: io_bind_def)

lemma io_bind_Fail [simp]: "m s = Fail s' \<Longrightarrow> io_bind m f s = Fail s'"
  by (simp add: io_bind_def)

lemma io_bind_Blocked [simp]: "m s = Blocked \<Longrightarrow> io_bind m f s = Blocked"
  by (simp add: io_bind_def)

lemma io_bind_Fault [simp]: "m s = Fault \<Longrightarrow> io_bind m f s = Fault"
  by (simp add: io_bind_def)

lemma io_then_Ok [simp]: "m s = Ok x s' \<Longrightarrow> io_then m m' s = m' s'"
  by (simp add: io_then_def)

lemma io_ignore_Ok [simp]: "m s = Ok x s' \<Longrightarrow> io_ignore m s = Ok () s'"
  by (simp add: io_ignore_def)

lemma io_on_fail_Ok [simp]: "m s = Ok x s' \<Longrightarrow> io_on_fail m h s = Ok x s'"
  by (simp add: io_on_fail_def)

lemma io_on_fail_Fail [simp]: "m s = Fail s' \<Longrightarrow> io_on_fail m h s = h s'"
  by (simp add: io_on_fail_def)

lemma io_fault_app [simp, io_simps]: "io_fault s = Fault"
  by (simp add: io_fault_def)

lemma io_modify_app [simp, io_simps]: "io_modify f s = Ok () (f s)"
  by (simp add: io_modify_def)

lemma io_get_app [simp, io_simps]: "io_get f s = Ok (f s) s"
  by (simp add: io_get_def)

lemma io_when_True [simp, io_simps]: "io_when True m = m"
  by (simp add: io_when_def)

lemma io_when_False [simp, io_simps]: "io_when False m = io_ret ()"
  by (simp add: io_when_def)

lemma io_bind_Ok_iff:
  "io_bind m f s = Ok v t \<longleftrightarrow> (\<exists>x u. m s = Ok x u \<and> f x u = Ok v t)"
  by (simp add: io_bind_def split: res.split)

lemma io_then_Ok_iff:
  "io_then m m' s = Ok v t \<longleftrightarrow> (\<exists>x u. m s = Ok x u \<and> m' u = Ok v t)"
  by (simp add: io_then_def io_bind_Ok_iff)

lemma io_on_fail_Ok_iff:
  "io_on_fail m h s = Ok v t \<longleftrightarrow> m s = Ok v t \<or> (\<exists>u. m s = Fail u \<and> h u = Ok v t)"
  by (simp add: io_on_fail_def split: res.split)

lemma io_bind_assoc: "io_bind (io_bind m f) g = io_bind m (\<lambda>x. io_bind (f x) g)"
  by (rule ext) (simp add: io_bind_def split: res.splits)

lemma io_then_assoc: "io_then (io_then a b) c = io_then a (io_then b c)"
  by (simp add: io_then_def io_bind_assoc)

lemma io_each_append: "io_each f (xs @ ys) = io_then (io_each f xs) (io_each f ys)"
proof (induction xs)
  case Nil
  show ?case by (rule ext) (simp add: io_then_def)
next
  case (Cons x xs)
  then show ?case by (simp add: io_then_assoc)
qed

section \<open>Lists\<close>

lemma take_drop_prefix: "\<exists>ys. xs = take n xs @ ys"
  by (metis append_take_drop_id)

lemma take_take_drop:
  "take m xs @ take k (drop m xs) = take (m + k) xs"
  by (simp add: take_add)

lemma length_concat_map: "length (concat (map f xs)) = sum_list (map (length \<circ> f) xs)"
  by (induction xs) auto

lemma takeWhile_all: "x \<notin> set xs \<Longrightarrow> takeWhile (\<lambda>y. y \<noteq> x) xs = xs"
  by (induction xs) auto

lemma takeWhile_stop: "x \<notin> set xs \<Longrightarrow> takeWhile (\<lambda>y. y \<noteq> x) (xs @ x # ys) = xs"
  by (induction xs) auto

end
