(* ===== verification/Machine.thy ===== *)
theory Machine
  imports Prelude
begin

text \<open>
  The operating system as the sources use it. A process has a table of descriptors; what the
  kernel answers to \<open>read\<close>, \<open>send\<close> and \<open>close\<close> is not determined by the program, so
  the state carries scripts of answers that the calls consume in order, and a call with no answer
  left blocks for ever. A theorem about all states is thus about every behaviour of the kernel.

  A script entry bounds how much one call transfers (short reads and short writes) or is an errno.
  \<open>EWOULDBLOCK\<close> is the same value as \<open>EAGAIN\<close> on the supported platforms.
\<close>

section \<open>Descriptors and scripts\<close>

datatype errno = EINTR | EAGAIN | EPIPE | ENOTSOCK | EBADF | ENOTCONN | EFAULT | EOTHER

datatype wr = Take nat | WrErr errno

datatype rd = Chunk nat | RdErr errno

text \<open>
  A stream socket, with the path it is connected to if it is connected, one end of a pipe, or a file.
\<close>

datatype fkind = Sock "string option" | Pipe | File

text \<open>The two platforms the sources distinguish with \<open>__APPLE__\<close> and \<open>__linux__\<close>.\<close>

datatype platform = Linux | Apple

text \<open>
  \<open>sent\<close> is what was written to the descriptor and accepted by the kernel, \<open>inp\<close> all the
  bytes its peer will still deliver, and \<open>peer_open\<close> says that the peer never closes its end, so
  that a read past \<open>inp\<close> waits instead of reporting end of file.
\<close>

record fdesc =
  fd_kind :: fkind
  sent :: "byte list"
  inp :: "byte list"
  peer_open :: bool

text \<open>
  \<open>close_errs\<close> lists the errnos that calls of \<open>close\<close> report before one succeeds;
  \<open>closed\<close> logs every call of \<open>close\<close>, with what had been written to the
  descriptor by then. \<open>live\<close> counts the heap blocks that were allocated
  and not freed, and an allocation of more than \<open>mem_max\<close> bytes fails. \<open>new_socks\<close> holds what
  the next calls of \<open>socket\<close> return (-1 when it is used up), \<open>conn_sys\<close> whether the next calls of
  \<open>connect\<close> succeed, \<open>rand\<close> the random numbers, and \<open>slept\<close> the microseconds spent
  in \<open>usleep\<close>. \<open>build_os\<close> and \<open>debug\<close> are the build's configuration; no function changes them.
\<close>

record sys =
  fdt :: "int \<rightharpoonup> fdesc"
  rsys :: "rd list"
  wsys :: "wr list"
  close_errs :: "errno list"
  closed :: "(int \<times> byte list) list"
  live :: nat
  mem_max :: nat
  new_socks :: "int list"
  conn_sys :: "bool list"
  rand :: "nat list"
  slept :: nat
  build_os :: platform
  debug :: bool

datatype ('a, 's) call = Ret 'a 's | Err errno 's | Wait

section \<open>System calls\<close>

text \<open>
  \<open>send\<close> works on connected sockets only: on a pipe or a file it reports ENOTSOCK.
\<close>

definition sys_send :: "int \<Rightarrow> byte list \<Rightarrow> 'z sys_scheme \<Rightarrow> (nat, 'z sys_scheme) call" where
  "sys_send fd bs s = (case fdt s fd of
       None \<Rightarrow> Err EBADF s
     | Some d \<Rightarrow>
        (case fd_kind d of
           Pipe \<Rightarrow> Err ENOTSOCK s
         | File \<Rightarrow> Err ENOTSOCK s
         | Sock conn \<Rightarrow>
            (if conn = None then Err ENOTCONN s
             else (case wsys s of
                 [] \<Rightarrow> Wait
               | WrErr e # w \<Rightarrow> Err e (s\<lparr>wsys := w\<rparr>)
               | Take k # w \<Rightarrow>
                   Ret (min k (length bs))
                     (s\<lparr>wsys := w, fdt := (fdt s)(fd \<mapsto> d\<lparr>sent := sent d @ take k bs\<rparr>)\<rparr>)))))"

text \<open>
  \<open>read\<close> of at most \<open>n\<close> bytes (\<open>n > 0\<close>): at least one byte when there is one, none at end
  of file.
\<close>

definition sys_read :: "int \<Rightarrow> nat \<Rightarrow> 'z sys_scheme \<Rightarrow> (byte list, 'z sys_scheme) call" where
  "sys_read fd n s = (case fdt s fd of
       None \<Rightarrow> Err EBADF s
     | Some d \<Rightarrow>
        (case rsys s of
           [] \<Rightarrow> Wait
         | RdErr e # r \<Rightarrow> Err e (s\<lparr>rsys := r\<rparr>)
         | Chunk k # r \<Rightarrow>
            (if inp d = [] \<and> peer_open d then Wait
             else (let m = min n (max 1 k) in
                   Ret (take m (inp d))
                     (s\<lparr>rsys := r, fdt := (fdt s)(fd \<mapsto> d\<lparr>inp := drop m (inp d)\<rparr>)\<rparr>)))))"

text \<open>What was written to a descriptor so far.\<close>

definition written :: "int \<Rightarrow> 'z sys_scheme \<Rightarrow> byte list" where
  "written fd s = (case fdt s fd of None \<Rightarrow> [] | Some d \<Rightarrow> sent d)"

lemma written_updates [simp]:
  "written fd (s\<lparr>closed := cl\<rparr>) = written fd s" "written fd (s\<lparr>close_errs := es\<rparr>) = written fd s"
  "written fd (s\<lparr>wsys := w\<rparr>) = written fd s" "written fd (s\<lparr>rsys := r\<rparr>) = written fd s"
  "written fd (s\<lparr>live := l\<rparr>) = written fd s"
  by (simp_all add: written_def)

text \<open>\<open>close\<close>: it may be interrupted, and it fails on a descriptor that is not open.\<close>

definition sys_close :: "int \<Rightarrow> 'z sys_scheme \<Rightarrow> (unit, 'z sys_scheme) call" where
  "sys_close fd s =
     (let s1 = s\<lparr>closed := closed s @ [(fd, written fd s)]\<rparr> in
      case close_errs s of
        e # es \<Rightarrow> Err e (s1\<lparr>close_errs := es\<rparr>)
      | [] \<Rightarrow> (case fdt s fd of
                None \<Rightarrow> Err EBADF s1
              | Some d \<Rightarrow> Ret () (s1\<lparr>fdt := (fdt s)(fd := None)\<rparr>)))"

text \<open>\<open>malloc\<close>: whether the block was allocated; \<open>free\<close> of a non-null block.\<close>

definition sys_malloc :: "nat \<Rightarrow> (bool, 'z sys_scheme) io" where
  "sys_malloc n s = (if n \<le> mem_max s then Ok True (s\<lparr>live := live s + 1\<rparr>) else Ok False s)"

definition sys_free :: "(unit, 'z sys_scheme) io" where
  "sys_free s = Ok () (s\<lparr>live := live s - 1\<rparr>)"

text \<open>\<open>socket\<close>: a fresh unconnected stream socket; -1 when the process is out of them.\<close>

definition sys_socket :: "(int, 'z sys_scheme) io" where
  "sys_socket s = (case new_socks s of
       [] \<Rightarrow> Ok (-1) s
     | fd # fds \<Rightarrow>
        (if fd < 0 then Ok fd (s\<lparr>new_socks := fds\<rparr>)
         else Ok fd (s\<lparr>new_socks := fds,
                      fdt := (fdt s)(fd \<mapsto> \<lparr>fd_kind = Sock None, sent = [], inp = [], peer_open = False\<rparr>)\<rparr>)))"

text \<open>\<open>connect\<close>: whether it succeeded; it fails on a descriptor that is not open.\<close>

definition sys_connect :: "int \<Rightarrow> string \<Rightarrow> (bool, 'z sys_scheme) io" where
  "sys_connect fd path s = (case fdt s fd of
       None \<Rightarrow> Ok False s
     | Some d \<Rightarrow>
        (case conn_sys s of
           [] \<Rightarrow> Ok False s
         | c # cs \<Rightarrow>
            (if c then Ok True (s\<lparr>conn_sys := cs, fdt := (fdt s)(fd \<mapsto> d\<lparr>fd_kind := Sock (Some path)\<rparr>)\<rparr>)
             else Ok False (s\<lparr>conn_sys := cs\<rparr>))))"

text \<open>\<open>arc4random_uniform(n)\<close> is below \<open>n\<close>; \<open>usleep\<close> of some microseconds.\<close>

definition sys_random :: "nat \<Rightarrow> (nat, 'z sys_scheme) io" where
  "sys_random n s = (case rand s of
       [] \<Rightarrow> Ok 0 s
     | r # rs \<Rightarrow> Ok (r mod n) (s\<lparr>rand := rs\<rparr>))"

definition sys_usleep :: "nat \<Rightarrow> (unit, 'z sys_scheme) io" where
  "sys_usleep us s = Ok () (s\<lparr>slept := slept s + us\<rparr>)"

lemma sys_send_progress:
  "sys_send fd bs s = Ret m s' \<Longrightarrow> length (wsys s') < length (wsys s)"
  by (auto simp: sys_send_def split: option.splits fkind.splits if_splits list.splits wr.splits)

lemma sys_send_retry:
  "sys_send fd bs s = Err e s' \<Longrightarrow> e = EAGAIN \<or> e = EINTR \<Longrightarrow> length (wsys s') < length (wsys s)"
  by (auto simp: sys_send_def split: option.splits fkind.splits if_splits list.splits wr.splits)

lemma sys_read_progress:
  "sys_read fd n s = Ret b s' \<Longrightarrow> length (rsys s') < length (rsys s)"
  by (auto simp: sys_read_def Let_def split: option.splits if_splits list.splits rd.splits)

lemma sys_read_retry:
  "sys_read fd n s = Err e s' \<Longrightarrow> e = EAGAIN \<or> e = EINTR \<Longrightarrow> length (rsys s') < length (rsys s)"
  by (auto simp: sys_read_def Let_def split: option.splits if_splits list.splits rd.splits)

lemma sys_close_retry:
  "sys_close fd s = Err e s' \<Longrightarrow> e = EINTR \<Longrightarrow> length (close_errs s') < length (close_errs s)"
  by (auto simp: sys_close_def Let_def split: option.splits list.splits)

section \<open>Well-behaved scripts\<close>

text \<open>
  A script is soft when its only errors are the temporary ones, which the loops retry.
  \<open>takes\<close> and \<open>chunks\<close> count the answers that transfer at least one byte; a script with
  as many of them as there are bytes to move is always long enough, however the bytes are split.
\<close>

fun soft_wr :: "wr \<Rightarrow> bool" where
  "soft_wr (Take k) = True"
| "soft_wr (WrErr e) = (e = EAGAIN \<or> e = EINTR)"

fun soft_rd :: "rd \<Rightarrow> bool" where
  "soft_rd (Chunk k) = True"
| "soft_rd (RdErr e) = (e = EAGAIN \<or> e = EINTR)"

definition soft_w :: "wr list \<Rightarrow> bool" where
  "soft_w w = list_all soft_wr w"

definition soft_r :: "rd list \<Rightarrow> bool" where
  "soft_r r = list_all soft_rd r"

fun takes :: "wr list \<Rightarrow> nat" where
  "takes [] = 0"
| "takes (Take k # w) = (if k = 0 then takes w else Suc (takes w))"
| "takes (WrErr e # w) = takes w"

fun chunks :: "rd list \<Rightarrow> nat" where
  "chunks [] = 0"
| "chunks (Chunk k # r) = Suc (chunks r)"
| "chunks (RdErr e # r) = chunks r"

lemma soft_w_simps [simp]:
  "soft_w []" "soft_w (x # w) = (soft_wr x \<and> soft_w w)"
  by (simp_all add: soft_w_def)

lemma soft_r_simps [simp]:
  "soft_r []" "soft_r (x # r) = (soft_rd x \<and> soft_r r)"
  by (simp_all add: soft_r_def)

section \<open>Bytes on and off a connection\<close>

text \<open>The state after \<open>bs\<close> was written to, or read from, a descriptor.\<close>

definition put_bytes :: "int \<Rightarrow> byte list \<Rightarrow> 'z sys_scheme \<Rightarrow> 'z sys_scheme" where
  "put_bytes fd bs s = s\<lparr>fdt := (fdt s)(fd := map_option (\<lambda>d. d\<lparr>sent := sent d @ bs\<rparr>) (fdt s fd))\<rparr>"

definition got_bytes :: "int \<Rightarrow> nat \<Rightarrow> 'z sys_scheme \<Rightarrow> 'z sys_scheme" where
  "got_bytes fd n s = s\<lparr>fdt := (fdt s)(fd := map_option (\<lambda>d. d\<lparr>inp := drop n (inp d)\<rparr>) (fdt s fd))\<rparr>"

definition connected :: "int \<Rightarrow> 'z sys_scheme \<Rightarrow> bool" where
  "connected fd s = (\<exists>d p. fdt s fd = Some d \<and> fd_kind d = Sock (Some p))"

text \<open>
  \<open>sends m fd bs\<close>: on a connected descriptor, and whatever soft answers the kernel gives,
  \<open>m\<close> returns normally after putting exactly \<open>bs\<close> on the wire. \<open>parses m fd bs v k a\<close>:
  when the next bytes of \<open>fd\<close> are \<open>bs\<close>, \<open>m\<close> consumes exactly them and returns \<open>v\<close>,
  having allocated \<open>k\<close> blocks, provided that allocations of up to \<open>a\<close> bytes succeed.
\<close>

definition sends :: "(unit, 'z sys_scheme) io \<Rightarrow> int \<Rightarrow> byte list \<Rightarrow> bool" where
  "sends m fd bs \<longleftrightarrow>
     (\<forall>s n. connected fd s \<and> soft_w (wsys s) \<and> n + length bs \<le> takes (wsys s) \<longrightarrow>
        (\<exists>w. m s = Ok () (put_bytes fd bs (s\<lparr>wsys := w\<rparr>)) \<and> soft_w w \<and> n \<le> takes w))"

definition parses :: "('a, 'z sys_scheme) io \<Rightarrow> int \<Rightarrow> byte list \<Rightarrow> 'a \<Rightarrow> nat \<Rightarrow> nat \<Rightarrow> bool" where
  "parses m fd bs v k a \<longleftrightarrow>
     (\<forall>s n d rest. fdt s fd = Some d \<and> inp d = bs @ rest \<and> soft_r (rsys s)
          \<and> n + length bs \<le> chunks (rsys s) \<and> a \<le> mem_max s \<longrightarrow>
        (\<exists>r. m s = Ok v (got_bytes fd (length bs) (s\<lparr>rsys := r, live := live s + k\<rparr>))
             \<and> soft_r r \<and> n \<le> chunks r))"

lemma put_bytes_Nil [simp]: "put_bytes fd [] s = s"
  by (cases "fdt s fd") (simp_all add: put_bytes_def fun_upd_idem)

lemma put_bytes_put_bytes [simp]:
  "put_bytes fd bs' (put_bytes fd bs s) = put_bytes fd (bs @ bs') s"
  by (cases "fdt s fd") (simp_all add: put_bytes_def)

lemma put_bytes_fields [simp]:
  "wsys (put_bytes fd bs s) = wsys s" "rsys (put_bytes fd bs s) = rsys s"
  "live (put_bytes fd bs s) = live s" "mem_max (put_bytes fd bs s) = mem_max s"
  "closed (put_bytes fd bs s) = closed s" "close_errs (put_bytes fd bs s) = close_errs s"
  by (simp_all add: put_bytes_def)

lemma put_bytes_wsys [simp]:
  "(put_bytes fd bs s)\<lparr>wsys := w\<rparr> = put_bytes fd bs (s\<lparr>wsys := w\<rparr>)"
  by (simp add: put_bytes_def)

lemma connected_put_bytes [simp]: "connected fd (put_bytes fd' bs s) = connected fd s"
  by (auto simp: connected_def put_bytes_def)

lemma connected_wsys [simp]: "connected fd (s\<lparr>wsys := w\<rparr>) = connected fd s"
  by (simp add: connected_def)

lemma fdt_put_bytes:
  "fdt (put_bytes fd bs s) fd = map_option (\<lambda>d. d\<lparr>sent := sent d @ bs\<rparr>) (fdt s fd)"
  "fd' \<noteq> fd \<Longrightarrow> fdt (put_bytes fd bs s) fd' = fdt s fd'"
  by (simp_all add: put_bytes_def)

lemma got_bytes_0 [simp]: "got_bytes fd 0 s = s"
  by (cases "fdt s fd") (simp_all add: got_bytes_def fun_upd_idem)

lemma got_bytes_got_bytes [simp]:
  "got_bytes fd n' (got_bytes fd n s) = got_bytes fd (n + n') s"
  by (cases "fdt s fd") (simp_all add: got_bytes_def add.commute)

lemma got_bytes_fields [simp]:
  "wsys (got_bytes fd n s) = wsys s" "rsys (got_bytes fd n s) = rsys s"
  "live (got_bytes fd n s) = live s" "mem_max (got_bytes fd n s) = mem_max s"
  "closed (got_bytes fd n s) = closed s" "close_errs (got_bytes fd n s) = close_errs s"
  by (simp_all add: got_bytes_def)

lemma got_bytes_updates [simp]:
  "(got_bytes fd n s)\<lparr>rsys := r\<rparr> = got_bytes fd n (s\<lparr>rsys := r\<rparr>)"
  "(got_bytes fd n s)\<lparr>live := l\<rparr> = got_bytes fd n (s\<lparr>live := l\<rparr>)"
  by (simp_all add: got_bytes_def)

lemma fdt_got_bytes:
  "fdt (got_bytes fd n s) fd = map_option (\<lambda>d. d\<lparr>inp := drop n (inp d)\<rparr>) (fdt s fd)"
  "fd' \<noteq> fd \<Longrightarrow> fdt (got_bytes fd n s) fd' = fdt s fd'"
  by (simp_all add: got_bytes_def)

subsection \<open>Composing writers and readers\<close>

lemma sendsE:
  assumes "sends m fd bs" and "connected fd s" and "soft_w (wsys s)"
    and "n + length bs \<le> takes (wsys s)"
  obtains w where "m s = Ok () (put_bytes fd bs (s\<lparr>wsys := w\<rparr>))" "soft_w w" "n \<le> takes w"
  using assms unfolding sends_def by blast

lemma parsesE:
  assumes "parses m fd bs v k a" and "fdt s fd = Some d" and "inp d = bs @ rest"
    and "soft_r (rsys s)" and "n + length bs \<le> chunks (rsys s)" and "a \<le> mem_max s"
  obtains r where "m s = Ok v (got_bytes fd (length bs) (s\<lparr>rsys := r, live := live s + k\<rparr>))"
    "soft_r r" "n \<le> chunks r"
  using assms unfolding parses_def by blast

lemma sends_ret [sends_intros]: "sends (io_ret () :: (unit, 'z sys_scheme) io) fd []"
  unfolding sends_def
proof (intro allI impI)
  fix s :: "'z sys_scheme" and n
  assume "connected fd s \<and> soft_w (wsys s) \<and> n + length [] \<le> takes (wsys s)"
  then show "\<exists>w. io_ret () s = Ok () (put_bytes fd [] (s\<lparr>wsys := w\<rparr>)) \<and> soft_w w \<and> n \<le> takes w"
    by (intro exI [of _ "wsys s"]) simp
qed

lemma sends_then:
  fixes m m' :: "(unit, 'z sys_scheme) io"
  assumes "sends m fd bs" and "sends m' fd bs'"
  shows "sends (io_then m m') fd (bs @ bs')"
  unfolding sends_def
proof (intro allI impI)
  fix s :: "'z sys_scheme" and n
  assume h: "connected fd s \<and> soft_w (wsys s) \<and> n + length (bs @ bs') \<le> takes (wsys s)"
  then have c: "connected fd s" "soft_w (wsys s)" "(n + length bs') + length bs \<le> takes (wsys s)"
    by simp_all
  from sendsE [OF assms(1) c] obtain w where
    w: "m s = Ok () (put_bytes fd bs (s\<lparr>wsys := w\<rparr>))" "soft_w w" "n + length bs' \<le> takes w"
    by blast
  let ?s = "put_bytes fd bs (s\<lparr>wsys := w\<rparr>)"
  have c': "connected fd ?s" "soft_w (wsys ?s)" "n + length bs' \<le> takes (wsys ?s)"
    using h w by simp_all
  from sendsE [OF assms(2) c'] obtain w' where
    "m' ?s = Ok () (put_bytes fd bs' (?s\<lparr>wsys := w'\<rparr>))" "soft_w w'" "n \<le> takes w'"
    by blast
  with w show "\<exists>w. io_then m m' s = Ok () (put_bytes fd (bs @ bs') (s\<lparr>wsys := w\<rparr>)) \<and> soft_w w \<and> n \<le> takes w"
    by auto
qed

lemma sends_ignore: "sends m fd bs \<Longrightarrow> sends (io_ignore m) fd bs"
  unfolding sends_def by (meson io_ignore_Ok)

lemma sends_when:
  assumes "b \<Longrightarrow> sends m fd bs"
  shows "sends (io_when b m) fd (if b then bs else [])"
  using assms by (cases b) (simp_all add: sends_ret)

lemma sends_each:
  assumes "\<And>x. x \<in> set xs \<Longrightarrow> sends (f x) fd (e x)"
  shows "sends (io_each f xs) fd (concat (map e xs))"
  using assms
proof (induction xs)
  case Nil
  show ?case by (simp add: sends_ret)
next
  case (Cons x xs)
  then show ?case by (simp add: sends_then)
qed

lemma parses_ret [parses_intros]: "parses (io_ret v :: ('a, 'z sys_scheme) io) fd [] v 0 0"
  unfolding parses_def
proof (intro allI impI)
  fix s :: "'z sys_scheme" and n d rest
  assume "fdt s fd = Some d \<and> inp d = [] @ rest \<and> soft_r (rsys s)
    \<and> n + length [] \<le> chunks (rsys s) \<and> 0 \<le> mem_max s"
  then show "\<exists>r. io_ret v s = Ok v (got_bytes fd (length []) (s\<lparr>rsys := r, live := live s + 0\<rparr>))
      \<and> soft_r r \<and> n \<le> chunks r"
    by (intro exI [of _ "rsys s"]) simp
qed

lemma parses_bind:
  fixes m :: "('a, 'z sys_scheme) io" and f :: "'a \<Rightarrow> ('b, 'z sys_scheme) io"
  assumes "parses m fd bs v k a" and "parses (f v) fd bs' v' k' a'"
  shows "parses (io_bind m f) fd (bs @ bs') v' (k + k') (max a a')"
  unfolding parses_def
proof (intro allI impI)
  fix s :: "'z sys_scheme" and n d rest
  assume h: "fdt s fd = Some d \<and> inp d = (bs @ bs') @ rest \<and> soft_r (rsys s)
     \<and> n + length (bs @ bs') \<le> chunks (rsys s) \<and> max a a' \<le> mem_max s"
  then have c: "fdt s fd = Some d" "inp d = bs @ (bs' @ rest)" "soft_r (rsys s)"
      "(n + length bs') + length bs \<le> chunks (rsys s)" "a \<le> mem_max s"
    by simp_all
  from parsesE [OF assms(1) c] obtain r where
    r: "m s = Ok v (got_bytes fd (length bs) (s\<lparr>rsys := r, live := live s + k\<rparr>))"
      "soft_r r" "n + length bs' \<le> chunks r"
    by blast
  let ?s = "got_bytes fd (length bs) (s\<lparr>rsys := r, live := live s + k\<rparr>)"
  let ?d = "d\<lparr>inp := drop (length bs) (inp d)\<rparr>"
  have c': "fdt ?s fd = Some ?d" "inp ?d = bs' @ rest" "soft_r (rsys ?s)"
    "n + length bs' \<le> chunks (rsys ?s)" "a' \<le> mem_max ?s"
    using h r by (simp_all add: fdt_got_bytes)
  from parsesE [OF assms(2) c'] obtain r' where
    "f v ?s = Ok v' (got_bytes fd (length bs') (?s\<lparr>rsys := r', live := live ?s + k'\<rparr>))"
      "soft_r r'" "n \<le> chunks r'"
    by blast
  with r show "\<exists>r. io_bind m f s = Ok v' (got_bytes fd (length (bs @ bs')) (s\<lparr>rsys := r, live := live s + (k + k')\<rparr>))
      \<and> soft_r r \<and> n \<le> chunks r"
    by (auto simp: add.assoc)
qed

lemma parses_mono: "parses m fd bs v k a \<Longrightarrow> a \<le> a' \<Longrightarrow> parses m fd bs v k a'"
  unfolding parses_def by (meson le_trans)

lemma parses_bind_ret:
  fixes m :: "('a, 'z sys_scheme) io"
  assumes "parses m fd bs v k a"
  shows "parses (io_bind m (\<lambda>x. io_ret (g x))) fd bs (g v) k a"
proof -
  have "parses (io_bind m (\<lambda>x. io_ret (g x))) fd (bs @ []) (g v) (k + 0) (max a 0)"
    by (rule parses_bind, rule assms, rule parses_ret)
  then show ?thesis by simp
qed

lemma parses_repeat:
  fixes m :: "('a, 'z sys_scheme) io"
  assumes "\<And>v. v \<in> set vs \<Longrightarrow> parses m fd (e v) (g v) k a"
  shows "parses (io_repeat (length vs) m) fd (concat (map e vs)) (map g vs) (length vs * k) a"
  using assms
proof (induction vs)
  case Nil
  have "parses (io_ret [] :: ('a list, 'z sys_scheme) io) fd [] [] 0 0" by (rule parses_ret)
  then show ?case by (auto intro: parses_mono)
next
  case (Cons v vs)
  have IH: "parses (io_bind (io_repeat (length vs) m) (\<lambda>xs. io_ret (g v # xs))) fd
      (concat (map e vs)) (g v # map g vs) (length vs * k) a"
    by (rule parses_bind_ret) (use Cons in simp)
  have "parses (io_bind m (\<lambda>x. io_bind (io_repeat (length vs) m) (\<lambda>xs. io_ret (x # xs)))) fd
      (e v @ concat (map e vs)) (g v # map g vs) (k + length vs * k) (max a a)"
  proof (rule parses_bind)
    show "parses m fd (e v) (g v) k a" using Cons.prems by simp
  qed (rule IH)
  then show ?case by simp
qed

text \<open>What a descriptor has still to deliver.\<close>

definition pending :: "int \<Rightarrow> 'z sys_scheme \<Rightarrow> byte list" where
  "pending fd s = (case fdt s fd of None \<Rightarrow> [] | Some d \<Rightarrow> inp d)"

lemma pending_got_bytes [simp]: "pending fd (got_bytes fd n s) = drop n (pending fd s)"
  by (simp add: pending_def fdt_got_bytes split: option.split)

lemma pending_updates [simp]:
  "pending fd (s\<lparr>rsys := r\<rparr>) = pending fd s" "pending fd (s\<lparr>live := l\<rparr>) = pending fd s"
  by (simp_all add: pending_def)

lemma written_put_bytes: "connected fd s \<Longrightarrow> written fd (put_bytes fd bs s) = written fd s @ bs"
  by (auto simp: connected_def written_def fdt_put_bytes)

section \<open>The interface of a pair of writer and reader\<close>

text \<open>
  \<open>enc v\<close> is what the writer puts on the wire for \<open>v\<close>, \<open>dec v\<close> what the reader makes of it;
  the reader allocates \<open>blocks\<close> blocks of at most \<open>need v\<close> bytes.
\<close>

locale wire_codec =
  fixes put :: "int \<Rightarrow> 'v \<Rightarrow> (unit, 'z sys_scheme) io"
    and get :: "int \<Rightarrow> ('w, 'y sys_scheme) io"
    and enc :: "'v \<Rightarrow> byte list"
    and dec :: "'v \<Rightarrow> 'w"
    and blocks :: nat
    and need :: "'v \<Rightarrow> nat"
  assumes put_sends: "sends (put fd v) fd (enc v)"
    and get_parses: "parses (get fd) fd (enc v) (dec v) blocks (need v)"
begin

lemma put_each: "sends (io_each (put fd) vs) fd (concat (map enc vs))"
  by (rule sends_each) (rule put_sends)

lemma get_repeat:
  assumes "\<And>v. v \<in> set vs \<Longrightarrow> need v \<le> a"
  shows "parses (io_repeat (length vs) (get fd)) fd (concat (map enc vs)) (map dec vs) (length vs * blocks) a"
proof (rule parses_repeat)
  fix v
  assume "v \<in> set vs"
  then have "need v \<le> a" by (rule assms)
  with get_parses show "parses (get fd) fd (enc v) (dec v) blocks a" by (rule parses_mono)
qed

lemma round_trip:
  assumes "connected fd s" and "soft_w (wsys s)" and "length (enc v) \<le> takes (wsys s)"
    and "fdt t fd' = Some d" and "inp d = enc v @ rest"
    and "soft_r (rsys t)" and "length (enc v) \<le> chunks (rsys t)" and "need v \<le> mem_max t"
  shows "\<exists>s' t'. put fd v s = Ok () s' \<and> written fd s' = written fd s @ enc v
    \<and> get fd' t = Ok (dec v) t' \<and> pending fd' t' = rest \<and> live t' = live t + blocks"
proof -
  obtain w where "put fd v s = Ok () (put_bytes fd (enc v) (s\<lparr>wsys := w\<rparr>))"
    using sendsE [OF put_sends assms(1,2), of 0] assms(3) by auto
  moreover have "written fd (put_bytes fd (enc v) (s\<lparr>wsys := w\<rparr>)) = written fd s @ enc v"
    using assms(1) by (simp add: written_put_bytes)
  moreover obtain r where "get fd' t = Ok (dec v) (got_bytes fd' (length (enc v)) (t\<lparr>rsys := r, live := live t + blocks\<rparr>))"
    using parsesE [OF get_parses assms(4,5,6), of 0] assms(7,8) by auto
  moreover have "pending fd' t = enc v @ rest" using assms(4,5) by (simp add: pending_def)
  ultimately show ?thesis by auto
qed

end

end
