(* ===== verification/Util.thy ===== *)
theory Util
  imports Machine
begin

text \<open>
  The error-handling macros of \<open>src/util.h\<close>. A macro that wraps a call becomes a combinator
  on the call's model. Whether the build defines \<open>DEBUG\<close> is the field \<open>debug\<close> of the
  state; without it \<open>WARN_ON_FAIL\<close>, \<open>WARN_ON_FAIL_VALUE\<close> and \<open>ASSERT\<close> expand to nothing.
  The debugging aids of \<open>src/util.c\<close> are at the end.
\<close>

section \<open>Macros that always act\<close>

text \<open>In a function that returns nothing: \<open>if (f(...) < 0) return;\<close>.\<close>

definition RETURN_ON_FAIL :: "('a, 's) io \<Rightarrow> ('a \<Rightarrow> (unit, 's) io) \<Rightarrow> (unit, 's) io" where
  "RETURN_ON_FAIL f k s = (case f s of
       Ok v s' \<Rightarrow> k v s'
     | Fail s' \<Rightarrow> Ok () s'
     | Blocked \<Rightarrow> Blocked
     | Fault \<Rightarrow> Fault
     | Exited s' \<Rightarrow> Exited s')"

text \<open>In a function that returns a code: \<open>if (f(...) < 0) return -1;\<close>.\<close>

definition RETURN_ERROR_ON_FAIL :: "('a, 's) io \<Rightarrow> ('a \<Rightarrow> ('b, 's) io) \<Rightarrow> ('b, 's) io" where
  "RETURN_ERROR_ON_FAIL f k = io_bind f k"

definition ABORT_ON_FAIL :: "('a, 's) io \<Rightarrow> ('a, 's) io" where
  "ABORT_ON_FAIL f = io_on_fail f Exited"

section \<open>Macros that depend on \<open>DEBUG\<close>\<close>

definition WARN_ON_FAIL :: "('a, 'z sys_scheme) io \<Rightarrow> (unit, 'z sys_scheme) io" where
  "WARN_ON_FAIL f s = (if debug s then io_ignore f s else Ok () s)"

definition WARN_ON_FAIL_VALUE :: "int \<Rightarrow> (unit, 'z sys_scheme) io" where
  "WARN_ON_FAIL_VALUE v s = (if debug s \<and> v < 0 then Exited s else Ok () s)"

definition ASSERT :: "bool \<Rightarrow> (unit, 'z sys_scheme) io" where
  "ASSERT check s = (if debug s \<and> \<not> check then Exited s else Ok () s)"

text \<open>\<open>SHOULD_NOT_REACH(...)\<close> is \<open>ASSERT(-1, ...)\<close>, and C reads -1 as true.\<close>

definition SHOULD_NOT_REACH :: "(unit, 'z sys_scheme) io" where
  "SHOULD_NOT_REACH = ASSERT ((-1 :: int) \<noteq> 0)"

lemma SHOULD_NOT_REACH_noop [simp]: "SHOULD_NOT_REACH s = Ok () s"
  by (simp add: SHOULD_NOT_REACH_def ASSERT_def)

lemma RETURN_ON_FAIL_Ok [simp]: "f s = Ok v s' \<Longrightarrow> RETURN_ON_FAIL f k s = k v s'"
  by (simp add: RETURN_ON_FAIL_def)

lemma RETURN_ON_FAIL_Fail [simp]: "f s = Fail s' \<Longrightarrow> RETURN_ON_FAIL f k s = Ok () s'"
  by (simp add: RETURN_ON_FAIL_def)

lemma RETURN_ON_FAIL_never_Fail:
  assumes "\<And>v s'. k v s' \<noteq> Fail s''"
  shows "RETURN_ON_FAIL f k s \<noteq> Fail s''"
  using assms by (cases "f s") (auto simp: RETURN_ON_FAIL_def)

text \<open>As far as a call succeeds, both macros sequence like \<open>io_bind\<close>.\<close>

lemma parses_RETURN_ON_FAIL:
  fixes m :: "('a, 'z sys_scheme) io" and f :: "'a \<Rightarrow> (unit, 'z sys_scheme) io"
  assumes "parses m fd bs v k a" and "parses (f v) fd bs' () k' a'"
  shows "parses (RETURN_ON_FAIL m f) fd (bs @ bs') () (k + k') (max a a')"
proof -
  have agree: "RETURN_ON_FAIL m f s = Ok () t" if "io_bind m f s = Ok () t" for s t :: "'z sys_scheme"
    using that by (cases "m s") (auto simp: RETURN_ON_FAIL_def io_bind_def)
  from assms have "parses (io_bind m f) fd (bs @ bs') () (k + k') (max a a')"
    by (rule parses_bind)
  then show ?thesis
    unfolding parses_def by (meson agree)
qed

section \<open>What the macros do and do not do\<close>

text \<open>
  A wrapped call is not executed at all in a release build: \<open>WARN_ON_FAIL(f, ...)\<close> drops the call
  with its warning.
\<close>

lemma WARN_ON_FAIL_release: "\<not> debug s \<Longrightarrow> WARN_ON_FAIL f s = Ok () s"
  by (simp add: WARN_ON_FAIL_def)

lemma WARN_ON_FAIL_debug: "debug s \<Longrightarrow> WARN_ON_FAIL f s = io_ignore f s"
  by (simp add: WARN_ON_FAIL_def)

section \<open>Debugging aids\<close>

text \<open>What \<open>src/util.c\<close> and \<open>voyeur_log\<close> print, in order: \<open>perror\<close>, the request, a message.\<close>

datatype debug_output = Perror string | Attach_To "32 word" | Logged string

text \<open>\<open>voyeur_log\<close> prints in a build with \<open>DEBUG\<close> only.\<close>

definition voyeur_log :: "bool \<Rightarrow> string \<Rightarrow> debug_output list \<Rightarrow> debug_output list" where
  "voyeur_log with_debug str out = (if with_debug then out @ [Logged str] else out)"

text \<open>The loop, which a debugger ends by clearing \<open>keep_looping\<close>; no statement of the program does.\<close>

partial_function (option) request_loop :: "bool \<Rightarrow> 32 word \<Rightarrow> debug_output list \<Rightarrow> debug_output list option" where
  "request_loop keep_looping pid out =
     (if keep_looping then request_loop keep_looping pid (out @ [Attach_To pid]) else Some out)"

definition voyeur_request_debug :: "32 word \<Rightarrow> string \<Rightarrow> debug_output list \<Rightarrow> debug_output list option" where
  "voyeur_request_debug pid reason out = request_loop True pid (out @ [Perror reason])"

lemma request_loop_result: "request_loop keep_looping pid out = Some out' \<Longrightarrow> \<not> keep_looping"
  by (erule request_loop.raw_induct [rotated]) (auto split: if_splits)

lemma voyeur_request_debug_never_returns: "voyeur_request_debug pid reason out = None"
  using request_loop_result [of True] by (cases "request_loop True pid (out @ [Perror reason])") (auto simp: voyeur_request_debug_def)

end
