(* ===== verification/Protocol.thy ===== *)
theory Protocol
  imports Prelude
begin

unbundle bit_operations_syntax

text \<open>
  The enumerations both ends of the protocol share: the message types of \<open>src/net.h\<close>, the
  event types that \<open>MAP_EVENTS\<close> generates in \<open>src/event.h\<close>, and the option flags of
  \<open>include/voyeur.h\<close>, with the representation of objects in memory, which is what goes over
  the wire (little-endian on the supported processors).
\<close>

section \<open>Message and event types\<close>

datatype voyeur_msg_type = VOYEUR_MSG_EVENT | VOYEUR_MSG_DONE

fun msg_type_val :: "voyeur_msg_type \<Rightarrow> u32" where
  "msg_type_val VOYEUR_MSG_EVENT = 0"
| "msg_type_val VOYEUR_MSG_DONE = 1"

datatype voyeur_event_type =
  VOYEUR_EVENT_EXEC | VOYEUR_EVENT_EXIT | VOYEUR_EVENT_OPEN | VOYEUR_EVENT_CLOSE

fun event_type_val :: "voyeur_event_type \<Rightarrow> u32" where
  "event_type_val VOYEUR_EVENT_EXEC = 0"
| "event_type_val VOYEUR_EVENT_EXIT = 1"
| "event_type_val VOYEUR_EVENT_OPEN = 2"
| "event_type_val VOYEUR_EVENT_CLOSE = 3"

definition VOYEUR_EVENT_MAX :: nat where
  "VOYEUR_EVENT_MAX = 4"

text \<open>The order in which \<open>MAP_EVENTS\<close> expands \<open>ON_EVENT\<close>.\<close>

definition MAP_EVENTS :: "voyeur_event_type list" where
  "MAP_EVENTS = [VOYEUR_EVENT_EXEC, VOYEUR_EVENT_EXIT, VOYEUR_EVENT_OPEN, VOYEUR_EVENT_CLOSE]"

text \<open>The second argument of \<open>ON_EVENT\<close>: the event's name in file and function names.\<close>

fun event_name :: "voyeur_event_type \<Rightarrow> string" where
  "event_name VOYEUR_EVENT_EXEC = ''exec''"
| "event_name VOYEUR_EVENT_EXIT = ''exit''"
| "event_name VOYEUR_EVENT_OPEN = ''open''"
| "event_name VOYEUR_EVENT_CLOSE = ''close''"

text \<open>C compares enumerators by value, so the event types are linearly ordered.\<close>

instantiation voyeur_event_type :: linorder
begin
definition less_eq_voyeur_event_type :: "voyeur_event_type \<Rightarrow> voyeur_event_type \<Rightarrow> bool" where
  "less_eq_voyeur_event_type a b = (event_type_val a \<le> event_type_val b)"
definition less_voyeur_event_type :: "voyeur_event_type \<Rightarrow> voyeur_event_type \<Rightarrow> bool" where
  "less_voyeur_event_type a b = (event_type_val a < event_type_val b)"
instance
proof
  fix a b :: voyeur_event_type
  assume "a \<le> b" "b \<le> a"
  then have "event_type_val a = event_type_val b"
    by (simp add: less_eq_voyeur_event_type_def)
  then show "a = b" by (cases a; cases b) simp_all
qed (auto simp: less_eq_voyeur_event_type_def less_voyeur_event_type_def)
end

lemma event_type_val_eq [simp]: "event_type_val a = event_type_val b \<longleftrightarrow> a = b"
  by (cases a; cases b) simp_all

lemma sorted_MAP_EVENTS: "sorted MAP_EVENTS" and distinct_MAP_EVENTS: "distinct MAP_EVENTS"
  by (simp_all add: MAP_EVENTS_def less_eq_voyeur_event_type_def)

lemma in_MAP_EVENTS [simp]: "E \<in> set MAP_EVENTS"
  by (cases E) (simp_all add: MAP_EVENTS_def)

lemma length_MAP_EVENTS [simp]: "length MAP_EVENTS = VOYEUR_EVENT_MAX"
  by (simp add: MAP_EVENTS_def VOYEUR_EVENT_MAX_def)

lemma nth_MAP_EVENTS [simp]: "MAP_EVENTS ! unat (event_type_val E) = E"
  by (cases E) (simp_all add: MAP_EVENTS_def)

lemma event_type_val_bound: "unat (event_type_val E) < VOYEUR_EVENT_MAX"
  by (cases E) (simp_all add: VOYEUR_EVENT_MAX_def)

section \<open>Option flags\<close>

definition OBSERVE_EXEC_CWD :: u8 where "OBSERVE_EXEC_CWD = 1"
definition OBSERVE_EXEC_ENV :: u8 where "OBSERVE_EXEC_ENV = 2"
definition OBSERVE_EXEC_PATH :: u8 where "OBSERVE_EXEC_PATH = 4"
definition OBSERVE_EXEC_NOACCESS :: u8 where "OBSERVE_EXEC_NOACCESS = 8"
definition OBSERVE_EXEC_SILENT :: u8 where "OBSERVE_EXEC_SILENT = 16"
definition OBSERVE_OPEN_CWD :: u8 where "OBSERVE_OPEN_CWD = 1"

lemmas flag_defs = OBSERVE_EXEC_CWD_def OBSERVE_EXEC_ENV_def OBSERVE_EXEC_PATH_def
  OBSERVE_EXEC_NOACCESS_def OBSERVE_EXEC_SILENT_def OBSERVE_OPEN_CWD_def

text \<open>\<open>opts & flag\<close> as a condition.\<close>

definition has_flag :: "u8 \<Rightarrow> u8 \<Rightarrow> bool" where
  "has_flag opts flag = (opts AND flag \<noteq> 0)"

text \<open>Every flag of the protocol is among the low five bits, so both ends test the same flags.\<close>

lemma has_flag_low5:
  assumes "flag AND 0x1F = flag"
  shows "has_flag (opts AND 0x1F) flag = has_flag opts flag"
  unfolding has_flag_def by (metis and.assoc and.commute assms)

lemma has_flag_encoded [simp]:
  "has_flag (opts AND 0x1F) OBSERVE_EXEC_CWD = has_flag opts OBSERVE_EXEC_CWD"
  "has_flag (opts AND 0x1F) OBSERVE_EXEC_ENV = has_flag opts OBSERVE_EXEC_ENV"
  "has_flag (opts AND 0x1F) OBSERVE_EXEC_PATH = has_flag opts OBSERVE_EXEC_PATH"
  "has_flag (opts AND 0x1F) OBSERVE_EXEC_NOACCESS = has_flag opts OBSERVE_EXEC_NOACCESS"
  "has_flag (opts AND 0x1F) OBSERVE_EXEC_SILENT = has_flag opts OBSERVE_EXEC_SILENT"
  "has_flag (opts AND 0x1F) OBSERVE_OPEN_CWD = has_flag opts OBSERVE_OPEN_CWD"
  by (rule has_flag_low5; simp add: flag_defs)+

section \<open>Objects in memory\<close>

fun le_enc :: "nat \<Rightarrow> nat \<Rightarrow> byte list" where
  "le_enc 0 v = []"
| "le_enc (Suc k) v = word_of_nat v # le_enc k (v div 256)"

fun le_dec :: "byte list \<Rightarrow> nat" where
  "le_dec [] = 0"
| "le_dec (b # bs) = unat b + 256 * le_dec bs"

definition obj32 :: "u32 \<Rightarrow> byte list" where
  "obj32 w = le_enc 4 (unat w)"

definition obj64 :: "u64 \<Rightarrow> byte list" where
  "obj64 w = le_enc 8 (unat w)"

definition as32 :: "byte list \<Rightarrow> u32" where
  "as32 bs = word_of_nat (le_dec bs)"

definition as64 :: "byte list \<Rightarrow> u64" where
  "as64 bs = word_of_nat (le_dec bs)"

lemma length_le_enc [simp]: "length (le_enc k v) = k"
  by (induction k arbitrary: v) simp_all

lemma length_obj [simp]: "length (obj32 w) = 4" "length (obj64 w') = 8"
  by (simp_all add: obj32_def obj64_def)

lemma le_dec_le_enc: "le_dec (le_enc k v) = v mod 256 ^ k"
proof (induction k arbitrary: v)
  case 0
  show ?case by simp
next
  case (Suc k)
  have "unat (word_of_nat v :: byte) = v mod 256"
    by (simp add: unat_of_nat)
  with Suc show ?case by (simp add: mod_mult2_eq)
qed

lemma as32_obj32 [simp]: "as32 (obj32 w) = w"
proof -
  have "unat w < 256 ^ 4" using unsigned_less [of w, where ?'a = nat] by simp
  then show ?thesis by (simp add: as32_def obj32_def le_dec_le_enc)
qed

lemma as64_obj64 [simp]: "as64 (obj64 w) = w"
proof -
  have "unat w < 256 ^ 8" using unsigned_less [of w, where ?'a = nat] by simp
  then show ?thesis by (simp add: as64_def obj64_def le_dec_le_enc)
qed

text \<open>The bytes of a C string: its characters and the terminating null.\<close>

definition str_bytes :: "string \<Rightarrow> byte list" where
  "str_bytes cs = map of_char cs"

definition bytes_str :: "byte list \<Rightarrow> string" where
  "bytes_str bs = map (\<lambda>b. char_of (unat b)) bs"

lemma length_str_bytes [simp]: "length (str_bytes cs) = length cs"
  by (simp add: str_bytes_def)

lemma char_of_unat_of_char [simp]: "char_of (unat (of_char c :: byte)) = c"
proof -
  have "(of_char c :: byte) = word_of_nat (of_char c)"
    by (simp only: of_nat_of_char)
  moreover have "unat (word_of_nat (of_char c) :: byte) = of_char c"
    by (simp add: unsigned_of_nat take_bit_eq_mod)
  ultimately show ?thesis by simp
qed

lemma bytes_str_bytes [simp]: "bytes_str (str_bytes cs) = cs"
  by (simp add: bytes_str_def str_bytes_def map_idI)

lemma take_str_bytes: "take n (str_bytes cs) = str_bytes (take n cs)"
  by (simp add: str_bytes_def take_map)

end
