(* ===== verification/CString.thy ===== *)
theory CString
  imports Prelude
begin

text \<open>
  The functions of the C library (and of libbsd) that the sources call on strings. A C string is
  its list of characters up to the terminating null; \<open>None\<close> of \<open>string option\<close> is a null
  pointer. Where the size of the underlying object matters, the object is the list of all its
  characters and an access outside it is \<open>None\<close>.
\<close>

section \<open>Strings\<close>

abbreviation NUL :: char where
  "NUL \<equiv> CHR 0x00"

text \<open>A string that a C object can hold: no null inside.\<close>

definition cstr :: "string \<Rightarrow> bool" where
  "cstr s = (NUL \<notin> set s)"

definition strnlen :: "string \<Rightarrow> nat \<Rightarrow> nat" where
  "strnlen s n = min (length s) n"

text \<open>What a buffer of \<open>n\<close> bytes holds after \<open>strlcpy\<close> and \<open>strlcat\<close>.\<close>

definition strlcpy :: "string \<Rightarrow> nat \<Rightarrow> string" where
  "strlcpy src n = take (n - 1) src"

definition strlcat :: "string \<Rightarrow> string \<Rightarrow> nat \<Rightarrow> string" where
  "strlcat dst src n = (if length dst < n then take (n - 1) (dst @ src) else dst)"

text \<open>\<open>strncmp(s, t, n) == 0\<close>.\<close>

definition strncmp_eq :: "string \<Rightarrow> string \<Rightarrow> nat \<Rightarrow> bool" where
  "strncmp_eq s t n = (take n s = take n t)"

text \<open>Whether \<open>little\<close> occurs in \<open>big\<close>.\<close>

fun contains :: "string \<Rightarrow> string \<Rightarrow> bool" where
  "contains little [] = (little = [])"
| "contains little (c # cs) = (take (length little) (c # cs) = little \<or> contains little cs)"

definition strnstr :: "string \<Rightarrow> string \<Rightarrow> nat \<Rightarrow> bool" where
  "strnstr big little n = contains little (take n big)"

text \<open>The position of the last occurrence of a character.\<close>

fun strrchr :: "string \<Rightarrow> char \<Rightarrow> nat option" where
  "strrchr [] c = None"
| "strrchr (x # xs) c = (case strrchr xs c of
      Some i \<Rightarrow> Some (Suc i)
    | None \<Rightarrow> if x = c then Some 0 else None)"

text \<open>\<open>getenv\<close>: the value of the first entry of that name.\<close>

fun getenv :: "string list \<Rightarrow> string \<Rightarrow> string option" where
  "getenv [] name = None"
| "getenv (e # es) name =
     (if strncmp_eq e (name @ ''='') (length name + 1) then Some (drop (length name + 1) e)
      else getenv es name)"

lemma cstr_simps [simp]:
  "cstr []" "cstr (c # s) = (c \<noteq> NUL \<and> cstr s)" "cstr (s @ t) = (cstr s \<and> cstr t)"
  by (auto simp: cstr_def)

lemma cstr_take [simp]: "cstr s \<Longrightarrow> cstr (take n s)"
  by (auto simp: cstr_def dest: in_set_takeD)

lemma cstr_takeWhile [simp]: "cstr (takeWhile (\<lambda>c. c \<noteq> NUL) s)"
  by (induction s) simp_all

lemma cstr_view: "cstr s \<Longrightarrow> takeWhile (\<lambda>c. c \<noteq> NUL) s = s"
  by (simp add: cstr_def takeWhile_all)

lemma strlcpy_fits: "length src < n \<Longrightarrow> strlcpy src n = src"
  by (simp add: strlcpy_def)

lemma strlcat_fits: "length dst + length src < n \<Longrightarrow> strlcat dst src n = dst @ src"
  by (simp add: strlcat_def)

lemma length_strlcpy: "0 < n \<Longrightarrow> length (strlcpy src n) < n"
  by (simp add: strlcpy_def)

lemma length_strlcat: "length dst < n \<Longrightarrow> length (strlcat dst src n) < n"
  by (auto simp: strlcat_def)

text \<open>Copying and appending piecewise truncates the whole once.\<close>

lemma strlcat_strlcpy: "0 < n \<Longrightarrow> strlcat (strlcpy a n) b n = take (n - 1) (a @ b)"
  by (auto simp: strlcat_def strlcpy_def min_def)

lemma strlcat_take: "0 < n \<Longrightarrow> strlcat (take (n - 1) a) b n = take (n - 1) (a @ b)"
  by (auto simp: strlcat_def min_def)

lemma strncmp_eq_prefix: "strncmp_eq s t (length t) \<longleftrightarrow> (\<exists>u. s = t @ u)"
  by (auto simp: strncmp_eq_def) (metis append_take_drop_id)

lemma contains_iff: "contains little big \<longleftrightarrow> (\<exists>p q. big = p @ little @ q)"
proof (induction big)
  case Nil
  then show ?case by auto
next
  case (Cons c cs)
  show ?case
  proof
    assume "contains little (c # cs)"
    then consider "take (length little) (c # cs) = little" | "contains little cs" by auto
    then show "\<exists>p q. c # cs = p @ little @ q"
    proof cases
      case 1
      then have "c # cs = [] @ little @ drop (length little) (c # cs)"
        by (metis append_Nil append_take_drop_id)
      then show ?thesis by blast
    next
      case 2
      with Cons.IH obtain p q where "c # cs = (c # p) @ little @ q" by auto
      then show ?thesis by blast
    qed
  next
    assume "\<exists>p q. c # cs = p @ little @ q"
    then obtain p q where pq: "c # cs = p @ little @ q" by blast
    show "contains little (c # cs)"
    proof (cases p)
      case Nil
      with pq have "take (length little) (c # cs) = little" by simp
      then show ?thesis by simp
    next
      case (Cons d p')
      with pq have "cs = p' @ little @ q" by simp
      with Cons.IH show ?thesis by auto
    qed
  qed
qed

lemma strrchr_None: "strrchr s c = None \<longleftrightarrow> c \<notin> set s"
  by (induction s) (auto split: option.splits)

lemma strrchr_Some:
  "strrchr s c = Some i \<Longrightarrow> i < length s \<and> s ! i = c \<and> c \<notin> set (drop (Suc i) s)"
proof (induction s arbitrary: i)
  case Nil
  then show ?case by simp
next
  case (Cons x xs)
  show ?case
  proof (cases "strrchr xs c")
    case None
    with Cons.prems show ?thesis by (auto simp: strrchr_None split: if_splits)
  next
    case (Some j)
    with Cons.prems Cons.IH [of j] show ?thesis by auto
  qed
qed

text \<open>After the last separator there is none: the basename of an appended path.\<close>

lemma strrchr_append: "c \<notin> set t \<Longrightarrow> strrchr (s @ c # t) c = Some (length s)"
proof (induction s)
  case Nil
  then have "strrchr t c = None" by (simp add: strrchr_None)
  then show ?case by simp
next
  case (Cons x s)
  then show ?case by simp
qed

lemma getenv_append:
  "getenv (es @ fs) name = (case getenv es name of None \<Rightarrow> getenv fs name | Some v \<Rightarrow> Some v)"
  by (induction es) auto

lemma getenv_prefix:
  "getenv (e # es) name =
     (if (\<exists>v. e = name @ ''='' @ v) then Some (drop (length name + 1) e) else getenv es name)"
  using strncmp_eq_prefix [of e "name @ ''=''"] by simp

declare getenv.simps(2) [simp del]

section \<open>Objects\<close>

definition calloc_obj :: "nat \<Rightarrow> char list" where
  "calloc_obj n = replicate n NUL"

text \<open>The string at the start of an object, \<open>None\<close> when reading it runs off the end.\<close>

definition obj_str :: "char list \<Rightarrow> string option" where
  "obj_str ob = (if NUL \<in> set ob then Some (takeWhile (\<lambda>c. c \<noteq> NUL) ob) else None)"

text \<open>\<open>strlcat(ob, src, n)\<close> on an object, \<open>None\<close> when it reads or writes past its end.\<close>

definition strlcat_obj :: "char list \<Rightarrow> string \<Rightarrow> nat \<Rightarrow> char list option" where
  "strlcat_obj ob src n =
     (let d = takeWhile (\<lambda>c. c \<noteq> NUL) (take n ob) in
      if length d = length (take n ob) then (if length ob < n then None else Some ob)
      else (let r = take (n - 1) (d @ src) in
            if length r < length ob then Some (r @ NUL # drop (Suc (length r)) ob) else None))"

text \<open>
  Within the object's size, \<open>strlcat_obj\<close> never leaves the object and computes
  \<open>strlcat\<close> on the string the object holds.
\<close>

lemma strlcat_obj_in_bounds:
  assumes "length ob = n" and "obj_str ob = Some d" and "cstr src"
  shows "\<exists>ob'. strlcat_obj ob src n = Some ob' \<and> length ob' = n \<and> obj_str ob' = Some (strlcat d src n)"
proof -
  from assms(2) have d: "d = takeWhile (\<lambda>c. c \<noteq> NUL) ob" and nul: "NUL \<in> set ob"
    by (auto simp: obj_str_def split: if_splits)
  have "takeWhile (\<lambda>c. c \<noteq> NUL) ob \<noteq> ob"
    using nul by (metis set_takeWhileD)
  then have len: "length d < n"
    using assms(1) d by (metis length_takeWhile_le nat_less_le takeWhile_eq_take take_all)
  have c: "cstr d" using d by simp
  let ?r = "take (n - 1) (d @ src)"
  have r: "length ?r < n" and cr: "cstr ?r"
    using len c assms(3) cstr_take [of "d @ src" "n - 1"] by (simp_all del: take_append)
  have "strlcat_obj ob src n = Some (?r @ NUL # drop (Suc (length ?r)) ob)"
    using assms(1) len r d by (simp add: strlcat_obj_def Let_def)
  moreover have "obj_str (?r @ NUL # drop (Suc (length ?r)) ob) = Some ?r"
    using cr by (simp add: obj_str_def cstr_def takeWhile_stop del: take_append)
  moreover have "length (?r @ NUL # drop (Suc (length ?r)) ob) = n"
    using r assms(1) by (simp del: take_append)
  ultimately show ?thesis using len by (simp add: strlcat_def)
qed

end
