(* ===== verification/Net.thy ===== *)
theory Net
  imports Util Protocol CString
begin

text \<open>
  \<open>src/net.c\<close>: the loops around \<open>send\<close> and \<open>read\<close>, the readers and writers of the
  protocol's objects; the functions that open and close sockets are in the theory \<open>Connect\<close>.
  A C function of this file is the definition of the same name; its descriptor argument is the
  first one.
\<close>

section \<open>Transferring a whole buffer\<close>

text \<open>
  The loops compare \<open>ssize_t\<close> counters with \<open>(ssize_t) buf_size\<close>: \<open>sint\<close> of the size.
  A buffer shorter than the size it is given with is undefined behaviour.
\<close>

function do_write_loop :: "int \<Rightarrow> byte list \<Rightarrow> size_t \<Rightarrow> int \<Rightarrow> (unit, 'z sys_scheme) io" where
  "do_write_loop fd buf buf_size total_out s =
     (if total_out < sint buf_size then
        (if length buf < unat buf_size then Fault else
         case sys_send fd (take (unat (buf_size - word_of_int total_out)) (drop (nat total_out) buf)) s of
           Wait \<Rightarrow> Blocked
         | Err e s' \<Rightarrow>
             (if e = EAGAIN \<or> e = EINTR then do_write_loop fd buf buf_size total_out s' else Fail s')
         | Ret out s' \<Rightarrow> do_write_loop fd buf buf_size (total_out + int out) s')
      else Ok () s)"
  by pat_completeness auto
termination
  by (relation "measure (\<lambda>(fd, buf, n, t, s). length (wsys s))")
    (auto dest: sys_send_progress sys_send_retry)

definition do_write :: "int \<Rightarrow> byte list \<Rightarrow> size_t \<Rightarrow> (unit, 'z sys_scheme) io" where
  "do_write fd buf buf_size = do_write_loop fd buf buf_size 0"

function do_read_loop :: "int \<Rightarrow> size_t \<Rightarrow> int \<Rightarrow> byte list \<Rightarrow> (byte list, 'z sys_scheme) io" where
  "do_read_loop fd buf_size total_in buf s =
     (if total_in < sint buf_size then
        (case sys_read fd (unat (buf_size - word_of_int total_in)) s of
           Wait \<Rightarrow> Blocked
         | Err e s' \<Rightarrow>
             (if e = EAGAIN \<or> e = EINTR then do_read_loop fd buf_size total_in buf s' else Fail s')
         | Ret got s' \<Rightarrow>
             (if got = [] then Fail s'
              else do_read_loop fd buf_size (total_in + int (length got)) (buf @ got) s'))
      else Ok buf s)"
  by pat_completeness auto
termination
  by (relation "measure (\<lambda>(fd, n, t, b, s). length (rsys s))")
    (auto dest: sys_read_progress sys_read_retry)

definition do_read :: "int \<Rightarrow> size_t \<Rightarrow> (byte list, 'z sys_scheme) io" where
  "do_read fd buf_size = do_read_loop fd buf_size 0 []"

declare do_write_loop.simps [simp del] do_read_loop.simps [simp del]

text \<open>\<open>buf_size - total\<close> as the loop computes it, in \<open>size_t\<close>.\<close>

lemma remaining_size:
  fixes n :: size_t
  assumes "t \<le> unat n"
  shows "unat (n - word_of_int (int t)) = unat n - t"
proof -
  have "(word_of_int (int t) :: size_t) = word_of_nat t" by simp
  moreover have "unat (word_of_nat t :: size_t) = t"
    using assms unsigned_less [of n, where ?'a = nat]
    by (simp add: unsigned_of_nat take_bit_nat_eq_self_iff)
  ultimately show ?thesis
    using assms by (simp add: unat_sub word_le_nat_alt)
qed

lemma sint_size:
  fixes n :: size_t
  assumes "unat n < 2 ^ 63"
  shows "sint n = int (unat n)"
proof -
  from assms have "int (unat n) < int (2 ^ 63)" by (simp only: of_nat_less_iff)
  then have hi: "uint n < 2 ^ 63" by simp
  have "0 \<le> uint n" by simp
  then have "- (2 ^ 63) \<le> uint n" by (rule order_trans [rotated]) simp
  with hi have "signed_take_bit 63 (uint n) = uint n"
    by (simp only: signed_take_bit_int_eq_self_iff simp_thms)
  then show ?thesis by (simp add: sint_uint)
qed

lemma sint_size_negative:
  fixes n :: size_t
  assumes "2 ^ 63 \<le> unat n"
  shows "sint n < 0"
proof -
  from assms have "int (2 ^ 63) \<le> int (unat n)" by (simp only: of_nat_le_iff)
  then have u: "2 ^ 63 \<le> uint n" by simp
  have "sint n < 2 ^ 63" using sint_lt [of n] by simp
  with u have ne: "sint n \<noteq> uint n" by linarith
  have "sint n = take_bit 64 (uint n) - 2 ^ 64 * of_bool (bit (uint n) 63)"
    by (simp add: sint_uint signed_take_bit_eq_take_bit_minus)
  moreover have hi: "uint n < 2 ^ 64" using unsigned_less [of n, where ?'a = int] by simp
  then have "take_bit 64 (uint n) = uint n" by (simp add: take_bit_int_eq_self_iff)
  ultimately have s: "sint n = uint n - 2 ^ 64"
    using ne by (cases "bit (uint n) 63") simp_all
  with hi show ?thesis by linarith
qed

subsection \<open>One call of the kernel\<close>

lemma sys_send_Take:
  assumes "connected fd s" and "wsys s = Take k # w"
  shows "sys_send fd bs s = Ret (min k (length bs)) (put_bytes fd (take k bs) (s\<lparr>wsys := w\<rparr>))"
  using assms by (auto simp: connected_def sys_send_def put_bytes_def)

lemma sys_send_WrErr:
  assumes "connected fd s" and "wsys s = WrErr e # w"
  shows "sys_send fd bs s = Err e (s\<lparr>wsys := w\<rparr>)"
  using assms by (auto simp: connected_def sys_send_def)

lemma sys_send_Ret:
  assumes "sys_send fd bs s = Ret m s'"
  obtains w where "s' = put_bytes fd (take m bs) (s\<lparr>wsys := w\<rparr>)" "m \<le> length bs"
proof -
  from assms obtain d p k w where h: "fdt s fd = Some d" "fd_kind d = Sock (Some p)" "wsys s = Take k # w"
    by (auto simp: sys_send_def split: option.splits fkind.splits list.splits wr.splits if_splits)
  then have "connected fd s" by (simp add: connected_def)
  from sys_send_Take [OF this h(3)] assms
  have "m = min k (length bs)" "s' = put_bytes fd (take k bs) (s\<lparr>wsys := w\<rparr>)" by simp_all
  then show ?thesis using that [of w] by (cases "k \<le> length bs") simp_all
qed

lemma sys_send_Err:
  assumes "sys_send fd bs s = Err e s'"
  obtains w where "s' = s\<lparr>wsys := w\<rparr>"
proof -
  from assms have "s' = s \<or> (\<exists>w. s' = s\<lparr>wsys := w\<rparr>)"
    by (auto simp: sys_send_def split: option.splits fkind.splits list.splits wr.splits if_splits)
  then show ?thesis
  proof
    assume "s' = s"
    then have "s' = s\<lparr>wsys := wsys s\<rparr>" by simp
    then show ?thesis by (rule that)
  next
    assume "\<exists>w. s' = s\<lparr>wsys := w\<rparr>"
    then show ?thesis using that by blast
  qed
qed

lemma sys_read_Ret:
  assumes "sys_read fd n s = Ret b s'"
  obtains r where "s' = got_bytes fd (length b) (s\<lparr>rsys := r\<rparr>)"
    "b = take (length b) (pending fd s)" "length b \<le> n"
proof -
  from assms obtain d k r where h: "fdt s fd = Some d" "rsys s = Chunk k # r"
    and b: "b = take (min n (max 1 k)) (inp d)"
    and s': "s' = s\<lparr>rsys := r, fdt := (fdt s)(fd \<mapsto> d\<lparr>inp := drop (min n (max 1 k)) (inp d)\<rparr>)\<rparr>"
    by (auto simp: sys_read_def Let_def split: option.splits list.splits rd.splits if_splits)
  have "drop (min n (max 1 k)) (inp d) = drop (length b) (inp d)"
    by (simp add: b min_def)
  then have "s' = got_bytes fd (length b) (s\<lparr>rsys := r\<rparr>)"
    by (simp add: s' h got_bytes_def)
  moreover have "b = take (length b) (pending fd s)" by (simp add: b h pending_def min_def)
  moreover have "length b \<le> n" by (simp add: b)
  ultimately show ?thesis by (rule that)
qed

lemma sys_read_Err:
  assumes "sys_read fd n s = Err e s'"
  obtains r where "s' = s\<lparr>rsys := r\<rparr>"
proof -
  from assms have "s' = s \<or> (\<exists>r. s' = s\<lparr>rsys := r\<rparr>)"
    by (auto simp: sys_read_def Let_def split: option.splits list.splits rd.splits if_splits)
  then show ?thesis
  proof
    assume "s' = s"
    then have "s' = s\<lparr>rsys := rsys s\<rparr>" by simp
    then show ?thesis by (rule that)
  next
    assume "\<exists>r. s' = s\<lparr>rsys := r\<rparr>"
    then show ?thesis using that by blast
  qed
qed

lemma sys_read_Chunk:
  assumes "fdt s fd = Some d" and "rsys s = Chunk k # r" and "inp d \<noteq> []"
  shows "sys_read fd n s = Ret (take (min n (max 1 k)) (inp d)) (got_bytes fd (min n (max 1 k)) (s\<lparr>rsys := r\<rparr>))"
  using assms by (simp add: sys_read_def Let_def got_bytes_def)

subsection \<open>The write loop\<close>

lemma do_write_loop_stop:
  assumes "unat n < 2 ^ 63" and "unat n \<le> t"
  shows "do_write_loop fd buf n (int t) s = Ok () s"
proof -
  have "\<not> int t < sint n" using assms(2) sint_size [OF assms(1)] by linarith
  then show ?thesis by (subst do_write_loop.simps) simp
qed

lemma do_write_loop_short:
  assumes "unat n < 2 ^ 63" and "t < unat n" and "length buf < unat n"
  shows "do_write_loop fd buf n (int t) s = Fault"
proof -
  have "int t < sint n" using assms(2) sint_size [OF assms(1)] by linarith
  with assms(3) show ?thesis by (subst do_write_loop.simps) simp
qed

lemma do_write_loop_step:
  assumes "unat n < 2 ^ 63" and "t < unat n" and "\<not> length buf < unat n"
  shows "do_write_loop fd buf n (int t) s =
    (case sys_send fd (take (unat n - t) (drop t buf)) s of
       Wait \<Rightarrow> Blocked
     | Err e s' \<Rightarrow>
         (if e = EAGAIN \<or> e = EINTR then do_write_loop fd buf n (int t) s' else Fail s')
     | Ret out s' \<Rightarrow> do_write_loop fd buf n (int t + int out) s')"
proof -
  have "int t < sint n" using assms(2) sint_size [OF assms(1)] by linarith
  moreover have "unat (n - word_of_int (int t)) = unat n - t"
    using assms(2) by (intro remaining_size) simp
  ultimately show ?thesis
    using assms(3) by (subst do_write_loop.simps) simp
qed

text \<open>Every outcome of the loop: what it wrote is the buffer, or a proper prefix of it.\<close>

lemma do_write_loop_outcome:
  assumes "unat n < 2 ^ 63" and "t \<le> unat n"
  shows "case do_write_loop fd buf n (int t) s of
      Ok _ s' \<Rightarrow> \<exists>w. s' = put_bytes fd (take (unat n - t) (drop t buf)) (s\<lparr>wsys := w\<rparr>)
    | Fail s' \<Rightarrow> \<exists>w m. m < unat n - t \<and> s' = put_bytes fd (take m (drop t buf)) (s\<lparr>wsys := w\<rparr>)
    | Blocked \<Rightarrow> True
    | Fault \<Rightarrow> length buf < unat n
    | Exited _ \<Rightarrow> False"
  using assms(2)
proof (induction "length (wsys s)" arbitrary: s t rule: less_induct)
  case less
  note step = do_write_loop_step [OF assms(1)]
  show ?case
  proof (cases "t < unat n")
    case False
    then have le: "unat n \<le> t" by linarith
    with do_write_loop_stop [OF assms(1) le, of fd buf s] show ?thesis by (auto intro: exI [of _ "wsys s"])
  next
    case lt: True
    show ?thesis
    proof (cases "length buf < unat n")
      case True
      then show ?thesis by (simp add: do_write_loop_short [OF assms(1) lt])
    next
      case False
      let ?c = "take (unat n - t) (drop t buf)"
      show ?thesis
      proof (cases "sys_send fd ?c s")
        case Wait
        then show ?thesis by (simp add: step [OF lt False])
      next
        case (Err e s')
        then obtain w where s': "s' = s\<lparr>wsys := w\<rparr>" by (rule sys_send_Err)
        show ?thesis
        proof (cases "e = EAGAIN \<or> e = EINTR")
          case soft: True
          then have "do_write_loop fd buf n (int t) s = do_write_loop fd buf n (int t) s'"
            using Err by (simp add: step [OF lt False])
          moreover have "length (wsys s') < length (wsys s)"
            using sys_send_retry [OF Err soft] .
          ultimately show ?thesis
            using less.hyps [of s' t] less.prems s' by (auto split: res.splits)
        next
          case hard: False
          then have "do_write_loop fd buf n (int t) s = Fail s'"
            using Err by (simp add: step [OF lt False])
          moreover have "s' = put_bytes fd (take 0 (drop t buf)) (s\<lparr>wsys := w\<rparr>)" using s' by simp
          ultimately show ?thesis using lt by (auto intro!: exI [of _ w] exI [of _ 0])
        qed
      next
        case (Ret m s')
        then obtain w where s': "s' = put_bytes fd (take m ?c) (s\<lparr>wsys := w\<rparr>)" and m: "m \<le> length ?c"
          by (rule sys_send_Ret)
        from m have mn: "m \<le> unat n - t" "t + m \<le> unat n" using less.prems by auto
        have eq: "do_write_loop fd buf n (int t) s = do_write_loop fd buf n (int (t + m)) s'"
          using Ret by (simp add: step [OF lt False])
        have s'': "s' = put_bytes fd (take m (drop t buf)) (s\<lparr>wsys := w\<rparr>)"
          using s' mn by (simp add: min_def)
        have split: "take m (drop t buf) @ take k (drop (t + m) buf) = take (m + k) (drop t buf)" for k
          using take_add [of m k "drop t buf"] by (simp add: add.commute [of m t])
        have rest: "m + (unat n - (t + m)) = unat n - t" using mn by simp
        have "length (wsys s') < length (wsys s)" using sys_send_progress [OF Ret] .
        note IH = less.hyps [OF this mn(2)]
        show ?thesis
        proof (cases "do_write_loop fd buf n (int (t + m)) s'")
          case (Ok u s2)
          with IH obtain w2 where "s2 = put_bytes fd (take (unat n - (t + m)) (drop (t + m) buf)) (s'\<lparr>wsys := w2\<rparr>)"
            by auto
          then have "s2 = put_bytes fd (take (unat n - t) (drop t buf)) (s\<lparr>wsys := w2\<rparr>)"
            using s'' by (simp add: split rest)
          with eq Ok show ?thesis by auto
        next
          case (Fail s2)
          with IH obtain w2 k where "k < unat n - (t + m)"
            "s2 = put_bytes fd (take k (drop (t + m) buf)) (s'\<lparr>wsys := w2\<rparr>)" by auto
          then have "m + k < unat n - t" "s2 = put_bytes fd (take (m + k) (drop t buf)) (s\<lparr>wsys := w2\<rparr>)"
            using s'' by (simp_all add: split)
          with eq Fail show ?thesis by auto
        qed (use IH eq in simp_all)
      qed
    qed
  qed
qed

text \<open>With soft answers and enough of them the loop writes everything.\<close>

lemma do_write_loop_soft:
  assumes "unat n < 2 ^ 63" and "unat n \<le> length buf"
    and "t \<le> unat n" and "connected fd s" and "soft_w (wsys s)" and "k + (unat n - t) \<le> takes (wsys s)"
  shows "\<exists>w. do_write_loop fd buf n (int t) s = Ok () (put_bytes fd (take (unat n - t) (drop t buf)) (s\<lparr>wsys := w\<rparr>))
           \<and> soft_w w \<and> k \<le> takes w"
  using assms(3-)
proof (induction "wsys s" arbitrary: s t)
  case Nil
  then have "unat n \<le> t" by (cases "wsys s") auto
  from do_write_loop_stop [OF assms(1) this, of fd buf s] Nil \<open>unat n \<le> t\<close> show ?case
    by (intro exI [of _ "wsys s"]) simp
next
  case (Cons x w)
  have nb: "\<not> length buf < unat n" using assms(2) by simp
  show ?case
  proof (cases "t < unat n")
    case False
    then have le: "unat n \<le> t" by linarith
    with do_write_loop_stop [OF assms(1) le, of fd buf s] Cons.prems show ?thesis
      by (intro exI [of _ "wsys s"]) simp
  next
    case True
    let ?c = "take (unat n - t) (drop t buf)"
    show ?thesis
    proof (cases x)
      case (WrErr e)
      with Cons.hyps(2) Cons.prems have ws: "wsys s = WrErr e # w" and e: "e = EAGAIN \<or> e = EINTR"
        and sw: "soft_w w" "k + (unat n - t) \<le> takes w"
        by (metis soft_w_simps(2) soft_wr.simps(2), metis soft_w_simps(2) soft_wr.simps(2),
            metis soft_w_simps(2), metis takes.simps(3))
      have "do_write_loop fd buf n (int t) s = do_write_loop fd buf n (int t) (s\<lparr>wsys := w\<rparr>)"
        using e by (simp add: do_write_loop_step [OF assms(1) True nb] sys_send_WrErr [OF Cons.prems(2) ws])
      with Cons.hyps(1) [of "s\<lparr>wsys := w\<rparr>" t] Cons.prems(1,2) sw show ?thesis by auto
    next
      case (Take j)
      with Cons.hyps(2) have ws: "wsys s = Take j # w" by simp
      let ?m = "min j (unat n - t)"
      let ?s = "put_bytes fd (take ?m (drop t buf)) (s\<lparr>wsys := w\<rparr>)"
      have len: "length ?c = unat n - t" using assms(2) by simp
      have "sys_send fd ?c s = Ret ?m ?s"
        using sys_send_Take [OF Cons.prems(2) ws, of ?c] by (simp only: len take_take)
      then have eq: "do_write_loop fd buf n (int t) s = do_write_loop fd buf n (int (t + ?m)) ?s"
        by (simp add: do_write_loop_step [OF assms(1) True nb])
      have "k + (unat n - (t + ?m)) \<le> takes w"
        using Cons.prems(4) True ws by (cases "j = 0") auto
      moreover have "soft_w w" using Cons.prems(3) ws by simp
      moreover have "t + ?m \<le> unat n" using True by simp
      ultimately obtain w' where w': "do_write_loop fd buf n (int (t + ?m)) ?s
            = Ok () (put_bytes fd (take (unat n - (t + ?m)) (drop (t + ?m) buf)) (?s\<lparr>wsys := w'\<rparr>))"
          "soft_w w'" "k \<le> takes w'"
        using Cons.hyps(1) [of ?s "t + ?m"] Cons.prems(2) by auto
      have "take ?m (drop t buf) @ take (unat n - (t + ?m)) (drop (t + ?m) buf)
          = take (?m + (unat n - (t + ?m))) (drop t buf)"
        using take_add [of ?m "unat n - (t + ?m)" "drop t buf"] by (simp add: add.commute [of ?m t])
      also have "?m + (unat n - (t + ?m)) = unat n - t" using True by simp
      finally show ?thesis using eq w' by auto
    qed
  qed
qed

lemma sends_do_write:
  assumes "unat n < 2 ^ 63" and "unat n \<le> length buf"
  shows "sends (do_write fd buf n) fd (take (unat n) buf)"
  unfolding sends_def
proof (intro allI impI)
  fix s :: "'a sys_scheme" and k
  assume "connected fd s \<and> soft_w (wsys s) \<and> k + length (take (unat n) buf) \<le> takes (wsys s)"
  then have c: "connected fd s" "soft_w (wsys s)" "k + (unat n - 0) \<le> takes (wsys s)"
    using assms(2) by simp_all
  from do_write_loop_soft [OF assms le0 c]
  show "\<exists>w. do_write fd buf n s = Ok () (put_bytes fd (take (unat n) buf) (s\<lparr>wsys := w\<rparr>)) \<and> soft_w w \<and> k \<le> takes w"
    by (simp add: do_write_def)
qed

subsection \<open>The read loop\<close>

lemma do_read_loop_stop:
  assumes "unat n < 2 ^ 63" and "unat n \<le> t"
  shows "do_read_loop fd n (int t) buf s = Ok buf s"
proof -
  have "\<not> int t < sint n" using assms(2) sint_size [OF assms(1)] by linarith
  then show ?thesis by (subst do_read_loop.simps) simp
qed

lemma do_read_loop_step:
  assumes "unat n < 2 ^ 63" and "t < unat n"
  shows "do_read_loop fd n (int t) buf s =
    (case sys_read fd (unat n - t) s of
       Wait \<Rightarrow> Blocked
     | Err e s' \<Rightarrow>
         (if e = EAGAIN \<or> e = EINTR then do_read_loop fd n (int t) buf s' else Fail s')
     | Ret got s' \<Rightarrow>
         (if got = [] then Fail s'
          else do_read_loop fd n (int t + int (length got)) (buf @ got) s'))"
proof -
  have "int t < sint n" using assms(2) sint_size [OF assms(1)] by linarith
  moreover have "unat (n - word_of_int (int t)) = unat n - t"
    using assms(2) by (intro remaining_size) simp
  ultimately show ?thesis by (subst do_read_loop.simps) simp
qed

text \<open>Every outcome of the loop: it took the next bytes off the descriptor, all or some.\<close>

lemma do_read_loop_outcome:
  assumes "unat n < 2 ^ 63" and "t \<le> unat n"
  shows "case do_read_loop fd n (int t) buf s of
      Ok bs s' \<Rightarrow> bs = buf @ take (unat n - t) (pending fd s) \<and> unat n - t \<le> length (pending fd s)
        \<and> (\<exists>r. s' = got_bytes fd (unat n - t) (s\<lparr>rsys := r\<rparr>))
    | Fail s' \<Rightarrow> \<exists>r m. m < unat n - t \<and> s' = got_bytes fd m (s\<lparr>rsys := r\<rparr>)
    | Blocked \<Rightarrow> True
    | Fault \<Rightarrow> False
    | Exited _ \<Rightarrow> False"
  using assms(2)
proof (induction "length (rsys s)" arbitrary: s t buf rule: less_induct)
  case less
  note step = do_read_loop_step [OF assms(1)]
  show ?case
  proof (cases "t < unat n")
    case False
    then have le: "unat n \<le> t" by linarith
    with do_read_loop_stop [OF assms(1) le, of fd buf s] show ?thesis by (auto intro: exI [of _ "rsys s"])
  next
    case lt: True
    show ?thesis
    proof (cases "sys_read fd (unat n - t) s")
      case Wait
      then show ?thesis by (simp add: step [OF lt])
    next
      case (Err e s')
      then obtain r where s': "s' = s\<lparr>rsys := r\<rparr>" by (rule sys_read_Err)
      show ?thesis
      proof (cases "e = EAGAIN \<or> e = EINTR")
        case soft: True
        then have "do_read_loop fd n (int t) buf s = do_read_loop fd n (int t) buf s'"
          using Err by (simp add: step [OF lt])
        moreover have "length (rsys s') < length (rsys s)" using sys_read_retry [OF Err soft] .
        ultimately show ?thesis
          using less.hyps [of s' t buf] less.prems s' by (auto split: res.splits)
      next
        case hard: False
        then have "do_read_loop fd n (int t) buf s = Fail s'"
          using Err by (simp add: step [OF lt])
        moreover have "s' = got_bytes fd 0 (s\<lparr>rsys := r\<rparr>)" using s' by simp
        ultimately show ?thesis using lt by (auto intro!: exI [of _ r] exI [of _ 0])
      qed
    next
      case (Ret got s')
      then obtain r where s': "s' = got_bytes fd (length got) (s\<lparr>rsys := r\<rparr>)"
        and got: "got = take (length got) (pending fd s)" and m: "length got \<le> unat n - t"
        by (rule sys_read_Ret)
      show ?thesis
      proof (cases "got = []")
        case True
        then have "do_read_loop fd n (int t) buf s = Fail s'" using Ret by (simp add: step [OF lt])
        moreover have "s' = got_bytes fd 0 (s\<lparr>rsys := r\<rparr>)" using s' True by simp
        ultimately show ?thesis using lt by (auto intro!: exI [of _ r] exI [of _ 0])
      next
        case False
        let ?m = "length got"
        have mn: "t + ?m \<le> unat n" using m lt by simp
        have eq: "do_read_loop fd n (int t) buf s = do_read_loop fd n (int (t + ?m)) (buf @ got) s'"
          using Ret False by (simp add: step [OF lt])
        have "length (rsys s') < length (rsys s)" using sys_read_progress [OF Ret] .
        note IH = less.hyps [OF this mn, of "buf @ got"]
        have pend: "pending fd s' = drop ?m (pending fd s)" using s' by simp
        have rest: "unat n - t = ?m + (unat n - (t + ?m))" using mn by simp
        have lenp: "?m \<le> length (pending fd s)" using got by (metis length_take min.cobounded1)
        show ?thesis
        proof (cases "do_read_loop fd n (int (t + ?m)) (buf @ got) s'")
          case (Ok bs s2)
          with IH obtain r2 where *: "bs = (buf @ got) @ take (unat n - (t + ?m)) (pending fd s')"
            "unat n - (t + ?m) \<le> length (pending fd s')"
            "s2 = got_bytes fd (unat n - (t + ?m)) (s'\<lparr>rsys := r2\<rparr>)" by auto
          have "bs = buf @ take (unat n - t) (pending fd s)"
            using *(1) got by (metis append.assoc pend rest take_add)
          moreover have "unat n - t \<le> length (pending fd s)" using *(2) pend rest lenp by simp
          moreover have "s2 = got_bytes fd (unat n - t) (s\<lparr>rsys := r2\<rparr>)"
            using *(3) s' rest by simp
          ultimately show ?thesis using eq Ok by auto
        next
          case (Fail s2)
          with IH obtain r2 k where "k < unat n - (t + ?m)" "s2 = got_bytes fd k (s'\<lparr>rsys := r2\<rparr>)" by auto
          then have "?m + k < unat n - t" "s2 = got_bytes fd (?m + k) (s\<lparr>rsys := r2\<rparr>)"
            using s' by simp_all
          with eq Fail show ?thesis by auto
        qed (use IH eq in simp_all)
      qed
    qed
  qed
qed

lemma do_read_loop_soft:
  assumes "unat n < 2 ^ 63"
    and "t \<le> unat n" and "fdt s fd = Some d" and "unat n - t \<le> length (inp d)"
    and "soft_r (rsys s)" and "k + (unat n - t) \<le> chunks (rsys s)"
  shows "\<exists>r. do_read_loop fd n (int t) buf s
           = Ok (buf @ take (unat n - t) (inp d)) (got_bytes fd (unat n - t) (s\<lparr>rsys := r\<rparr>))
           \<and> soft_r r \<and> k \<le> chunks r"
  using assms(2-)
proof (induction "rsys s" arbitrary: s t d buf)
  case Nil
  then have "unat n \<le> t" by (cases "rsys s") auto
  from do_read_loop_stop [OF assms(1) this, of fd buf s] Nil \<open>unat n \<le> t\<close> show ?case
    by (intro exI [of _ "rsys s"]) simp
next
  case (Cons x r)
  show ?case
  proof (cases "t < unat n")
    case False
    then have le: "unat n \<le> t" by linarith
    with do_read_loop_stop [OF assms(1) le, of fd buf s] Cons.prems show ?thesis
      by (intro exI [of _ "rsys s"]) simp
  next
    case True
    show ?thesis
    proof (cases x)
      case (RdErr e)
      with Cons.hyps(2) have rs: "rsys s = RdErr e # r" by simp
      with Cons.prems have e: "e = EAGAIN \<or> e = EINTR"
        and sr: "soft_r r" "k + (unat n - t) \<le> chunks r" by simp_all
      have "do_read_loop fd n (int t) buf s = do_read_loop fd n (int t) buf (s\<lparr>rsys := r\<rparr>)"
        using e rs Cons.prems(2) by (simp add: do_read_loop_step [OF assms(1) True] sys_read_def)
      with Cons.hyps(1) [of "s\<lparr>rsys := r\<rparr>" t d buf] Cons.prems(1-3) sr show ?thesis by auto
    next
      case (Chunk j)
      with Cons.hyps(2) have rs: "rsys s = Chunk j # r" by simp
      define m where "m = min (unat n - t) (max 1 j)"
      have m: "0 < m" "m \<le> unat n - t" "t + m \<le> unat n" using True by (auto simp: m_def)
      let ?got = "take m (inp d)"
      let ?s = "got_bytes fd m (s\<lparr>rsys := r\<rparr>)"
      let ?d = "d\<lparr>inp := drop m (inp d)\<rparr>"
      have ne: "inp d \<noteq> []" using Cons.prems(3) True by auto
      have len: "length ?got = m" using Cons.prems(3) m(2) by simp
      have gne: "?got \<noteq> []" using ne m(1) by simp
      have "sys_read fd (unat n - t) s = Ret ?got ?s"
        using sys_read_Chunk [OF Cons.prems(2) rs ne, of "unat n - t"] by (simp only: m_def)
      then have eq: "do_read_loop fd n (int t) buf s = do_read_loop fd n (int (t + m)) (buf @ ?got) ?s"
        by (subst do_read_loop_step [OF assms(1) True]) (simp only: call.case gne if_False len of_nat_add)
      have sum: "m + (unat n - (t + m)) = unat n - t" using m by simp
      have "k + (unat n - (t + m)) \<le> chunks r"
        using Cons.prems(5) [unfolded rs chunks.simps] m(1) sum by linarith
      moreover have "unat n - t - m \<le> length (inp d) - m" by (rule diff_le_mono [OF Cons.prems(3)])
      ultimately have c: "t + m \<le> unat n" "fdt ?s fd = Some ?d" "unat n - (t + m) \<le> length (inp ?d)"
        "soft_r (rsys ?s)" "k + (unat n - (t + m)) \<le> chunks (rsys ?s)"
        using Cons.prems(2,4) rs m(3) by (simp_all add: fdt_got_bytes)
      have "r = rsys ?s" by simp
      from Cons.hyps(1) [OF this c, of "buf @ ?got"] obtain r' where
        r': "do_read_loop fd n (int (t + m)) (buf @ ?got) ?s
          = Ok ((buf @ ?got) @ take (unat n - (t + m)) (inp ?d)) (got_bytes fd (unat n - (t + m)) (?s\<lparr>rsys := r'\<rparr>))"
          "soft_r r'" "k \<le> chunks r'"
        by blast
      have "?got @ take (unat n - (t + m)) (inp ?d) = take (unat n - t) (inp d)"
        using take_add [of m "unat n - (t + m)" "inp d"] sum by simp
      then show ?thesis using eq r' sum by (intro exI [of _ r']) simp
    qed
  qed
qed

lemma parses_do_read:
  assumes "unat n < 2 ^ 63" and "length bs = unat n"
  shows "parses (do_read fd n) fd bs bs 0 0"
  unfolding parses_def
proof (intro allI impI)
  fix s :: "'a sys_scheme" and k d rest
  assume h: "fdt s fd = Some d \<and> inp d = bs @ rest \<and> soft_r (rsys s)
    \<and> k + length bs \<le> chunks (rsys s) \<and> 0 \<le> mem_max s"
  then have c: "fdt s fd = Some d" "unat n - 0 \<le> length (inp d)" "soft_r (rsys s)"
    "k + (unat n - 0) \<le> chunks (rsys s)" using assms(2) by simp_all
  from do_read_loop_soft [OF assms(1) le0 c, of "[]"] h assms(2)
  show "\<exists>r. do_read fd n s = Ok bs (got_bytes fd (length bs) (s\<lparr>rsys := r, live := live s + 0\<rparr>))
      \<and> soft_r r \<and> k \<le> chunks r"
    by (auto simp: do_read_def)
qed

section \<open>Readers and writers\<close>

text \<open>
  A writer hands the object's representation to \<open>do_write\<close>; a reader fills the object, and an
  object of an enumeration type may then hold any 32-bit value.
\<close>

definition voyeur_write_msg_type :: "int \<Rightarrow> voyeur_msg_type \<Rightarrow> (unit, 'z sys_scheme) io" where
  "voyeur_write_msg_type fd val = do_write fd (obj32 (msg_type_val val)) 4"

definition voyeur_read_msg_type :: "int \<Rightarrow> (u32, 'z sys_scheme) io" where
  "voyeur_read_msg_type fd = io_bind (do_read fd 4) (\<lambda>bs. io_ret (as32 bs))"

definition voyeur_write_event_type :: "int \<Rightarrow> voyeur_event_type \<Rightarrow> (unit, 'z sys_scheme) io" where
  "voyeur_write_event_type fd val = do_write fd (obj32 (event_type_val val)) 4"

definition voyeur_read_event_type :: "int \<Rightarrow> (u32, 'z sys_scheme) io" where
  "voyeur_read_event_type fd = io_bind (do_read fd 4) (\<lambda>bs. io_ret (as32 bs))"

definition voyeur_write_byte :: "int \<Rightarrow> byte \<Rightarrow> (unit, 'z sys_scheme) io" where
  "voyeur_write_byte fd val = do_write fd [val] 1"

definition voyeur_read_byte :: "int \<Rightarrow> (byte, 'z sys_scheme) io" where
  "voyeur_read_byte fd = io_bind (do_read fd 1) (\<lambda>bs. io_ret (hd bs))"

definition voyeur_write_int :: "int \<Rightarrow> cint \<Rightarrow> (unit, 'z sys_scheme) io" where
  "voyeur_write_int fd val = do_write fd (obj32 val) 4"

definition voyeur_read_int :: "int \<Rightarrow> (cint, 'z sys_scheme) io" where
  "voyeur_read_int fd = io_bind (do_read fd 4) (\<lambda>bs. io_ret (as32 bs))"

definition voyeur_write_size :: "int \<Rightarrow> size_t \<Rightarrow> (unit, 'z sys_scheme) io" where
  "voyeur_write_size fd val = do_write fd (obj64 val) 8"

definition voyeur_read_size :: "int \<Rightarrow> (size_t, 'z sys_scheme) io" where
  "voyeur_read_size fd = io_bind (do_read fd 8) (\<lambda>bs. io_ret (as64 bs))"

definition voyeur_write_pid :: "int \<Rightarrow> pid_t \<Rightarrow> (unit, 'z sys_scheme) io" where
  "voyeur_write_pid fd val = do_write fd (obj32 val) 4"

definition voyeur_read_pid :: "int \<Rightarrow> (pid_t, 'z sys_scheme) io" where
  "voyeur_read_pid fd = io_bind (do_read fd 4) (\<lambda>bs. io_ret (as32 bs))"

definition VOYEUR_MAX_STRLEN :: nat where
  "VOYEUR_MAX_STRLEN = 4096"

text \<open>
  \<open>val\<close> points to a string's characters and its null; a null pointer is sent as the empty string.
\<close>

definition voyeur_write_string :: "int \<Rightarrow> string option \<Rightarrow> size_t \<Rightarrow> (unit, 'z sys_scheme) io" where
  "voyeur_write_string fd val len =
     (let len = (case val of
                   None \<Rightarrow> 0
                 | Some cs \<Rightarrow> if len = 0 then word_of_nat (strnlen cs VOYEUR_MAX_STRLEN) else len);
          buf = (case val of None \<Rightarrow> [] | Some cs \<Rightarrow> str_bytes (cs @ [NUL]))
      in io_then (voyeur_write_size fd len) (do_write fd buf len))"

text \<open>
  \<open>do_read\<close> into an object of \<open>cap\<close> bytes: the kernel answers EFAULT for the null pointer
  (\<open>None\<close>), and a size beyond the object would overrun it.
\<close>

definition do_read_into :: "nat option \<Rightarrow> int \<Rightarrow> size_t \<Rightarrow> (byte list, 'z sys_scheme) io" where
  "do_read_into cap fd len =
     (if sint len \<le> 0 then io_ret []
      else (case cap of
              None \<Rightarrow> io_fail
            | Some c \<Rightarrow> if c < unat len then io_fault else do_read fd len))"

text \<open>
  The received bytes as the buffer holds them before its null. With \<open>maxlen\<close> 0 the buffer is
  allocated here, with the size computed in \<open>size_t\<close>; the final null is stored at index \<open>len\<close>.
\<close>

definition voyeur_read_string :: "int \<Rightarrow> size_t \<Rightarrow> (string, 'z sys_scheme) io" where
  "voyeur_read_string fd maxlen =
     io_bind (voyeur_read_size fd) (\<lambda>len.
     io_bind (if maxlen = 0 then
                io_bind (sys_malloc (unat (len + 1))) (\<lambda>ok.
                io_ret (if ok then Some (unat (len + 1)) else None))
              else if maxlen \<le> len then
                io_then SHOULD_NOT_REACH io_fail
              else io_ret (Some (unat maxlen))) (\<lambda>cap.
     io_bind (io_on_fail (do_read_into cap fd len)
                (io_then (io_when (maxlen = 0 \<and> cap \<noteq> None) sys_free) io_fail)) (\<lambda>bs.
     (case cap of
        None \<Rightarrow> io_fault
      | Some c \<Rightarrow> if unat len < c then io_ret (bytes_str bs) else io_fault))))"

section \<open>The codecs\<close>

lemma sends_obj:
  "sends (do_write fd (obj32 v) 4) fd (obj32 v)" "sends (do_write fd (obj64 w) 8) fd (obj64 w)"
  "sends (do_write fd [b] 1) fd [b]"
  using sends_do_write [of 4 "obj32 v" fd] sends_do_write [of 8 "obj64 w" fd]
    sends_do_write [of 1 "[b]" fd] by simp_all

lemma parses_obj:
  "parses (io_bind (do_read fd 4) (\<lambda>bs. io_ret (as32 bs))) fd (obj32 v) v 0 0"
  "parses (io_bind (do_read fd 8) (\<lambda>bs. io_ret (as64 bs))) fd (obj64 w) w 0 0"
  "parses (io_bind (do_read fd 1) (\<lambda>bs. io_ret (hd bs))) fd [b] b 0 0"
  using parses_bind_ret [OF parses_do_read [of 4 "obj32 v" fd], of as32]
    parses_bind_ret [OF parses_do_read [of 8 "obj64 w" fd], of as64]
    parses_bind_ret [OF parses_do_read [of 1 "[b]" fd], of hd] by simp_all

text \<open>A string on the wire is its length, at most \<open>VOYEUR_MAX_STRLEN\<close>, and that many characters.\<close>

definition str_sent :: "string option \<Rightarrow> string" where
  "str_sent val = (case val of None \<Rightarrow> [] | Some cs \<Rightarrow> take VOYEUR_MAX_STRLEN cs)"

definition enc_str :: "string option \<Rightarrow> byte list" where
  "enc_str val = obj64 (word_of_nat (length (str_sent val))) @ str_bytes (str_sent val)"

lemma str_sent_eq: "str_sent val = (case val of None \<Rightarrow> [] | Some cs \<Rightarrow> take 4096 cs)"
  unfolding str_sent_def VOYEUR_MAX_STRLEN_def ..

lemma length_str_sent: "length (str_sent val) \<le> 4096"
  by (simp add: str_sent_def VOYEUR_MAX_STRLEN_def split: option.split)

lemma unat_small: "n < 2 ^ 63 \<Longrightarrow> unat (word_of_nat n :: size_t) = n"
  by (simp add: unsigned_of_nat take_bit_nat_eq_self_iff)

lemma unat_str_sent: "unat (word_of_nat (length (str_sent val)) :: size_t) = length (str_sent val)"
  using length_str_sent [of val] by (intro unat_small) simp

lemma sends_write_string: "sends (voyeur_write_string fd val 0) fd (enc_str val)"
proof -
  let ?n = "word_of_nat (length (str_sent val)) :: size_t"
  let ?buf = "case val of None \<Rightarrow> [] | Some cs \<Rightarrow> str_bytes (cs @ [NUL])"
  have n: "?n = (case val of None \<Rightarrow> 0 | Some cs \<Rightarrow> word_of_nat (strnlen cs VOYEUR_MAX_STRLEN))"
    by (simp add: str_sent_def strnlen_def split: option.split)
  have eq: "voyeur_write_string fd val 0 = io_then (voyeur_write_size fd ?n) (do_write fd ?buf ?n)"
    unfolding n by (simp add: voyeur_write_string_def Let_def split: option.split)
  have len: "unat ?n < 2 ^ 63" "unat ?n \<le> length ?buf"
    using length_str_sent [of val] unat_str_sent [of val]
    by (auto simp: str_sent_def split: option.splits)
  have "take (unat ?n) ?buf = str_bytes (str_sent val)"
    unfolding unat_str_sent
    by (simp add: str_sent_def str_bytes_def take_map min_def split: option.split)
  with sends_do_write [OF len, of fd] have "sends (do_write fd ?buf ?n) fd (str_bytes (str_sent val))"
    by simp
  moreover have "sends (voyeur_write_size fd ?n) fd (obj64 ?n)"
    by (simp add: voyeur_write_size_def sends_obj)
  ultimately show ?thesis unfolding eq enc_str_def by (rule sends_then [rotated])
qed

lemma parses_malloc:
  fixes fd :: int
  shows "parses (io_bind (sys_malloc n) (\<lambda>ok. io_ret (if ok then Some n else None)) :: (nat option, 'z sys_scheme) io)
     fd [] (Some n) 1 n"
  unfolding parses_def
proof (intro allI impI)
  fix s :: "'z sys_scheme" and k d rest
  assume "fdt s fd = Some d \<and> inp d = [] @ rest \<and> soft_r (rsys s)
    \<and> k + length [] \<le> chunks (rsys s) \<and> n \<le> mem_max s"
  then show "\<exists>r. io_bind (sys_malloc n) (\<lambda>ok. io_ret (if ok then Some n else None)) s
      = Ok (Some n) (got_bytes fd (length []) (s\<lparr>rsys := r, live := live s + 1\<rparr>)) \<and> soft_r r \<and> k \<le> chunks r"
    by (intro exI [of _ "rsys s"]) (simp add: sys_malloc_def io_bind_def)
qed

lemma parses_read_into:
  assumes "length bs < 2 ^ 63"
  shows "parses (do_read_into (Some (Suc (length bs))) fd (word_of_nat (length bs))) fd bs bs 0 0"
proof (cases "bs = []")
  case True
  have "parses (io_ret []) fd [] [] 0 0" by (rule parses_ret)
  with True show ?thesis by (simp add: do_read_into_def)
next
  case False
  let ?n = "word_of_nat (length bs) :: size_t"
  have u: "unat ?n = length bs" using assms by (rule unat_small)
  with assms have "unat ?n < 2 ^ 63" by simp
  from sint_size [OF this] u False have "\<not> sint ?n \<le> 0" by simp
  moreover from parses_do_read [OF \<open>unat ?n < 2 ^ 63\<close>, of bs fd] u
  have "parses (do_read fd ?n) fd bs bs 0 0" by simp
  ultimately show ?thesis using u by (simp add: do_read_into_def)
qed

lemma parses_io_on_fail: "parses m fd bs v k a \<Longrightarrow> parses (io_on_fail m h) fd bs v k a"
  unfolding parses_def by (meson io_on_fail_Ok)

lemma parses_read_string:
  assumes "length bs < 2 ^ 63 - 1"
  shows "parses (voyeur_read_string fd 0) fd (obj64 (word_of_nat (length bs)) @ bs) (bytes_str bs) 1 (Suc (length bs))"
proof -
  let ?n = "word_of_nat (length bs) :: size_t"
  have u: "unat ?n = length bs" using assms by (intro unat_small) simp
  have "?n + 1 = word_of_nat (Suc (length bs))" by simp
  then have u1: "unat (?n + 1) = Suc (length bs)"
    using assms unat_small [of "Suc (length bs)"] by (simp add: add.commute)
  have "parses (voyeur_read_size fd) fd (obj64 ?n) ?n 0 0"
    unfolding voyeur_read_size_def by (rule parses_obj)
  moreover have "parses (io_bind (io_bind (sys_malloc (unat (?n + 1))) (\<lambda>ok.
        io_ret (if ok then Some (unat (?n + 1)) else None))) (\<lambda>cap.
      io_bind (io_on_fail (do_read_into cap fd ?n) (io_then (io_when (cap \<noteq> None) sys_free) io_fail)) (\<lambda>bs.
      (case cap of
         None \<Rightarrow> io_fault
       | Some c \<Rightarrow> if unat ?n < c then io_ret (bytes_str bs) else io_fault)))) fd
    ([] @ bs) (bytes_str bs) (1 + 0) (max (Suc (length bs)) 0)"
    unfolding u1
  proof (rule parses_bind)
    show "parses (io_bind (sys_malloc (Suc (length bs))) (\<lambda>ok. io_ret (if ok then Some (Suc (length bs)) else None)))
        fd [] (Some (Suc (length bs))) 1 (Suc (length bs))"
      by (rule parses_malloc)
    have "parses (io_on_fail (do_read_into (Some (Suc (length bs))) fd ?n)
        (io_then (io_when (Some (Suc (length bs)) \<noteq> None) sys_free) io_fail)) fd bs bs 0 0"
      by (rule parses_io_on_fail, rule parses_read_into) (use assms in simp)
    from parses_bind_ret [OF this, of bytes_str]
    show "parses (io_bind (io_on_fail (do_read_into (Some (Suc (length bs))) fd ?n)
        (io_then (io_when (Some (Suc (length bs)) \<noteq> None) sys_free) io_fail)) (\<lambda>bs'.
        (case Some (Suc (length bs)) of
           None \<Rightarrow> io_fault
         | Some c \<Rightarrow> if unat ?n < c then io_ret (bytes_str bs') else io_fault)))
        fd bs (bytes_str bs) 0 0"
      using u by simp
  qed
  ultimately have "parses (voyeur_read_string fd 0) fd (obj64 ?n @ ([] @ bs)) (bytes_str bs)
      (0 + (1 + 0)) (max 0 (max (Suc (length bs)) 0))"
    unfolding voyeur_read_string_def simp_thms if_True by (rule parses_bind)
  then show ?thesis by simp
qed

lemma parses_string: "parses (voyeur_read_string fd 0) fd (enc_str val) (str_sent val) 1 4097"
proof -
  have "length (str_bytes (str_sent val)) < 2 ^ 63 - 1" using length_str_sent [of val] by simp
  from parses_read_string [OF this, of fd] show ?thesis
    using length_str_sent [of val] unfolding enc_str_def by (auto intro: parses_mono)
qed

text \<open>Each pair of functions provides the interface.\<close>

interpretation msg_type_codec: wire_codec voyeur_write_msg_type voyeur_read_msg_type
    "\<lambda>v. obj32 (msg_type_val v)" msg_type_val 0 "\<lambda>_. 0"
  by unfold_locales (simp_all add: voyeur_write_msg_type_def voyeur_read_msg_type_def sends_obj parses_obj)

interpretation event_type_codec: wire_codec voyeur_write_event_type voyeur_read_event_type
    "\<lambda>v. obj32 (event_type_val v)" event_type_val 0 "\<lambda>_. 0"
  by unfold_locales (simp_all add: voyeur_write_event_type_def voyeur_read_event_type_def sends_obj parses_obj)

interpretation byte_codec: wire_codec voyeur_write_byte voyeur_read_byte "\<lambda>v. [v]" "\<lambda>v. v" 0 "\<lambda>_. 0"
  by unfold_locales (simp_all add: voyeur_write_byte_def voyeur_read_byte_def sends_obj parses_obj)

interpretation int_codec: wire_codec voyeur_write_int voyeur_read_int obj32 "\<lambda>v. v" 0 "\<lambda>_. 0"
  by unfold_locales (simp_all add: voyeur_write_int_def voyeur_read_int_def sends_obj parses_obj)

interpretation size_codec: wire_codec voyeur_write_size voyeur_read_size obj64 "\<lambda>v. v" 0 "\<lambda>_. 0"
  by unfold_locales (simp_all add: voyeur_write_size_def voyeur_read_size_def sends_obj parses_obj)

interpretation pid_codec: wire_codec voyeur_write_pid voyeur_read_pid obj32 "\<lambda>v. v" 0 "\<lambda>_. 0"
  by unfold_locales (simp_all add: voyeur_write_pid_def voyeur_read_pid_def sends_obj parses_obj)

interpretation string_codec: wire_codec "\<lambda>fd val. voyeur_write_string fd val 0" "\<lambda>fd. voyeur_read_string fd 0"
    enc_str str_sent 1 "\<lambda>_. 4097"
  by unfold_locales (rule sends_write_string, rule parses_string)

section \<open>End of file\<close>

text \<open>When the peer closes before everything was delivered, the loop reports an error.\<close>

lemma do_read_loop_eof:
  assumes "unat n < 2 ^ 63"
    and "fdt s fd = Some d" and "\<not> peer_open d" and "t + length (inp d) < unat n"
    and "soft_r (rsys s)" and "length (inp d) < chunks (rsys s)"
  shows "\<exists>r. do_read_loop fd n (int t) buf s = Fail (got_bytes fd (length (inp d)) (s\<lparr>rsys := r\<rparr>))"
  using assms(2-)
proof (induction "rsys s" arbitrary: s t d buf)
  case Nil
  then show ?case by (cases "rsys s") auto
next
  case (Cons x r)
  have lt: "t < unat n" using Cons.prems(3) by simp
  show ?case
  proof (cases x)
    case (RdErr e)
    with Cons.hyps(2) have rs: "rsys s = RdErr e # r" by simp
    with Cons.prems have e: "e = EAGAIN \<or> e = EINTR"
      and sr: "soft_r r" "length (inp d) < chunks r" by simp_all
    have "do_read_loop fd n (int t) buf s = do_read_loop fd n (int t) buf (s\<lparr>rsys := r\<rparr>)"
      using e rs Cons.prems(1) by (simp add: do_read_loop_step [OF assms(1) lt] sys_read_def)
    with Cons.hyps(1) [of "s\<lparr>rsys := r\<rparr>" d t buf] Cons.prems(1-3) sr show ?thesis by auto
  next
    case (Chunk j)
    with Cons.hyps(2) have rs: "rsys s = Chunk j # r" by simp
    show ?thesis
    proof (cases "inp d = []")
      case True
      have "sys_read fd (unat n - t) s = Ret [] (got_bytes fd 0 (s\<lparr>rsys := r\<rparr>))"
        using Cons.prems(1,2) rs True by (simp add: sys_read_def Let_def fun_upd_idem)
      then have "do_read_loop fd n (int t) buf s = Fail (got_bytes fd 0 (s\<lparr>rsys := r\<rparr>))"
        by (subst do_read_loop_step [OF assms(1) lt]) simp
      with True show ?thesis by (intro exI [of _ r]) simp
    next
      case False
      define m where "m = min (unat n - t) (max 1 j)"
      let ?got = "take m (inp d)"
      let ?s = "got_bytes fd m (s\<lparr>rsys := r\<rparr>)"
      let ?d = "d\<lparr>inp := drop m (inp d)\<rparr>"
      have pos: "0 < m" using lt by (auto simp: m_def)
      have gne: "?got \<noteq> []" using False pos by simp
      have "sys_read fd (unat n - t) s = Ret ?got ?s"
        using sys_read_Chunk [OF Cons.prems(1) rs False, of "unat n - t"] by (simp only: m_def)
      then have eq: "do_read_loop fd n (int t) buf s = do_read_loop fd n (int (t + length ?got)) (buf @ ?got) ?s"
        by (subst do_read_loop_step [OF assms(1) lt]) (simp only: call.case gne if_False of_nat_add)
      have "r = rsys ?s" by simp
      moreover have "fdt ?s fd = Some ?d" "\<not> peer_open ?d" "soft_r (rsys ?s)"
        "t + length ?got + length (inp ?d) < unat n"
        using Cons.prems(1-4) rs by (simp_all add: fdt_got_bytes)
      moreover have "length (inp ?d) < chunks (rsys ?s)"
        using Cons.prems(5) rs pos False by (cases "inp d") auto
      ultimately obtain r' where r': "do_read_loop fd n (int (t + length ?got)) (buf @ ?got) ?s
          = Fail (got_bytes fd (length (inp ?d)) (?s\<lparr>rsys := r'\<rparr>))"
        using Cons.hyps(1) by meson
      have "got_bytes fd (m + length (inp ?d)) s' = got_bytes fd (length (inp d)) s'"
        if "fdt s' fd = Some d" for s' :: "'a sys_scheme"
        using that by (cases "m \<le> length (inp d)") (simp_all add: got_bytes_def)
      with eq r' Cons.prems(1) show ?thesis by (intro exI [of _ r']) simp
    qed
  qed
qed

section \<open>Properties\<close>

text \<open>
  C27: a write loop either puts exactly the given bytes on the connection, or reports an error
  after a proper prefix of them, whatever the kernel answers; it never does anything else.
\<close>

theorem do_write_outcome:
  assumes "unat buf_size < 2 ^ 63" and "unat buf_size \<le> length buf"
  shows "case do_write fd buf buf_size s of
      Ok _ s' \<Rightarrow> \<exists>w. s' = put_bytes fd (take (unat buf_size) buf) (s\<lparr>wsys := w\<rparr>)
    | Fail s' \<Rightarrow> \<exists>w m. m < unat buf_size \<and> s' = put_bytes fd (take m buf) (s\<lparr>wsys := w\<rparr>)
    | Blocked \<Rightarrow> True
    | Fault \<Rightarrow> False
    | Exited _ \<Rightarrow> False"
  using do_write_loop_outcome [OF assms(1) le0, where fd = fd and buf = buf and s = s] assms(2)
  by (auto simp: do_write_def split: res.splits)

definition ex_sys :: sys where
  "ex_sys = \<lparr>fdt = [3 \<mapsto> \<lparr>fd_kind = Sock (Some ''/s''), sent = [], inp = [], peer_open = False\<rparr>],
     rsys = [], wsys = [Take 1, WrErr EINTR, Take 9], close_errs = [], closed = [], live = 0,
     mem_max = 65536, new_socks = [4], conn_sys = [False, True], rand = [7], slept = 0,
     build_os = Linux, debug = False\<rparr>"

theorem do_write_outcome_witness:
  "case do_write 3 [1, 2, 3] 3 ex_sys of
      Ok _ s' \<Rightarrow> \<exists>w. s' = put_bytes 3 (take (unat (3 :: size_t)) [1, 2, 3]) (ex_sys\<lparr>wsys := w\<rparr>)
    | Fail s' \<Rightarrow> \<exists>w m. m < unat (3 :: size_t) \<and> s' = put_bytes 3 (take m [1, 2, 3]) (ex_sys\<lparr>wsys := w\<rparr>)
    | Blocked \<Rightarrow> True
    | Fault \<Rightarrow> False
    | Exited _ \<Rightarrow> False"
  by (rule do_write_outcome) simp_all

text \<open>
  C28: a read loop either delivers exactly the next bytes of the connection, in order, or reports an
  error after consuming fewer; it never invents, skips or reorders bytes.
\<close>

theorem do_read_outcome:
  assumes "unat buf_size < 2 ^ 63"
  shows "case do_read fd buf_size s of
      Ok bs s' \<Rightarrow> bs = take (unat buf_size) (pending fd s) \<and> length bs = unat buf_size
        \<and> (\<exists>r. s' = got_bytes fd (unat buf_size) (s\<lparr>rsys := r\<rparr>))
    | Fail s' \<Rightarrow> \<exists>r m. m < unat buf_size \<and> s' = got_bytes fd m (s\<lparr>rsys := r\<rparr>)
    | Blocked \<Rightarrow> True
    | Fault \<Rightarrow> False
    | Exited _ \<Rightarrow> False"
  using do_read_loop_outcome [OF assms le0, where fd = fd and buf = "[]" and s = s]
  by (auto simp: do_read_def split: res.splits)

theorem do_read_outcome_witness:
  "case do_read 3 4 ex_sys of
      Ok bs s' \<Rightarrow> bs = take (unat (4 :: size_t)) (pending 3 ex_sys) \<and> length bs = unat (4 :: size_t)
        \<and> (\<exists>r. s' = got_bytes 3 (unat (4 :: size_t)) (ex_sys\<lparr>rsys := r\<rparr>))
    | Fail s' \<Rightarrow> \<exists>r m. m < unat (4 :: size_t) \<and> s' = got_bytes 3 m (ex_sys\<lparr>rsys := r\<rparr>)
    | Blocked \<Rightarrow> True
    | Fault \<Rightarrow> False
    | Exited _ \<Rightarrow> False"
  by (rule do_read_outcome) simp

text \<open>
  C29: a string survives the wire: the writer succeeds on a healthy connection, and a reader of those
  bytes gets the string, cut at 4096 characters, a null pointer becoming the empty string; nothing
  after it is consumed and one block is allocated.
\<close>

theorem string_round_trip:
  assumes "connected fd s" and "soft_w (wsys s)" and "4104 \<le> takes (wsys s)"
    and "fdt t fd' = Some d" and "inp d = enc_str val @ rest"
    and "soft_r (rsys t)" and "4104 \<le> chunks (rsys t)" and "4097 \<le> mem_max t"
  shows "\<exists>s' t'. voyeur_write_string fd val 0 s = Ok () s' \<and> written fd s' = written fd s @ enc_str val
    \<and> voyeur_read_string fd' 0 t = Ok (case val of None \<Rightarrow> [] | Some cs \<Rightarrow> take 4096 cs) t'
    \<and> pending fd' t' = rest \<and> live t' = live t + 1"
proof -
  have "length (enc_str val) \<le> 4104" using length_str_sent [of val] by (simp add: enc_str_def)
  then have "length (enc_str val) \<le> takes (wsys s)" "length (enc_str val) \<le> chunks (rsys t)"
    using assms(3,7) by simp_all
  from string_codec.round_trip [OF assms(1,2) this(1) assms(4-6) this(2) assms(8)]
  show ?thesis unfolding str_sent_eq .
qed

definition ex_desc :: "byte list \<Rightarrow> fdesc" where
  "ex_desc bs = \<lparr>fd_kind = Sock (Some []), sent = [], inp = bs, peer_open = False\<rparr>"

definition ex_in :: "byte list \<Rightarrow> sys" where
  "ex_in bs = ex_sys\<lparr>fdt := [5 \<mapsto> ex_desc bs],
     rsys := replicate 5000 (Chunk 7)\<rparr>"

definition ex_out :: sys where
  "ex_out = ex_sys\<lparr>wsys := replicate 5000 (Take 3)\<rparr>"

lemma ex_out_fields [simp]: "connected 3 ex_out" "wsys ex_out = replicate 5000 (Take 3)"
  by (simp_all add: ex_out_def ex_sys_def connected_def)

lemma ex_desc_fields [simp]: "inp (ex_desc bs) = bs" "peer_open (ex_desc bs) = False"
  by (simp_all add: ex_desc_def)

lemma ex_in_fields [simp]:
  "fdt (ex_in bs) 5 = Some (ex_desc bs)" "rsys (ex_in bs) = replicate 5000 (Chunk 7)"
  "mem_max (ex_in bs) = 65536"
  by (simp_all add: ex_in_def ex_sys_def)

lemma chunks_replicate [simp]: "chunks (replicate n (Chunk k)) = n"
  by (induction n) simp_all

lemma takes_replicate [simp]: "0 < k \<Longrightarrow> takes (replicate n (Take k)) = n"
  by (induction n) simp_all

lemma soft_replicate [simp]:
  "soft_r (replicate n (Chunk k))" "soft_w (replicate n (Take k))"
  by (simp_all add: soft_r_def soft_w_def list_all_iff)

theorem string_round_trip_witness:
  "\<exists>s' t'. voyeur_write_string 3 (Some ''/bin/sh'') 0 ex_out = Ok () s'
    \<and> written 3 s' = written 3 ex_out @ enc_str (Some ''/bin/sh'')
    \<and> voyeur_read_string 5 0 (ex_in (enc_str (Some ''/bin/sh'') @ [9])) = Ok (take 4096 ''/bin/sh'') t'
    \<and> pending 5 t' = [9] \<and> live t' = live (ex_in (enc_str (Some ''/bin/sh'') @ [9])) + 1"
  using string_round_trip [of 3 ex_out "ex_in (enc_str (Some ''/bin/sh'') @ [9])" 5
      "ex_desc (enc_str (Some ''/bin/sh'') @ [9])" "Some ''/bin/sh''" "[9]"]
  by (simp del: takes.simps chunks.simps)

text \<open>
  A truncated string is an error, and the reader frees what it allocated for it: when the peer
  closes in the middle of the announced characters, \<open>voyeur_read_string\<close> returns -1 and
  leaks nothing.
\<close>

lemma read_string_truncated:
  assumes "fdt s fd = Some d" and "\<not> peer_open d" and "inp d = obj64 len @ bs"
    and "length bs < unat len" and "unat len < 2 ^ 63 - 1"
    and "soft_r (rsys s)" and "length (inp d) < chunks (rsys s)" and "unat len < mem_max s"
  shows "\<exists>s'. voyeur_read_string fd 0 s = Fail s' \<and> live s' = live s \<and> pending fd s' = []"
proof -
  from parsesE [OF size_codec.get_parses assms(1,3,6), of "Suc (length bs)"] assms(3,7)
  obtain r where r: "voyeur_read_size fd s = Ok len (got_bytes fd 8 (s\<lparr>rsys := r\<rparr>))"
      "soft_r r" "Suc (length bs) \<le> chunks r" by auto
  have "uint len + 1 = int (unat len + 1)" by simp
  have len1: "unat (len + 1) = Suc (unat len)"
  proof -
    have "len + 1 = word_of_nat (Suc (unat len))" by simp
    with unat_small [of "Suc (unat len)"] assms(5) show ?thesis by (simp add: add.commute)
  qed
  let ?s = "(got_bytes fd 8 (s\<lparr>rsys := r\<rparr>))\<lparr>live := live s + 1\<rparr>"
  let ?d = "d\<lparr>inp := bs\<rparr>"
  have c: "fdt ?s fd = Some ?d" "\<not> peer_open ?d" "0 + length (inp ?d) < unat len"
    "soft_r (rsys ?s)" "length (inp ?d) < chunks (rsys ?s)"
    using assms(1-4) r by (simp_all add: fdt_got_bytes)
  have lt: "unat len < 2 ^ 63" using assms(5) by simp
  from do_read_loop_eof [OF lt c, of "[]"] obtain r' where
    eof: "do_read fd len ?s = Fail (got_bytes fd (length bs) (?s\<lparr>rsys := r'\<rparr>))"
    by (auto simp: do_read_def)
  have pos: "\<not> sint len \<le> 0" using sint_size [OF lt] assms(4) by linarith
  have "voyeur_read_string fd 0 s = Fail ((got_bytes fd (length bs) (?s\<lparr>rsys := r'\<rparr>))\<lparr>live := live s\<rparr>)"
    using r(1) assms(8) eof pos len1
    by (simp add: voyeur_read_string_def sys_malloc_def do_read_into_def io_bind_def io_on_fail_def
        io_then_def sys_free_def)
  moreover have "pending fd s = obj64 len @ bs" using assms(1,3) by (simp add: pending_def)
  ultimately show ?thesis by simp
qed

lemma read_string_truncated_example:
  "\<exists>s'. voyeur_read_string 5 0 (ex_in (obj64 100 @ [1, 2])) = Fail s'
     \<and> live s' = live (ex_in (obj64 100 @ [1, 2])) \<and> pending 5 s' = []"
  by (rule read_string_truncated [where d = "ex_desc (obj64 100 @ [1, 2])" and len = 100 and bs = "[1, 2]"])
    simp_all

text \<open>
  C33: a length of \<open>2 ^ 63\<close> or more, which the peer is free to send, is undefined behaviour
  of the reader: the signed comparison in \<open>do_read\<close> skips the read and reports success, and the
  terminating null is then stored outside any allocated buffer.
\<close>

theorem read_string_wild_length:
  assumes "fdt s fd = Some d" and "inp d = obj64 len @ rest" and "2 ^ 63 \<le> unat len"
    and "soft_r (rsys s)" and "8 \<le> chunks (rsys s)" and "mem_max s < 2 ^ 63"
  shows "voyeur_read_string fd 0 s = Fault"
proof -
  from parsesE [OF size_codec.get_parses assms(1,2,4), of 0] assms(5)
  obtain r where r: "voyeur_read_size fd s = Ok len (got_bytes fd 8 (s\<lparr>rsys := r\<rparr>))" by auto
  have neg: "sint len \<le> 0" using sint_size_negative [OF assms(3)] by simp
  have wrap: "unat (len + 1) \<le> unat len \<or> mem_max s < unat (len + 1)"
  proof (cases "len + 1 = 0")
    case True
    then show ?thesis by simp
  next
    case False
    then have "unat (len + 1) = Suc (unat len)" by (simp add: unatSuc add.commute)
    with assms(3,6) show ?thesis by simp
  qed
  show ?thesis using r neg wrap
    by (auto simp: voyeur_read_string_def sys_malloc_def do_read_into_def io_bind_def io_on_fail_def)
qed

theorem read_string_wild_length_witness:
  "voyeur_read_string 5 0 (ex_in (obj64 9223372036854775808 @ [])) = Fault"
  by (rule read_string_wild_length [where d = "ex_desc (obj64 9223372036854775808 @ [])" and len = 9223372036854775808 and rest = "[]"])
    simp_all

end
