(* ===== verification/Messages.thy ===== *)
theory Messages
  imports Net
begin

unbundle bit_operations_syntax

text \<open>
  The contract between the interposing libraries and the observer: the bytes of each message, as the
  section on event serialization of \<open>src/net.h\<close> and the two ends lay them out, and what the
  observer's callback is to see of an event. The interposers are proved to send these bytes and the
  handlers of \<open>src/event.c\<close> to turn them into these calls.
\<close>

datatype event =
    Exec_Event string "string list" "string list" "string option" "string option" pid_t pid_t
  | Exit_Event cint pid_t pid_t
  | Open_Event string cint cint cint "string option" pid_t
  | Close_Event cint cint pid_t

fun event_type :: "event \<Rightarrow> voyeur_event_type" where
  "event_type (Exec_Event _ _ _ _ _ _ _) = VOYEUR_EVENT_EXEC"
| "event_type (Exit_Event _ _ _) = VOYEUR_EVENT_EXIT"
| "event_type (Open_Event _ _ _ _ _ _) = VOYEUR_EVENT_OPEN"
| "event_type (Close_Event _ _ _) = VOYEUR_EVENT_CLOSE"

text \<open>An array of strings is its length as an \<open>int\<close> and the strings.\<close>

definition enc_strs :: "string list \<Rightarrow> byte list" where
  "enc_strs xs = obj32 (word_of_nat (length xs)) @ concat (map (\<lambda>x. enc_str (Some x)) xs)"

text \<open>The body of an event under the options of its type.\<close>

fun enc_event :: "u8 \<Rightarrow> event \<Rightarrow> byte list" where
  "enc_event opts (Exec_Event file argv envp path cwd pid ppid) =
     enc_str (Some file) @ enc_strs argv
     @ (if has_flag opts OBSERVE_EXEC_ENV then enc_strs envp else [])
     @ (if has_flag opts OBSERVE_EXEC_PATH then enc_str path else [])
     @ (if has_flag opts OBSERVE_EXEC_CWD then enc_str cwd else [])
     @ obj32 pid @ obj32 ppid"
| "enc_event opts (Exit_Event status pid ppid) = obj32 status @ obj32 pid @ obj32 ppid"
| "enc_event opts (Open_Event path oflag mode retval cwd pid) =
     enc_str (Some path) @ obj32 oflag @ obj32 mode @ obj32 retval
     @ (if has_flag opts OBSERVE_OPEN_CWD then enc_str cwd else []) @ obj32 pid"
| "enc_event opts (Close_Event fildes retval pid) = obj32 fildes @ obj32 retval @ obj32 pid"

text \<open>
  The arrays an \<open>int\<close> can count, with room for the null pointer at their end, and the largest
  block the observer allocates for an event.
\<close>

fun event_wf :: "event \<Rightarrow> bool" where
  "event_wf (Exec_Event file argv envp path cwd pid ppid) =
     (length argv + 1 < 2 ^ 31 \<and> length envp + 1 < 2 ^ 31)"
| "event_wf _ = True"

fun event_need :: "event \<Rightarrow> nat" where
  "event_need (Exec_Event file argv envp path cwd pid ppid) =
     max 4097 (8 * (max (length argv) (length envp) + 1))"
| "event_need _ = 4097"

text \<open>A whole message, and the message that ends a stream.\<close>

definition enc_msg :: "u8 \<Rightarrow> event \<Rightarrow> byte list" where
  "enc_msg opts ev =
     obj32 (msg_type_val VOYEUR_MSG_EVENT) @ obj32 (event_type_val (event_type ev)) @ enc_event opts ev"

definition enc_done :: "byte list" where
  "enc_done = obj32 (msg_type_val VOYEUR_MSG_DONE)"

lemma length_enc_done [simp]: "length enc_done = 4"
  by (simp add: enc_done_def)

section \<open>What a callback sees\<close>

datatype callback_args =
    ExecArgs string "string list" "string list option" "string option" "string option" pid_t pid_t
  | ExitArgs cint pid_t pid_t
  | OpenArgs string cint cint "string option" cint pid_t
  | CloseArgs cint cint pid_t

text \<open>A C string in a buffer ends at the first null.\<close>

definition c_view :: "string \<Rightarrow> string" where
  "c_view s = takeWhile (\<lambda>c. c \<noteq> NUL) s"

text \<open>A string as it arrives: cut to the maximal length, a null pointer as the empty string.\<close>

definition str_seen :: "string option \<Rightarrow> string" where
  "str_seen val = c_view (str_sent val)"

text \<open>\<open>mode_t\<close> has 16 bits on OS X.\<close>

definition mode_cast :: "platform \<Rightarrow> cint \<Rightarrow> cint" where
  "mode_cast p m = (case p of Linux \<Rightarrow> m | Apple \<Rightarrow> take_bit 16 m)"

fun event_args :: "platform \<Rightarrow> u8 \<Rightarrow> event \<Rightarrow> callback_args" where
  "event_args p opts (Exec_Event file argv envp path cwd pid ppid) =
     ExecArgs (str_seen (Some file)) (map (\<lambda>x. str_seen (Some x)) argv)
       (if has_flag opts OBSERVE_EXEC_ENV then Some (map (\<lambda>x. str_seen (Some x)) envp) else None)
       (if has_flag opts OBSERVE_EXEC_PATH then Some (str_seen path) else None)
       (if has_flag opts OBSERVE_EXEC_CWD then Some (str_seen cwd) else None)
       pid ppid"
| "event_args p opts (Exit_Event status pid ppid) = ExitArgs status pid ppid"
| "event_args p opts (Open_Event path oflag mode retval cwd pid) =
     OpenArgs (str_seen (Some path)) oflag (mode_cast p mode)
       (if has_flag opts OBSERVE_OPEN_CWD then Some (str_seen cwd) else None) retval pid"
| "event_args p opts (Close_Event fildes retval pid) = CloseArgs fildes retval pid"

lemma str_seen_short: "cstr s \<Longrightarrow> length s \<le> 4096 \<Longrightarrow> str_seen (Some s) = s"
  by (simp add: str_seen_def str_sent_eq c_view_def cstr_view)

lemma str_seen_null [simp]: "str_seen None = []"
  by (simp add: str_seen_def str_sent_eq c_view_def)

lemma enc_event_low5 [simp]: "enc_event (opts AND 0x1F) ev = enc_event opts ev"
  by (cases ev) simp_all

end
