(* ===== verification/Context.thy ===== *)
theory Context
  imports Messages
begin

text \<open>
  The observation context of \<open>src/event.h\<close>, with the four slots (options, callback, user data) that
  \<open>MAP_EVENTS\<close> generates, and the functions \<open>voyeur_observe_*\<close> of \<open>src/event.c\<close> that fill
  them. A callback is an opaque function pointer, \<open>None\<close> when null; user data is an opaque pointer.
  \<open>server_state\<close> is the state \<open>src/voyeur.c\<close> keeps for its listening socket; of \<open>env_buf\<close> only
  whether it is set.
\<close>

record server_state =
  server_sock :: int
  sun_path :: string
  env_buf :: bool

record voyeur_context =
  exec_opts :: u8
  exec_cb :: "nat option"
  exec_userdata :: nat
  exit_opts :: u8
  exit_cb :: "nat option"
  exit_userdata :: nat
  open_opts :: u8
  open_cb :: "nat option"
  open_userdata :: nat
  close_opts :: u8
  close_cb :: "nat option"
  close_userdata :: nat
  resource_path :: "string option"
  server_state :: "server_state option"

definition voyeur_observe_exec ::
  "'c voyeur_context_scheme \<Rightarrow> u8 \<Rightarrow> nat option \<Rightarrow> nat \<Rightarrow> 'c voyeur_context_scheme" where
  "voyeur_observe_exec ctx opts callback userdata =
     ctx\<lparr>exec_opts := opts, exec_cb := callback, exec_userdata := userdata\<rparr>"

definition voyeur_observe_exit ::
  "'c voyeur_context_scheme \<Rightarrow> u8 \<Rightarrow> nat option \<Rightarrow> nat \<Rightarrow> 'c voyeur_context_scheme" where
  "voyeur_observe_exit ctx opts callback userdata =
     ctx\<lparr>exit_opts := opts, exit_cb := callback, exit_userdata := userdata\<rparr>"

definition voyeur_observe_open ::
  "'c voyeur_context_scheme \<Rightarrow> u8 \<Rightarrow> nat option \<Rightarrow> nat \<Rightarrow> 'c voyeur_context_scheme" where
  "voyeur_observe_open ctx opts callback userdata =
     ctx\<lparr>open_opts := opts, open_cb := callback, open_userdata := userdata\<rparr>"

definition voyeur_observe_close ::
  "'c voyeur_context_scheme \<Rightarrow> u8 \<Rightarrow> nat option \<Rightarrow> nat \<Rightarrow> 'c voyeur_context_scheme" where
  "voyeur_observe_close ctx opts callback userdata =
     ctx\<lparr>close_opts := opts, close_cb := callback, close_userdata := userdata\<rparr>"

text \<open>\<open>context->e##_opts\<close>, \<open>context->e##_cb\<close> and \<open>context->e##_userdata\<close>.\<close>

fun event_opts :: "'c voyeur_context_scheme \<Rightarrow> voyeur_event_type \<Rightarrow> u8" where
  "event_opts ctx VOYEUR_EVENT_EXEC = exec_opts ctx"
| "event_opts ctx VOYEUR_EVENT_EXIT = exit_opts ctx"
| "event_opts ctx VOYEUR_EVENT_OPEN = open_opts ctx"
| "event_opts ctx VOYEUR_EVENT_CLOSE = close_opts ctx"

fun event_cb :: "'c voyeur_context_scheme \<Rightarrow> voyeur_event_type \<Rightarrow> nat option" where
  "event_cb ctx VOYEUR_EVENT_EXEC = exec_cb ctx"
| "event_cb ctx VOYEUR_EVENT_EXIT = exit_cb ctx"
| "event_cb ctx VOYEUR_EVENT_OPEN = open_cb ctx"
| "event_cb ctx VOYEUR_EVENT_CLOSE = close_cb ctx"

fun event_userdata :: "'c voyeur_context_scheme \<Rightarrow> voyeur_event_type \<Rightarrow> nat" where
  "event_userdata ctx VOYEUR_EVENT_EXEC = exec_userdata ctx"
| "event_userdata ctx VOYEUR_EVENT_EXIT = exit_userdata ctx"
| "event_userdata ctx VOYEUR_EVENT_OPEN = open_userdata ctx"
| "event_userdata ctx VOYEUR_EVENT_CLOSE = close_userdata ctx"

text \<open>The function of \<open>MAP_EVENTS\<close> that registers a callback for a type.\<close>

fun observe :: "voyeur_event_type \<Rightarrow>
  'c voyeur_context_scheme \<Rightarrow> u8 \<Rightarrow> nat option \<Rightarrow> nat \<Rightarrow> 'c voyeur_context_scheme" where
  "observe VOYEUR_EVENT_EXEC = voyeur_observe_exec"
| "observe VOYEUR_EVENT_EXIT = voyeur_observe_exit"
| "observe VOYEUR_EVENT_OPEN = voyeur_observe_open"
| "observe VOYEUR_EVENT_CLOSE = voyeur_observe_close"

lemmas observe_defs = voyeur_observe_exec_def voyeur_observe_exit_def voyeur_observe_open_def
  voyeur_observe_close_def

lemma observe_slots [simp]:
  "event_opts (observe E ctx opts cb ud) E' = (if E' = E then opts else event_opts ctx E')"
  "event_cb (observe E ctx opts cb ud) E' = (if E' = E then cb else event_cb ctx E')"
  "event_userdata (observe E ctx opts cb ud) E' = (if E' = E then ud else event_userdata ctx E')"
  "resource_path (observe E ctx opts cb ud) = resource_path ctx"
  "server_state (observe E ctx opts cb ud) = server_state ctx"
  by (cases E; cases E'; simp add: observe_defs)+

lemma exec_cb_None [simp]: "exec_cb ctx = None \<Longrightarrow> ctx\<lparr>exec_cb := None\<rparr> = ctx"
  by (cases ctx) simp

end
