(* ===== verification/Connect.thy ===== *)
theory Connect
  imports Net
begin

text \<open>
  The rest of the client's side of \<open>src/net.c\<close>: connecting to the observer's socket, with its
  bounded retries, and closing a descriptor.
\<close>

section \<open>Closing and connecting\<close>

function voyeur_close_socket :: "int \<Rightarrow> (unit, 'z sys_scheme) io" where
  "voyeur_close_socket fd s =
     (case sys_close fd s of
        Ret _ s' \<Rightarrow> Ok () s'
      | Err e s' \<Rightarrow> if e \<noteq> EINTR then Ok () s' else voyeur_close_socket fd s'
      | Wait \<Rightarrow> Blocked)"
  by pat_completeness auto
termination
  by (relation "measure (\<lambda>(fd, s). length (close_errs s))") (auto dest: sys_close_retry)

declare voyeur_close_socket.simps [simp del]

definition CONNECT_RETRIES :: nat where "CONNECT_RETRIES = 20"
definition CONNECT_WAIT_MS :: nat where "CONNECT_WAIT_MS = 50"
definition CONNECT_DEVIATION_MS :: nat where "CONNECT_DEVIATION_MS = 20"

lemmas connect_consts = CONNECT_RETRIES_def CONNECT_WAIT_MS_def CONNECT_DEVIATION_MS_def

text \<open>\<open>sizeof(sun_path)\<close> of the two platforms.\<close>

definition sun_path_size :: "platform \<Rightarrow> nat" where
  "sun_path_size p = (case p of Linux \<Rightarrow> 108 | Apple \<Rightarrow> 104)"

text \<open>The loop after a failed \<open>connect\<close>; \<open>try\<close> counts the attempts made before the last.\<close>

function connect_retry :: "int \<Rightarrow> string \<Rightarrow> nat \<Rightarrow> (unit, 'z sys_scheme) io" where
  "connect_retry fd path n =
     (if n + 1 < CONNECT_RETRIES then
        io_bind (sys_random CONNECT_DEVIATION_MS) (\<lambda>r.
        io_then (sys_usleep (((CONNECT_WAIT_MS - CONNECT_DEVIATION_MS div 2) + r) * 1000))
        (io_bind (sys_connect fd path) (\<lambda>ok.
         if ok then io_ret () else connect_retry fd path (n + 1))))
      else io_ret ())"
  by pat_completeness auto
termination
  by (relation "measure (\<lambda>(fd, path, n). CONNECT_RETRIES - n)") auto

declare connect_retry.simps [simp del]

text \<open>
  The result is the descriptor, whether or not a connection was made; a null path is undefined
  behaviour in \<open>strlcpy\<close>.
\<close>

definition voyeur_create_client_socket :: "string option \<Rightarrow> (int, 'z sys_scheme) io" where
  "voyeur_create_client_socket sockpath = (case sockpath of
       None \<Rightarrow> io_fault
     | Some p \<Rightarrow>
         io_bind (io_get build_os) (\<lambda>plat.
         let sun_path = strlcpy p (sun_path_size plat) in
         io_bind sys_socket (\<lambda>client_sock.
         io_bind (sys_connect client_sock sun_path) (\<lambda>ok.
         io_then (if ok then io_ret () else connect_retry client_sock sun_path 0)
           (io_ret client_sock)))))"

section \<open>Closing\<close>

text \<open>The state after descriptors were closed, as far as the calls succeed.\<close>

definition close_fd :: "int \<Rightarrow> 'z sys_scheme \<Rightarrow> 'z sys_scheme" where
  "close_fd fd s = s\<lparr>fdt := (fdt s)(fd := None), closed := closed s @ [(fd, written fd s)]\<rparr>"

lemma close_socket_quiet [simp]:
  "close_errs s = [] \<Longrightarrow> voyeur_close_socket fd s = Ok () (close_fd fd s)"
  by (cases "fdt s fd")
    (simp_all add: voyeur_close_socket.simps [of fd s] sys_close_def close_fd_def fun_upd_idem)

lemma close_fd_fields [simp]:
  "fdt (close_fd fd s) = (fdt s)(fd := None)" "closed (close_fd fd s) = closed s @ [(fd, written fd s)]"
  "close_errs (close_fd fd s) = close_errs s" "rsys (close_fd fd s) = rsys s"
  "wsys (close_fd fd s) = wsys s" "live (close_fd fd s) = live s" "mem_max (close_fd fd s) = mem_max s"
  by (simp_all add: close_fd_def)

text \<open>Whatever the kernel answers, the call returns and no other descriptor is touched.\<close>

lemma close_socket_effect:
  "\<exists>es cl f. voyeur_close_socket fd s = Ok () (s\<lparr>close_errs := es, closed := cl, fdt := f\<rparr>)
     \<and> (\<forall>g. g \<noteq> fd \<longrightarrow> f g = fdt s g)"
proof (induction "close_errs s" arbitrary: s)
  case Nil
  then have "voyeur_close_socket fd s = Ok () (close_fd fd s)" by simp
  moreover have "close_fd fd s = s\<lparr>close_errs := close_errs s, closed := closed s @ [(fd, written fd s)], fdt := (fdt s)(fd := None)\<rparr>"
    by (simp add: close_fd_def)
  ultimately show ?case by (metis fun_upd_other)
next
  case (Cons e es)
  let ?s = "s\<lparr>closed := closed s @ [(fd, written fd s)], close_errs := es\<rparr>"
  from Cons.hyps(2) have c: "sys_close fd s = Err e ?s" by (simp add: sys_close_def flip: Cons.hyps(2))
  show ?case
  proof (cases "e = EINTR")
    case True
    from c True have "voyeur_close_socket fd s = voyeur_close_socket fd ?s"
      by (simp add: voyeur_close_socket.simps [of fd s])
    moreover obtain es' cl f where "voyeur_close_socket fd ?s = Ok () (?s\<lparr>close_errs := es', closed := cl, fdt := f\<rparr>)"
      "\<forall>g. g \<noteq> fd \<longrightarrow> f g = fdt s g"
      using Cons.hyps(1) [of ?s] by auto
    ultimately show ?thesis by auto
  next
    case False
    with c have "voyeur_close_socket fd s = Ok () ?s" by (simp add: voyeur_close_socket.simps [of fd s])
    moreover have "?s = s\<lparr>close_errs := es, closed := closed s @ [(fd, written fd s)], fdt := fdt s\<rparr>" by simp
    ultimately show ?thesis by metis
  qed
qed

text \<open>
  \<open>voyeur_close_socket\<close> always returns; it retries exactly while the kernel reports EINTR, so
  with only such interruptions the descriptor ends up closed, after one call more than there were
  interruptions, and no other descriptor is touched.
\<close>

lemma close_socket_retries:
  assumes "close_errs s = replicate k EINTR @ es" and "es = [] \<or> hd es \<noteq> EINTR"
  shows "voyeur_close_socket fd s = Ok ()
    (s\<lparr>close_errs := tl es, closed := closed s @ replicate (Suc k) (fd, written fd s),
       fdt := (if es = [] then (fdt s)(fd := None) else fdt s)\<rparr>)"
  using assms
proof (induction k arbitrary: s)
  case 0
  show ?case
  proof (cases es)
    case Nil
    with 0 have q: "close_errs s = []" by simp
    have "close_fd fd s = s\<lparr>close_errs := [], closed := closed s @ [(fd, written fd s)], fdt := (fdt s)(fd := None)\<rparr>"
      by (simp add: close_fd_def flip: q)
    with close_socket_quiet [OF q] Nil show ?thesis by (simp add: fun_upd_def)
  next
    case (Cons e es')
    with 0 show ?thesis by (auto simp: voyeur_close_socket.simps [of fd s] sys_close_def)
  qed
next
  case (Suc k)
  let ?s = "s\<lparr>closed := closed s @ [(fd, written fd s)], close_errs := replicate k EINTR @ es\<rparr>"
  have "voyeur_close_socket fd s = voyeur_close_socket fd ?s"
    using Suc.prems by (simp add: voyeur_close_socket.simps [of fd s] sys_close_def)
  with Suc.IH [of ?s] Suc.prems(2) show ?case by simp
qed

lemma close_socket_retries_example:
  "voyeur_close_socket 3 (ex_sys\<lparr>close_errs := [EINTR, EINTR]\<rparr>) = Ok ()
    (ex_sys\<lparr>close_errs := [], closed := [(3, []), (3, []), (3, [])], fdt := (fdt ex_sys)(3 := None)\<rparr>)"
  using close_socket_retries [of "ex_sys\<lparr>close_errs := [EINTR, EINTR]\<rparr>" 2 "[]" 3]
  by (simp add: numeral_2_eq_2 ex_sys_def written_def)

section \<open>Connecting\<close>

lemma sys_connect_open:
  assumes "fdt s fd = Some d"
  shows "sys_connect fd path s =
    (if conn_sys s \<noteq> [] \<and> hd (conn_sys s)
     then Ok True (s\<lparr>conn_sys := tl (conn_sys s), fdt := (fdt s)(fd \<mapsto> d\<lparr>fd_kind := Sock (Some path)\<rparr>)\<rparr>)
     else Ok False (s\<lparr>conn_sys := tl (conn_sys s)\<rparr>))"
  using assms by (cases "conn_sys s") (auto simp: sys_connect_def)

text \<open>
  What a run of connection attempts leaves behind: a connection exactly if one of them succeeded,
  and a bounded time asleep.
\<close>

definition connect_done :: "int \<Rightarrow> string \<Rightarrow> nat \<Rightarrow> 'z sys_scheme \<Rightarrow> 'z sys_scheme \<Rightarrow> bool" where
  "connect_done fd path k s s' \<longleftrightarrow>
     (\<exists>cs rs us d. fdt s fd = Some d \<and> us \<le> k * 59000 \<and>
       s' = s\<lparr>conn_sys := cs, rand := rs, slept := slept s + us,
         fdt := (if True \<in> set (take k (conn_sys s))
                 then (fdt s)(fd \<mapsto> d\<lparr>fd_kind := Sock (Some path)\<rparr>) else fdt s)\<rparr>)"

lemma set_take_Suc_tl:
  "True \<in> set (take (Suc k) cs) \<longleftrightarrow> (cs \<noteq> [] \<and> hd cs) \<or> True \<in> set (take k (tl cs))"
  by (cases cs) auto

lemma connect_retry_done:
  assumes "n + k = CONNECT_RETRIES - 1" and "fdt s fd = Some d"
  shows "\<exists>s'. connect_retry fd path n s = Ok () s' \<and> connect_done fd path k s s'"
  using assms
proof (induction k arbitrary: n s)
  case 0
  then have "\<not> n + 1 < CONNECT_RETRIES" by (simp add: CONNECT_RETRIES_def)
  then have "connect_retry fd path n s = Ok () s" by (subst connect_retry.simps) simp
  moreover have "connect_done fd path 0 s s"
    unfolding connect_done_def
    by (rule exI [of _ "conn_sys s"], rule exI [of _ "rand s"], rule exI [of _ 0], rule exI [of _ d])
      (use 0 in simp)
  ultimately show ?case by blast
next
  case (Suc k)
  then have lt: "n + 1 < CONNECT_RETRIES" by (simp add: CONNECT_RETRIES_def)
  obtain r rs where r: "sys_random CONNECT_DEVIATION_MS s = Ok r (s\<lparr>rand := rs\<rparr>)" and r19: "r < 20"
  proof (cases "rand s")
    case Nil
    then have "sys_random CONNECT_DEVIATION_MS s = Ok 0 (s\<lparr>rand := rand s\<rparr>)"
      by (simp add: sys_random_def)
    then show ?thesis by (rule that) simp
  next
    case (Cons x xs)
    then show ?thesis
      using that [of "x mod CONNECT_DEVIATION_MS" xs] by (simp add: sys_random_def connect_consts)
  qed
  define us where "us = (40 + r) * 1000"
  have us: "us \<le> 59000" using r19 by (simp add: us_def)
  let ?s = "s\<lparr>rand := rs, slept := slept s + us\<rparr>"
  have d: "fdt ?s fd = Some d" using Suc.prems(2) by simp
  have step: "connect_retry fd path n s =
      io_bind (sys_connect fd path) (\<lambda>ok. if ok then io_ret () else connect_retry fd path (n + 1)) ?s"
    using lt r unfolding connect_retry.simps [of fd path n]
    by (simp add: sys_usleep_def connect_consts us_def)
  show ?case
  proof (cases "conn_sys s \<noteq> [] \<and> hd (conn_sys s)")
    case True
    let ?s' = "?s\<lparr>conn_sys := tl (conn_sys s), fdt := (fdt s)(fd \<mapsto> d\<lparr>fd_kind := Sock (Some path)\<rparr>)\<rparr>"
    have "connect_retry fd path n s = Ok () ?s'"
      using True unfolding step by (simp add: sys_connect_open [OF d])
    moreover have "connect_done fd path (Suc k) s ?s'"
      unfolding connect_done_def set_take_Suc_tl
      by (rule exI [of _ "tl (conn_sys s)"], rule exI [of _ rs], rule exI [of _ us], rule exI [of _ d])
        (use True us Suc.prems(2) in simp)
    ultimately show ?thesis by blast
  next
    case False
    let ?s1 = "?s\<lparr>conn_sys := tl (conn_sys s)\<rparr>"
    have "sys_connect fd path ?s = Ok False ?s1" using sys_connect_open [OF d, of path] False by auto
    then have eq: "connect_retry fd path n s = connect_retry fd path (n + 1) ?s1"
      unfolding step by (simp add: io_bind_def)
    have "(n + 1) + k = CONNECT_RETRIES - 1" "fdt ?s1 fd = Some d" using Suc.prems by simp_all
    from Suc.IH [OF this] obtain s' where s': "connect_retry fd path (n + 1) ?s1 = Ok () s'"
      "connect_done fd path k ?s1 s'" by blast
    then obtain cs rs' us' where *: "us' \<le> k * 59000"
      "s' = ?s1\<lparr>conn_sys := cs, rand := rs', slept := slept ?s1 + us',
         fdt := (if True \<in> set (take k (conn_sys ?s1))
                 then (fdt ?s1)(fd \<mapsto> d\<lparr>fd_kind := Sock (Some path)\<rparr>) else fdt ?s1)\<rparr>"
      using Suc.prems(2) unfolding connect_done_def by auto
    have "connect_done fd path (Suc k) s s'"
      unfolding connect_done_def set_take_Suc_tl
      by (rule exI [of _ cs], rule exI [of _ rs'], rule exI [of _ "us + us'"], rule exI [of _ d])
        (use False us Suc.prems(2) * in \<open>auto simp: add.assoc\<close>)
    with eq s' show ?thesis by auto
  qed
qed

text \<open>Whatever happens, a connection attempt touches its own descriptor and the connection scripts only.\<close>

lemma sys_connect_effect:
  "\<exists>ok cs f. sys_connect fd path s = Ok ok (s\<lparr>conn_sys := cs, fdt := f\<rparr>) \<and> (\<forall>g. g \<noteq> fd \<longrightarrow> f g = fdt s g)"
proof (cases "fdt s fd")
  case None
  then have "sys_connect fd path s = Ok False (s\<lparr>conn_sys := conn_sys s, fdt := fdt s\<rparr>)"
    by (simp add: sys_connect_def)
  then show ?thesis by blast
next
  case (Some d)
  show ?thesis
  proof (cases "conn_sys s \<noteq> [] \<and> hd (conn_sys s)")
    case True
    with sys_connect_open [OF Some, of path] show ?thesis by fastforce
  next
    case False
    with sys_connect_open [OF Some, of path]
    have "sys_connect fd path s = Ok False (s\<lparr>conn_sys := tl (conn_sys s), fdt := fdt s\<rparr>)" by simp
    then show ?thesis by blast
  qed
qed

lemma sys_random_effect: "\<exists>r rs. sys_random n s = Ok r (s\<lparr>rand := rs\<rparr>)"
proof (cases "rand s")
  case Nil
  then have "sys_random n s = Ok 0 (s\<lparr>rand := rand s\<rparr>)" by (simp add: sys_random_def)
  then show ?thesis by blast
qed (auto simp: sys_random_def)

definition connect_effect :: "int \<Rightarrow> 'z sys_scheme \<Rightarrow> 'z sys_scheme \<Rightarrow> bool" where
  "connect_effect fd s s' \<longleftrightarrow> (\<exists>ns cs rs us f.
     s' = s\<lparr>new_socks := ns, conn_sys := cs, rand := rs, slept := us, fdt := f\<rparr>
     \<and> (\<forall>g. g \<noteq> fd \<longrightarrow> f g = fdt s g))"

lemma connect_effectI:
  "(\<And>g. g \<noteq> fd \<Longrightarrow> f g = fdt s g) \<Longrightarrow>
   connect_effect fd s (s\<lparr>new_socks := ns, conn_sys := cs, rand := rs, slept := us, fdt := f\<rparr>)"
  unfolding connect_effect_def by blast

lemma connect_effect_refl: "connect_effect fd s s"
  using connect_effectI [where f = "fdt s" and fd = fd and s = s and ns = "new_socks s"
      and cs = "conn_sys s" and rs = "rand s" and us = "slept s"] by simp

lemma connect_effect_trans:
  assumes "connect_effect fd s t" and "connect_effect fd t u"
  shows "connect_effect fd s u"
proof -
  from assms(1) obtain ns cs rs us f where
    t: "t = s\<lparr>new_socks := ns, conn_sys := cs, rand := rs, slept := us, fdt := f\<rparr>"
      "\<And>g. g \<noteq> fd \<Longrightarrow> f g = fdt s g" unfolding connect_effect_def by blast
  from assms(2) obtain ns' cs' rs' us' f' where
    u: "u = t\<lparr>new_socks := ns', conn_sys := cs', rand := rs', slept := us', fdt := f'\<rparr>"
      "\<And>g. g \<noteq> fd \<Longrightarrow> f' g = fdt t g" unfolding connect_effect_def by blast
  from t u have "u = s\<lparr>new_socks := ns', conn_sys := cs', rand := rs', slept := us', fdt := f'\<rparr>" by simp
  moreover from t u have "\<And>g. g \<noteq> fd \<Longrightarrow> f' g = fdt s g" by simp
  ultimately show ?thesis by (simp add: connect_effectI)
qed

lemma sys_connect_frame: "\<exists>ok t. sys_connect fd path s = Ok ok t \<and> connect_effect fd s t"
proof -
  obtain ok cs f where c: "sys_connect fd path s = Ok ok (s\<lparr>conn_sys := cs, fdt := f\<rparr>)"
    "\<And>g. g \<noteq> fd \<Longrightarrow> f g = fdt s g" using sys_connect_effect [of fd path s] by blast
  from connect_effectI [OF c(2), where ns = "new_socks s" and cs = cs and rs = "rand s" and us = "slept s"] c(1)
  show ?thesis by auto
qed

lemma connect_retry_effect: "\<exists>t. connect_retry fd path n s = Ok () t \<and> connect_effect fd s t"
proof (induction "CONNECT_RETRIES - n" arbitrary: n s)
  case 0
  then have "connect_retry fd path n s = Ok () s" by (subst connect_retry.simps) simp
  with connect_effect_refl show ?case by blast
next
  case (Suc k)
  show ?case
  proof (cases "n + 1 < CONNECT_RETRIES")
    case False
    then have "connect_retry fd path n s = Ok () s" by (subst connect_retry.simps) simp
    with connect_effect_refl show ?thesis by blast
  next
    case True
    obtain r rs where r: "sys_random CONNECT_DEVIATION_MS s = Ok r (s\<lparr>rand := rs\<rparr>)"
      using sys_random_effect by blast
    let ?us = "slept s + ((CONNECT_WAIT_MS - CONNECT_DEVIATION_MS div 2) + r) * 1000"
    let ?s = "s\<lparr>rand := rs, slept := ?us\<rparr>"
    have e1: "connect_effect fd s ?s"
      using connect_effectI [where f = "fdt s" and fd = fd and s = s and ns = "new_socks s"
          and cs = "conn_sys s" and rs = rs and us = ?us] by simp
    obtain ok t where c: "sys_connect fd path ?s = Ok ok t" "connect_effect fd ?s t"
      using sys_connect_frame by blast
    have e2: "connect_effect fd s t" using e1 c(2) by (rule connect_effect_trans)
    have step: "connect_retry fd path n s = (if ok then Ok () t else connect_retry fd path (n + 1) t)"
      using True r c(1) unfolding connect_retry.simps [of fd path n] by (simp add: sys_usleep_def)
    have "k = CONNECT_RETRIES - (n + 1)" using Suc.hyps(2) by simp
    from Suc.hyps(1) [OF this, of t] obtain u where
      "connect_retry fd path (n + 1) t = Ok () u" "connect_effect fd t u" by blast
    then show ?thesis using step e2 by (cases ok) (auto intro: connect_effect_trans)
  qed
qed

text \<open>Connecting always returns, and leaves everything else alone.\<close>

lemma client_socket_effect:
  "\<exists>fd t. voyeur_create_client_socket (Some path) s = Ok fd t \<and> connect_effect fd s t
     \<and> (fd < 0 \<or> fd \<in> set (new_socks s))"
proof -
  let ?p = "strlcpy path (sun_path_size (build_os s))"
  have "\<exists>fd t. sys_socket s = Ok fd t \<and> connect_effect fd s t \<and> (fd < 0 \<or> fd \<in> set (new_socks s))"
  proof (cases "new_socks s")
    case Nil
    then show ?thesis using connect_effect_refl by (auto simp: sys_socket_def)
  next
    case (Cons fd fds)
    let ?f = "if fd < 0 then fdt s else (fdt s)(fd \<mapsto> \<lparr>fd_kind = Sock None, sent = [], inp = [], peer_open = False\<rparr>)"
    have "sys_socket s = Ok fd (s\<lparr>new_socks := fds, conn_sys := conn_sys s, rand := rand s, slept := slept s, fdt := ?f\<rparr>)"
      using Cons by (simp add: sys_socket_def)
    moreover have "connect_effect fd s (s\<lparr>new_socks := fds, conn_sys := conn_sys s, rand := rand s, slept := slept s, fdt := ?f\<rparr>)"
      by (rule connect_effectI) simp
    moreover have "fd \<in> set (new_socks s)" using Cons by simp
    ultimately show ?thesis by blast
  qed
  then obtain fd t where t: "sys_socket s = Ok fd t" "connect_effect fd s t" "fd < 0 \<or> fd \<in> set (new_socks s)"
    by blast
  obtain ok u where u: "sys_connect fd ?p t = Ok ok u" "connect_effect fd t u"
    using sys_connect_frame by blast
  obtain v where v: "connect_retry fd ?p 0 u = Ok () v" "connect_effect fd u v"
    using connect_retry_effect by blast
  have "voyeur_create_client_socket (Some path) s = Ok fd (if ok then u else v)"
    using t(1) u(1) v(1) by (simp add: voyeur_create_client_socket_def Let_def)
  moreover have "connect_effect fd s (if ok then u else v)"
    using t(2) u(2) v(2) by (auto intro: connect_effect_trans)
  ultimately show ?thesis using t(3) by blast
qed

lemma client_socket_run:
  assumes "new_socks s = fd # fds" and "0 \<le> fd"
  shows "\<exists>s'. voyeur_create_client_socket (Some path) s = Ok fd s'
    \<and> (connected fd s' \<longleftrightarrow> True \<in> set (take 20 (conn_sys s)))
    \<and> (\<forall>d p. fdt s' fd = Some d \<and> fd_kind d = Sock (Some p) \<longrightarrow>
          p = take (if build_os s = Linux then 107 else 103) path \<and> sent d = [])
    \<and> slept s' \<le> slept s + 19 * 59000"
proof -
  let ?p = "strlcpy path (sun_path_size (build_os s))"
  let ?d = "\<lparr>fd_kind = Sock None, sent = [], inp = [], peer_open = False\<rparr>"
  let ?s = "s\<lparr>new_socks := fds, fdt := (fdt s)(fd \<mapsto> ?d)\<rparr>"
  have p: "?p = take (if build_os s = Linux then 107 else 103) path"
    by (cases "build_os s") (simp_all add: strlcpy_def sun_path_size_def)
  have d: "fdt ?s fd = Some ?d" by simp
  have sock: "sys_socket s = Ok fd ?s" using assms by (simp add: sys_socket_def)
  have eq: "voyeur_create_client_socket (Some path) s =
      io_bind (sys_connect fd ?p) (\<lambda>ok.
        io_then (if ok then io_ret () else connect_retry fd ?p 0) (io_ret fd)) ?s"
    by (simp add: voyeur_create_client_socket_def sock Let_def)
  show ?thesis
  proof (cases "conn_sys s \<noteq> [] \<and> hd (conn_sys s)")
    case True
    let ?s' = "?s\<lparr>conn_sys := tl (conn_sys s), fdt := (fdt ?s)(fd \<mapsto> ?d\<lparr>fd_kind := Sock (Some ?p)\<rparr>)\<rparr>"
    have "voyeur_create_client_socket (Some path) s = Ok fd ?s'"
      using True unfolding eq by (simp add: sys_connect_open [OF d])
    moreover have "True \<in> set (take 20 (conn_sys s))" using True by (cases "conn_sys s") auto
    ultimately show ?thesis using p by (intro exI [of _ ?s']) (simp add: connected_def)
  next
    case False
    let ?s1 = "?s\<lparr>conn_sys := tl (conn_sys s)\<rparr>"
    have "0 + 19 = CONNECT_RETRIES - 1" "fdt ?s1 fd = Some ?d" by (simp_all add: CONNECT_RETRIES_def)
    from connect_retry_done [OF this, of ?p] obtain s' where
      s': "connect_retry fd ?p 0 ?s1 = Ok () s'" "connect_done fd ?p 19 ?s1 s'" by blast
    have c: "sys_connect fd ?p ?s = Ok False ?s1" using sys_connect_open [OF d, of ?p] False by auto
    have "voyeur_create_client_socket (Some path) s = Ok fd s'"
      unfolding eq by (simp add: io_bind_def [of "sys_connect fd ?p"] c s'(1))
    moreover have "True \<in> set (take 20 (conn_sys s)) \<longleftrightarrow> True \<in> set (take 19 (tl (conn_sys s)))"
      using False set_take_Suc_tl [of 19 "conn_sys s"] by auto
    ultimately show ?thesis
      using s'(2) p by (intro exI [of _ s']) (auto simp: connect_done_def connected_def split: if_splits)
  qed
qed

text \<open>A connection that one of the attempts makes.\<close>

lemma client_socket_connects:
  assumes "new_socks s = fd # fds" and "0 \<le> fd" and "True \<in> set (take 20 (conn_sys s))"
  obtains t where "voyeur_create_client_socket (Some path) s = Ok fd t" "connect_effect fd s t"
    "connected fd t" "written fd t = []"
proof -
  from client_socket_run [OF assms(1,2), of path] obtain t where
    t: "voyeur_create_client_socket (Some path) s = Ok fd t" "connected fd t"
      "\<forall>d p. fdt t fd = Some d \<and> fd_kind d = Sock (Some p) \<longrightarrow>
          p = take (if build_os s = Linux then 107 else 103) path \<and> sent d = []"
    using assms(3) by blast
  moreover have "connect_effect fd s t" using client_socket_effect [of path s] t(1) by auto
  moreover have "written fd t = []" using t(2,3) by (auto simp: connected_def written_def)
  ultimately show ?thesis using that by blast
qed

text \<open>
  C30: the client tries to connect at most 20 times and sleeps at most 19 times 59 milliseconds.
  It returns the descriptor whether or not an attempt succeeded, so a caller that tests the result
  for being negative does not notice that the observer is gone.
\<close>

theorem client_socket_bounded:
  assumes "new_socks s = fd # fds" and "0 \<le> fd"
  shows "\<exists>s'. voyeur_create_client_socket (Some path) s = Ok fd s'
    \<and> (connected fd s' \<longleftrightarrow> True \<in> set (take 20 (conn_sys s)))
    \<and> (\<forall>d p. fdt s' fd = Some d \<and> fd_kind d = Sock (Some p) \<longrightarrow>
          p = take (if build_os s = Linux then 107 else 103) path \<and> sent d = [])
    \<and> slept s' \<le> slept s + 19 * 59000"
  using assms by (rule client_socket_run)

theorem client_socket_bounded_witness:
  "\<exists>s'. voyeur_create_client_socket (Some ''/tmp/s'') ex_sys = Ok 4 s' \<and> connected 4 s'
    \<and> slept s' \<le> 19 * 59000"
proof -
  have "new_socks ex_sys = [4]" "(0 :: int) \<le> 4" by (simp_all add: ex_sys_def)
  from client_socket_bounded [OF this, of "''/tmp/s''"] show ?thesis
    by (auto simp: ex_sys_def)
qed

end
