(* ===== verification/Frame.thy ===== *)
theory Frame
  imports Connect
begin

text \<open>
  What a routine leaves alone, whatever it reads and whatever the kernel answers. A frame is a
  reflexive and transitive relation between the states before and after; the routines of
  \<open>src/net.c\<close> are shown once to stay in every frame that a single kernel call stays in, and the
  frames of the development are instances.
\<close>

text \<open>The state that a call leaves behind, if it comes to an end.\<close>

fun res_state :: "('a, 's) res \<Rightarrow> 's option" where
  "res_state (Ok _ s) = Some s"
| "res_state (Fail s) = Some s"
| "res_state (Exited s) = Some s"
| "res_state Blocked = None"
| "res_state Fault = None"

definition keeps :: "('s \<Rightarrow> 's \<Rightarrow> bool) \<Rightarrow> ('a, 's) io \<Rightarrow> bool" where
  "keeps R m \<longleftrightarrow> (\<forall>s s'. res_state (m s) = Some s' \<longrightarrow> R s s')"

lemma keepsI: "(\<And>s s'. res_state (m s) = Some s' \<Longrightarrow> R s s') \<Longrightarrow> keeps R m"
  by (simp add: keeps_def)

lemma keepsD: "keeps R m \<Longrightarrow> res_state (m s) = Some s' \<Longrightarrow> R s s'"
  by (simp add: keeps_def)

locale io_frame =
  fixes R :: "'s \<Rightarrow> 's \<Rightarrow> bool"
  assumes R_refl: "R s s"
    and R_trans: "R s t \<Longrightarrow> R t u \<Longrightarrow> R s u"
begin

lemma keeps_Ok: "keeps R (io_ret v)"
  by (simp add: keeps_def R_refl)

lemma keeps_Fail: "keeps R io_fail"
  by (simp add: keeps_def R_refl)

lemma keeps_fault: "keeps R io_fault"
  by (simp add: keeps_def)

lemma keeps_get: "keeps R (io_get f)"
  by (simp add: keeps_def R_refl)

lemma keeps_bind:
  assumes "keeps R m" and "\<And>v. keeps R (f v)"
  shows "keeps R (io_bind m f)"
proof (rule keepsI)
  fix s s'
  assume h: "res_state (io_bind m f s) = Some s'"
  show "R s s'"
  proof (cases "m s")
    case (Ok v t)
    with assms(1) have "R s t" by (auto intro: keepsD)
    moreover from h Ok have "res_state (f v t) = Some s'" by simp
    with assms(2) have "R t s'" by (rule keepsD)
    ultimately show ?thesis by (rule R_trans)
  qed (use h keepsD [OF assms(1), of s s'] in \<open>simp_all add: io_bind_def\<close>)
qed

lemma keeps_then: "keeps R m \<Longrightarrow> keeps R m' \<Longrightarrow> keeps R (io_then m m')"
  unfolding io_then_def by (rule keeps_bind)

lemma keeps_ignore: "keeps R m \<Longrightarrow> keeps R (io_ignore m)"
  by (rule keepsI) (auto simp: io_ignore_def split: res.splits intro: keepsD)

lemma keeps_on_fail:
  assumes "keeps R m" and "keeps R h"
  shows "keeps R (io_on_fail m h)"
proof (rule keepsI)
  fix s s'
  assume k: "res_state (io_on_fail m h s) = Some s'"
  show "R s s'"
  proof (cases "m s")
    case (Fail t)
    with assms(1) have "R s t" by (auto intro: keepsD)
    moreover from k Fail have "res_state (h t) = Some s'" by simp
    with assms(2) have "R t s'" by (rule keepsD)
    ultimately show ?thesis by (rule R_trans)
  qed (use k keepsD [OF assms(1), of s s'] in \<open>simp_all add: io_on_fail_def\<close>)
qed

lemma keeps_RETURN:
  assumes "keeps R m" and "\<And>v. keeps R (f v)"
  shows "keeps R (RETURN_ON_FAIL m f)"
proof (rule keepsI)
  fix s s'
  assume "res_state (RETURN_ON_FAIL m f s) = Some s'"
  then have "res_state (io_bind m f s) = Some s'"
    by (cases "m s") (simp_all add: RETURN_ON_FAIL_def io_bind_def)
  with keeps_bind [OF assms] show "R s s'" by (rule keepsD)
qed

lemma keeps_when: "keeps R m \<Longrightarrow> keeps R (io_when b m)"
  by (cases b) (simp_all add: keeps_Ok)

lemma keeps_each: "(\<And>x. keeps R (f x)) \<Longrightarrow> keeps R (io_each f xs)"
  by (induction xs) (simp_all add: keeps_Ok keeps_then)

lemma keeps_repeat: "keeps R m \<Longrightarrow> keeps R (io_repeat n m)"
  by (induction n) (simp_all add: keeps_Ok keeps_bind)

lemmas keeps_rules = keeps_Ok keeps_Fail keeps_fault keeps_get keeps_bind keeps_then keeps_RETURN keeps_ignore
  keeps_on_fail keeps_when keeps_each keeps_repeat

end

text \<open>Frames that a read from one descriptor, and the allocations around it, stay in.\<close>

locale reader_frame = io_frame R for R :: "'z sys_scheme \<Rightarrow> 'z sys_scheme \<Rightarrow> bool" +
  fixes fd :: int
  assumes R_got: "R s (got_bytes fd n (s\<lparr>rsys := r\<rparr>))"
    and R_live: "R s (s\<lparr>live := l\<rparr>)"
begin

lemma keeps_do_read: "keeps R (do_read fd n)"
proof (cases "unat n < 2 ^ 63")
  case True
  show ?thesis
  proof (rule keepsI)
    fix s s' :: "'z sys_scheme"
    assume "res_state (do_read fd n s) = Some s'"
    then show "R s s'"
      using do_read_loop_outcome [OF True le0, where fd = fd and buf = "[]" and s = s] R_got
      by (auto simp: do_read_def split: res.splits)
  qed
next
  case False
  then have "sint n < 0" by (intro sint_size_negative) simp
  then have eq: "do_read fd n = io_ret []"
    by (intro ext) (simp add: do_read_def do_read_loop.simps [of fd n 0])
  show ?thesis unfolding eq by (rule keeps_Ok)
qed

lemma keeps_malloc: "keeps R (sys_malloc n)"
  using R_live by (auto simp: keeps_def sys_malloc_def R_refl)

lemma keeps_free: "keeps R sys_free"
  using R_live by (simp add: keeps_def sys_free_def)

lemma keeps_read_int: "keeps R (voyeur_read_int fd)"
  unfolding voyeur_read_int_def by (intro keeps_rules keeps_do_read)

lemma keeps_read_pid: "keeps R (voyeur_read_pid fd)"
  unfolding voyeur_read_pid_def by (intro keeps_rules keeps_do_read)

lemma keeps_read_types: "keeps R (voyeur_read_msg_type fd)" "keeps R (voyeur_read_event_type fd)"
  unfolding voyeur_read_msg_type_def voyeur_read_event_type_def by (intro keeps_rules keeps_do_read)+

lemma keeps_read_string: "keeps R (voyeur_read_string fd 0)"
proof -
  have "keeps R (do_read_into cap fd len)" for cap len
    by (cases cap) (auto simp: do_read_into_def keeps_Ok keeps_Fail keeps_fault keeps_do_read)
  moreover have "keeps R (voyeur_read_size fd)"
    unfolding voyeur_read_size_def by (intro keeps_rules keeps_do_read)
  moreover have "keeps R (case cap of None \<Rightarrow> io_fault
      | Some c \<Rightarrow> if unat len < c then io_ret (bytes_str bs) else io_fault)" for cap len bs
    by (cases cap) (auto simp: keeps_Ok keeps_fault)
  ultimately show ?thesis
    unfolding voyeur_read_string_def
    by (intro keeps_rules) (auto intro!: keeps_rules keeps_malloc keeps_free)
qed

end

text \<open>Reading from a descriptor touches no other descriptor, closes none and writes nothing.\<close>

definition only_reads :: "int \<Rightarrow> 'z sys_scheme \<Rightarrow> 'z sys_scheme \<Rightarrow> bool" where
  "only_reads fd s s' \<longleftrightarrow> closed s' = closed s \<and> close_errs s' = close_errs s
     \<and> dom (fdt s') = dom (fdt s)
     \<and> (\<forall>fd'. fd' \<noteq> fd \<longrightarrow> fdt s' fd' = fdt s fd') \<and> written fd s' = written fd s
     \<and> wsys s' = wsys s \<and> mem_max s' = mem_max s"

interpretation only_reads: reader_frame "only_reads fd" fd
  by unfold_locales
    (auto simp: only_reads_def got_bytes_def written_def split: option.splits)

end
