(* ===== verification/Handlers.thy ===== *)
theory Handlers
  imports Context Frame
begin

text \<open>
  The event handlers of \<open>src/event.c\<close>: each reads the body of one event from a descriptor and calls
  the registered callback. A handler returns nothing, so an error while reading ends it silently.
\<close>

section \<open>The observer's state\<close>

text \<open>A call of a callback: the function pointer, the arguments, and the user data.\<close>

datatype call = Call nat callback_args nat

record observer = sys +
  calls :: "call list"

definition invoke :: "nat option \<Rightarrow> callback_args \<Rightarrow> nat \<Rightarrow> (unit, 'z observer_scheme) io" where
  "invoke cb args userdata s = (case cb of
       None \<Rightarrow> Ok () s
     | Some f \<Rightarrow> Ok () (s\<lparr>calls := calls s @ [Call f args userdata]\<rparr>))"

section \<open>The handlers\<close>

text \<open>
  The allocation and the loop that both \<open>argv\<close> and \<open>envp\<close> are read with. The number of bytes is
  \<open>sizeof(char*) * (n + 1)\<close>, where the sum is an \<open>int\<close>'s; storing into the array is undefined when
  the allocation failed, and so is storing the final null at a negative index.
\<close>

definition read_string_array :: "int \<Rightarrow> cint \<Rightarrow> (string list, 'z sys_scheme) io" where
  "read_string_array fd n =
     (if sint n = 2 ^ 31 - 1 then io_fault
      else
        io_bind (sys_malloc (unat (8 * (scast (n + 1) :: size_t)))) (\<lambda>ok.
        io_bind (io_repeat (nat (sint n))
                  (io_bind (voyeur_read_string fd 0) (\<lambda>arg.
                   if ok then io_ret arg else io_fault))) (\<lambda>xs.
        if ok \<and> 0 \<le> sint n then io_ret xs else io_fault)))"

text \<open>A read that is only done under an option, and leaves a null pointer otherwise.\<close>

definition read_if :: "bool \<Rightarrow> ('a, 's) io \<Rightarrow> ('a option, 's) io" where
  "read_if b m = (if b then io_bind m (\<lambda>x. io_ret (Some x)) else io_ret None)"

definition free_strings :: "string list \<Rightarrow> (unit, 'z sys_scheme) io" where
  "free_strings xs = io_then (io_each (\<lambda>_. sys_free) xs) sys_free"

definition handle_exec :: "'c voyeur_context_scheme \<Rightarrow> int \<Rightarrow> (unit, 'z observer_scheme) io" where
  "handle_exec ctx fd =
     RETURN_ON_FAIL (voyeur_read_string fd 0) (\<lambda>file.
     RETURN_ON_FAIL (voyeur_read_int fd) (\<lambda>argc.
     RETURN_ON_FAIL (read_string_array fd argc) (\<lambda>argv.
     RETURN_ON_FAIL (read_if (has_flag (exec_opts ctx) OBSERVE_EXEC_ENV)
         (io_bind (voyeur_read_int fd) (read_string_array fd))) (\<lambda>envp.
     RETURN_ON_FAIL (read_if (has_flag (exec_opts ctx) OBSERVE_EXEC_PATH) (voyeur_read_string fd 0)) (\<lambda>path.
     RETURN_ON_FAIL (read_if (has_flag (exec_opts ctx) OBSERVE_EXEC_CWD) (voyeur_read_string fd 0)) (\<lambda>cwd.
     RETURN_ON_FAIL (voyeur_read_pid fd) (\<lambda>pid.
     RETURN_ON_FAIL (voyeur_read_pid fd) (\<lambda>ppid.
     io_then (invoke (exec_cb ctx)
        (ExecArgs (c_view file) (map c_view argv) (map_option (map c_view) envp)
           (map_option c_view path) (map_option c_view cwd) pid ppid) (exec_userdata ctx))
     (io_then sys_free
     (io_then (free_strings argv)
     (io_then (case envp of None \<Rightarrow> io_ret () | Some es \<Rightarrow> free_strings es)
     (io_then (io_when (path \<noteq> None) sys_free)
              (io_when (cwd \<noteq> None) sys_free)))))))))))))"

definition handle_exit :: "'c voyeur_context_scheme \<Rightarrow> int \<Rightarrow> (unit, 'z observer_scheme) io" where
  "handle_exit ctx fd =
     RETURN_ON_FAIL (voyeur_read_int fd) (\<lambda>status.
     RETURN_ON_FAIL (voyeur_read_pid fd) (\<lambda>pid.
     RETURN_ON_FAIL (voyeur_read_pid fd) (\<lambda>ppid.
     invoke (exit_cb ctx) (ExitArgs status pid ppid) (exit_userdata ctx))))"

text \<open>\<open>cwd\<close> is not freed.\<close>

definition handle_open :: "'c voyeur_context_scheme \<Rightarrow> int \<Rightarrow> (unit, 'z observer_scheme) io" where
  "handle_open ctx fd =
     RETURN_ON_FAIL (voyeur_read_string fd 0) (\<lambda>path.
     RETURN_ON_FAIL (voyeur_read_int fd) (\<lambda>oflag.
     RETURN_ON_FAIL (voyeur_read_int fd) (\<lambda>mode.
     RETURN_ON_FAIL (voyeur_read_int fd) (\<lambda>retval.
     RETURN_ON_FAIL (read_if (has_flag (open_opts ctx) OBSERVE_OPEN_CWD) (voyeur_read_string fd 0)) (\<lambda>cwd.
     RETURN_ON_FAIL (voyeur_read_pid fd) (\<lambda>pid.
     io_bind (io_get build_os) (\<lambda>plat.
     io_then (invoke (open_cb ctx)
        (OpenArgs (c_view path) oflag (mode_cast plat mode) (map_option c_view cwd) retval pid)
        (open_userdata ctx))
       sys_free)))))))"

definition handle_close :: "'c voyeur_context_scheme \<Rightarrow> int \<Rightarrow> (unit, 'z observer_scheme) io" where
  "handle_close ctx fd =
     RETURN_ON_FAIL (voyeur_read_int fd) (\<lambda>fildes.
     RETURN_ON_FAIL (voyeur_read_int fd) (\<lambda>retval.
     RETURN_ON_FAIL (voyeur_read_pid fd) (\<lambda>pid.
     invoke (close_cb ctx) (CloseArgs fildes retval pid) (close_userdata ctx))))"

text \<open>The switch over \<open>MAP_EVENTS\<close>; the type is whatever 32 bits were received.\<close>

definition voyeur_handle_event ::
  "'c voyeur_context_scheme \<Rightarrow> u32 \<Rightarrow> int \<Rightarrow> (unit, 'z observer_scheme) io" where
  "voyeur_handle_event ctx type fd =
     (if type = event_type_val VOYEUR_EVENT_EXEC then handle_exec ctx fd
      else if type = event_type_val VOYEUR_EVENT_EXIT then handle_exit ctx fd
      else if type = event_type_val VOYEUR_EVENT_OPEN then handle_open ctx fd
      else if type = event_type_val VOYEUR_EVENT_CLOSE then handle_close ctx fd
      else SHOULD_NOT_REACH)"

section \<open>Reading an event calls the callback\<close>

text \<open>
  \<open>handles m fd bs cs L a\<close>: when the next bytes of \<open>fd\<close> are \<open>bs\<close>, \<open>m\<close> consumes exactly
  them, makes the calls \<open>cs\<close> (which may depend on the platform), and changes the number of live heap
  blocks by \<open>L\<close>, provided that allocations of up to \<open>a\<close> bytes succeed.
\<close>

definition handles :: "(unit, 'z observer_scheme) io \<Rightarrow> int \<Rightarrow> byte list \<Rightarrow> (platform \<Rightarrow> call list)
    \<Rightarrow> (nat \<Rightarrow> nat) \<Rightarrow> nat \<Rightarrow> bool" where
  "handles m fd bs cs L a \<longleftrightarrow>
     (\<forall>s n d rest. fdt s fd = Some d \<and> inp d = bs @ rest \<and> soft_r (rsys s)
          \<and> n + length bs \<le> chunks (rsys s) \<and> a \<le> mem_max s \<longrightarrow>
        (\<exists>r. m s = Ok () (got_bytes fd (length bs)
                 (s\<lparr>rsys := r, live := L (live s), calls := calls s @ cs (build_os s)\<rparr>))
             \<and> soft_r r \<and> n \<le> chunks r))"

lemma got_bytes_calls [simp]:
  "(got_bytes fd n s)\<lparr>calls := c\<rparr> = got_bytes fd n (s\<lparr>calls := c\<rparr>)"
  "pending fd (s\<lparr>calls := c\<rparr>) = pending fd s"
  "calls (got_bytes fd n s) = calls s" "build_os (got_bytes fd n t) = build_os t"
  by (simp_all add: got_bytes_def pending_def)

lemma handlesE:
  assumes "handles m fd bs cs L a" and "fdt s fd = Some d" and "inp d = bs @ rest"
    and "soft_r (rsys s)" and "n + length bs \<le> chunks (rsys s)" and "a \<le> mem_max s"
  obtains r where "m s = Ok () (got_bytes fd (length bs)
      (s\<lparr>rsys := r, live := L (live s), calls := calls s @ cs (build_os s)\<rparr>))"
    "soft_r r" "n \<le> chunks r"
  using assms unfolding handles_def by blast

lemma handles_mono:
  "handles m fd bs cs L a \<Longrightarrow> a \<le> b \<Longrightarrow> L = L' \<Longrightarrow> cs = cs' \<Longrightarrow> bs = bs' \<Longrightarrow> handles m fd bs' cs' L' b"
  unfolding handles_def by (meson order_trans)

lemma handles_seq:
  fixes m :: "('a, 'z observer_scheme) io"
  assumes "parses m fd bs v k a" and "handles (f v) fd bs' cs L a'"
    and "\<And>s t. m s = Ok v t \<Longrightarrow> g s = f v t"
  shows "handles g fd (bs @ bs') cs (\<lambda>l. L (l + k)) (max a a')"
  unfolding handles_def
proof (intro allI impI)
  fix s :: "'z observer_scheme" and n d rest
  assume h: "fdt s fd = Some d \<and> inp d = (bs @ bs') @ rest \<and> soft_r (rsys s)
     \<and> n + length (bs @ bs') \<le> chunks (rsys s) \<and> max a a' \<le> mem_max s"
  then have c: "fdt s fd = Some d" "inp d = bs @ (bs' @ rest)" "soft_r (rsys s)"
    "(n + length bs') + length bs \<le> chunks (rsys s)" "a \<le> mem_max s" by simp_all
  from parsesE [OF assms(1) c] obtain r where
    r: "m s = Ok v (got_bytes fd (length bs) (s\<lparr>rsys := r, live := live s + k\<rparr>))"
      "soft_r r" "n + length bs' \<le> chunks r" by blast
  let ?s = "got_bytes fd (length bs) (s\<lparr>rsys := r, live := live s + k\<rparr>)"
  have c': "fdt ?s fd = Some (d\<lparr>inp := bs' @ rest\<rparr>)" "inp (d\<lparr>inp := bs' @ rest\<rparr>) = bs' @ rest"
    "soft_r (rsys ?s)" "n + length bs' \<le> chunks (rsys ?s)" "a' \<le> mem_max ?s"
    using h r by (simp_all add: fdt_got_bytes)
  from handlesE [OF assms(2) c'] obtain r' where
    r': "f v ?s = Ok () (got_bytes fd (length bs')
      (?s\<lparr>rsys := r', live := L (live ?s), calls := calls ?s @ cs (build_os ?s)\<rparr>))" "soft_r r'" "n \<le> chunks r'"
    by blast
  with r(2) assms(3) [OF r(1)] show "\<exists>r. g s = Ok () (got_bytes fd (length (bs @ bs'))
       (s\<lparr>rsys := r, live := L (live s + k), calls := calls s @ cs (build_os s)\<rparr>)) \<and> soft_r r \<and> n \<le> chunks r"
    by auto
qed

lemma handles_RETURN:
  fixes m :: "('a, 'z observer_scheme) io"
  assumes "parses m fd bs v k a" and "handles (f v) fd bs' cs L a'"
  shows "handles (RETURN_ON_FAIL m f) fd (bs @ bs') cs (\<lambda>l. L (l + k)) (max a a')"
  using assms by (rule handles_seq) simp

lemma handles_bind:
  fixes m :: "('a, 'z observer_scheme) io"
  assumes "parses m fd bs v k a" and "handles (f v) fd bs' cs L a'"
  shows "handles (io_bind m f) fd (bs @ bs') cs (\<lambda>l. L (l + k)) (max a a')"
  using assms by (rule handles_seq) simp

text \<open>Once everything is read, the callback is called and some blocks are freed.\<close>

definition calls_of :: "nat option \<Rightarrow> callback_args \<Rightarrow> nat \<Rightarrow> call list" where
  "calls_of cb args userdata = (case cb of None \<Rightarrow> [] | Some f \<Rightarrow> [Call f args userdata])"

lemma invoke_eq [simp]:
  "invoke cb args userdata s = Ok () (s\<lparr>calls := calls s @ calls_of cb args userdata\<rparr>)"
  by (simp add: invoke_def calls_of_def split: option.split)

lemma handles_finish:
  assumes "\<And>s. m s = Ok () (s\<lparr>live := live s - k, calls := calls s @ cs (build_os s)\<rparr>)"
  shows "handles m fd [] cs (\<lambda>l. l - k) 0"
  unfolding handles_def using assms by (auto intro!: exI [of _ "rsys _"])

lemma io_each_free [simp]: "io_each (\<lambda>_. sys_free) xs s = Ok () (s\<lparr>live := live s - length xs\<rparr>)"
  by (induction xs arbitrary: s) (simp_all add: sys_free_def)

lemma free_strings_eq [simp]: "free_strings xs s = Ok () (s\<lparr>live := live s - Suc (length xs)\<rparr>)"
  by (simp add: free_strings_def sys_free_def)

subsection \<open>Reading an array of strings\<close>

lemma sint_of_nat32:
  assumes "n < 2 ^ 31"
  shows "sint (word_of_nat n :: cint) = int n"
proof -
  have "sint (word_of_nat n :: cint) = signed_take_bit 31 (int n)"
    by (simp add: signed_of_nat)
  also from assms have "int n < 2 ^ 31" using of_nat_less_iff [of n "2 ^ 31", where ?'a = int] by simp
  then have "signed_take_bit 31 (int n) = int n"
    by (simp add: signed_take_bit_int_eq_self_iff)
  finally show ?thesis .
qed

lemma array_size:
  assumes "n + 1 < 2 ^ 31"
  shows "unat (8 * (scast ((word_of_nat n :: cint) + 1) :: size_t)) = 8 * (n + 1)"
proof -
  have "(word_of_nat n :: cint) + 1 = word_of_nat (n + 1)" by simp
  then have "(scast ((word_of_nat n :: cint) + 1) :: size_t) = word_of_int (int (n + 1))"
    using sint_of_nat32 [OF assms] by (metis scast_eq)
  then have "8 * (scast ((word_of_nat n :: cint) + 1) :: size_t) = word_of_nat (8 * (n + 1))" by simp
  moreover have "8 * (n + 1) < 2 ^ 63" using assms by simp
  ultimately show ?thesis using unat_small [of "8 * (n + 1)"] by metis
qed

lemma parses_read_string_array:
  assumes "length xs + 1 < 2 ^ 31"
  shows "parses (read_string_array fd (word_of_nat (length xs))) fd
    (concat (map (\<lambda>x. enc_str (Some x)) xs)) (map (\<lambda>x. str_sent (Some x)) xs)
    (1 + length xs) (max 4097 (8 * (length xs + 1)))"
proof -
  let ?n = "word_of_nat (length xs) :: cint"
  have n: "sint ?n = int (length xs)" using assms by (intro sint_of_nat32) simp
  have "int (length xs) < 2 ^ 31 - 1"
    using assms of_nat_less_iff [of "length xs + 1" "2 ^ 31", where ?'a = int] by simp
  then have ne: "sint ?n \<noteq> 2 ^ 31 - 1" unfolding n by linarith
  have malloc: "parses (sys_malloc (8 * (length xs + 1))) fd [] True 1 (8 * (length xs + 1))"
    unfolding parses_def by (auto simp: sys_malloc_def intro!: exI [of _ "rsys _"])
  have one: "parses (io_bind (voyeur_read_string fd 0) (\<lambda>arg. if True then io_ret arg else io_fault)) fd
      (enc_str (Some x)) (str_sent (Some x)) 1 4097" for x
    using parses_bind_ret [OF parses_string [of fd "Some x"], of "\<lambda>x. x"] by simp
  have "parses (io_repeat (length xs) (io_bind (voyeur_read_string fd 0) (\<lambda>arg. if True then io_ret arg else io_fault)))
      fd (concat (map (\<lambda>x. enc_str (Some x)) xs)) (map (\<lambda>x. str_sent (Some x)) xs) (length xs * 1) 4097"
    by (rule parses_repeat) (rule one)
  from parses_bind_ret [OF this, of "\<lambda>x. x"]
  have "parses (io_bind (io_repeat (nat (sint ?n))
        (io_bind (voyeur_read_string fd 0) (\<lambda>arg. if True then io_ret arg else io_fault)))
        (\<lambda>xs. if True \<and> 0 \<le> sint ?n then io_ret xs else io_fault))
      fd (concat (map (\<lambda>x. enc_str (Some x)) xs)) (map (\<lambda>x. str_sent (Some x)) xs) (length xs) 4097"
    by (simp add: n)
  from parses_bind [OF malloc, where f = "\<lambda>ok. io_bind (io_repeat (nat (sint ?n))
        (io_bind (voyeur_read_string fd 0) (\<lambda>arg. if ok then io_ret arg else io_fault)))
        (\<lambda>xs. if ok \<and> 0 \<le> sint ?n then io_ret xs else io_fault)", OF this]
  show ?thesis
    unfolding read_string_array_def array_size [OF assms] using ne by (simp add: max.commute)
qed

lemma parses_read_if:
  assumes "b \<Longrightarrow> parses m fd bs v k a"
  shows "parses (read_if b m) fd (if b then bs else []) (if b then Some v else None)
    (if b then k else 0) (if b then a else 0)"
  using assms by (cases b) (simp_all add: read_if_def parses_bind_ret parses_ret)

subsection \<open>The four handlers\<close>

lemma handle_exit_handles:
  assumes "ev = Exit_Event status pid ppid"
  shows "handles (handle_exit ctx fd) fd (enc_event (exit_opts ctx) ev)
    (\<lambda>p. calls_of (exit_cb ctx) (event_args p (exit_opts ctx) ev) (exit_userdata ctx)) (\<lambda>l. l) 4097"
  unfolding handle_exit_def assms
  by (rule handles_mono, rule handles_RETURN, rule int_codec.get_parses [where v = status],
      rule handles_RETURN, rule pid_codec.get_parses [where v = pid],
      rule handles_RETURN, rule pid_codec.get_parses [where v = ppid],
      rule handles_finish [where k = 0 and cs = "\<lambda>_. calls_of (exit_cb ctx) (ExitArgs status pid ppid) (exit_userdata ctx)"])
    (simp_all)

lemma handle_close_handles:
  assumes "ev = Close_Event fildes retval pid"
  shows "handles (handle_close ctx fd) fd (enc_event (close_opts ctx) ev)
    (\<lambda>p. calls_of (close_cb ctx) (event_args p (close_opts ctx) ev) (close_userdata ctx)) (\<lambda>l. l) 4097"
  unfolding handle_close_def assms
  by (rule handles_mono, rule handles_RETURN, rule int_codec.get_parses [where v = fildes],
      rule handles_RETURN, rule int_codec.get_parses [where v = retval],
      rule handles_RETURN, rule pid_codec.get_parses [where v = pid],
      rule handles_finish [where k = 0 and cs = "\<lambda>_. calls_of (close_cb ctx) (CloseArgs fildes retval pid) (close_userdata ctx)"])
    (simp_all)

lemma handle_open_handles:
  assumes "ev = Open_Event path oflag mode retval cwd pid"
  shows "handles (handle_open ctx fd) fd (enc_event (open_opts ctx) ev)
    (\<lambda>p. calls_of (open_cb ctx) (event_args p (open_opts ctx) ev) (open_userdata ctx))
    (\<lambda>l. l + (if has_flag (open_opts ctx) OBSERVE_OPEN_CWD then 1 else 0)) 4097"
  unfolding handle_open_def assms
  by (rule handles_mono, rule handles_RETURN, rule string_codec.get_parses [where v = "Some path"],
      rule handles_RETURN, rule int_codec.get_parses [where v = oflag],
      rule handles_RETURN, rule int_codec.get_parses [where v = mode],
      rule handles_RETURN, rule int_codec.get_parses [where v = retval],
      rule handles_RETURN, rule parses_read_if, rule string_codec.get_parses [where v = cwd],
      rule handles_RETURN, rule pid_codec.get_parses [where v = pid],
      rule handles_finish [where k = 1 and cs = "\<lambda>p. calls_of (open_cb ctx)
        (event_args p (open_opts ctx) (Open_Event path oflag mode retval cwd pid)) (open_userdata ctx)"])
    (simp_all add: sys_free_def str_seen_def fun_eq_iff)

lemma parses_read_env:
  assumes "length xs + 1 < 2 ^ 31"
  shows "parses (io_bind (voyeur_read_int fd) (read_string_array fd)) fd (enc_strs xs)
    (map (\<lambda>x. str_sent (Some x)) xs) (1 + length xs) (max 4097 (8 * (length xs + 1)))"
proof -
  have "parses (io_bind (voyeur_read_int fd) (read_string_array fd)) fd (enc_strs xs)
    (map (\<lambda>x. str_sent (Some x)) xs) (0 + (1 + length xs)) (max 0 (max 4097 (8 * (length xs + 1))))"
    unfolding enc_strs_def
    by (rule parses_bind, rule int_codec.get_parses, rule parses_read_string_array) (rule assms)
  then show ?thesis by simp
qed

text \<open>The blocks that reading an exec event allocates, all of which \<open>handle_exec\<close> frees.\<close>

lemma exec_finish:
  "handles (io_then (invoke cb args userdata)
     (io_then sys_free
     (io_then (free_strings argv)
     (io_then (case envp of None \<Rightarrow> io_ret () | Some es \<Rightarrow> free_strings es)
     (io_then (io_when (path \<noteq> None) sys_free)
              (io_when (cwd \<noteq> None) sys_free)))))) fd [] (\<lambda>_. calls_of cb args userdata)
     (\<lambda>l. l - (2 + length argv + (case envp of None \<Rightarrow> 0 | Some es \<Rightarrow> 1 + length es)
        + (if path = None then 0 else 1) + (if cwd = None then 0 else 1))) 0"
  by (rule handles_finish) (cases envp; cases path; cases cwd; simp add: sys_free_def)

lemma handle_exec_handles:
  assumes "ev = Exec_Event file argv envp path cwd pid ppid" and "event_wf ev"
  shows "handles (handle_exec ctx fd) fd (enc_event (exec_opts ctx) ev)
    (\<lambda>p. calls_of (exec_cb ctx) (event_args p (exec_opts ctx) ev) (exec_userdata ctx)) (\<lambda>l. l) (event_need ev)"
proof -
  have wf: "length argv + 1 < 2 ^ 31" "length envp + 1 < 2 ^ 31" using assms by simp_all
  show ?thesis
    unfolding handle_exec_def assms(1)
    by (rule handles_mono, rule handles_RETURN, rule string_codec.get_parses [where v = "Some file"],
        rule handles_RETURN, rule int_codec.get_parses [where v = "word_of_nat (length argv)"],
        rule handles_RETURN, rule parses_read_string_array [OF wf(1)],
        rule handles_RETURN, rule parses_read_if, rule parses_read_env [OF wf(2)],
        rule handles_RETURN, rule parses_read_if, rule string_codec.get_parses [where v = path],
        rule handles_RETURN, rule parses_read_if, rule string_codec.get_parses [where v = cwd],
        rule handles_RETURN, rule pid_codec.get_parses [where v = pid],
        rule handles_RETURN, rule pid_codec.get_parses [where v = ppid],
        rule exec_finish)
      (simp_all add: enc_strs_def str_seen_def comp_def, auto simp: max_def)
qed

subsection \<open>The dispatch\<close>

text \<open>The blocks a handled event leaves allocated.\<close>

definition event_leak :: "u8 \<Rightarrow> event \<Rightarrow> nat" where
  "event_leak opts ev =
     (if event_type ev = VOYEUR_EVENT_OPEN \<and> has_flag opts OBSERVE_OPEN_CWD then 1 else 0)"

lemma handle_event_type:
  "voyeur_handle_event ctx (event_type_val E) fd =
    (case E of VOYEUR_EVENT_EXEC \<Rightarrow> handle_exec ctx fd | VOYEUR_EVENT_EXIT \<Rightarrow> handle_exit ctx fd
     | VOYEUR_EVENT_OPEN \<Rightarrow> handle_open ctx fd | VOYEUR_EVENT_CLOSE \<Rightarrow> handle_close ctx fd)"
  by (cases E) (simp_all add: voyeur_handle_event_def)

lemma handle_event_handles:
  assumes "event_wf ev"
  shows "handles (voyeur_handle_event ctx (event_type_val (event_type ev)) fd) fd
      (enc_event (event_opts ctx (event_type ev)) ev)
    (\<lambda>p. calls_of (event_cb ctx (event_type ev))
       (event_args p (event_opts ctx (event_type ev)) ev) (event_userdata ctx (event_type ev)))
    (\<lambda>l. l + event_leak (event_opts ctx (event_type ev)) ev) (event_need ev)"
proof (cases ev)
  case (Exec_Event path argv envp paths cwd pid ppid)
  from handle_exec_handles [OF this assms, of ctx fd] Exec_Event show ?thesis
    unfolding handle_event_type
    by (simp add: event_leak_def del: event_args.simps enc_event.simps event_need.simps)
next
  case (Exit_Event status pid ppid)
  from handle_exit_handles [OF this, of ctx fd] Exit_Event show ?thesis
    unfolding handle_event_type
    by (simp add: event_leak_def del: event_args.simps enc_event.simps)
next
  case (Open_Event path oflag mode retval cwd pid)
  from handle_open_handles [OF this, of ctx fd] Open_Event show ?thesis
    unfolding handle_event_type
    by (simp add: event_leak_def del: event_args.simps enc_event.simps)
next
  case (Close_Event fildes retval pid)
  from handle_close_handles [OF this, of ctx fd] Close_Event show ?thesis
    unfolding handle_event_type
    by (simp add: event_leak_def del: event_args.simps enc_event.simps)
qed

section \<open>What a handler may do\<close>

context reader_frame
begin

lemma keeps_read_string_array: "keeps R (read_string_array fd n)"
  unfolding read_string_array_def
  by (auto intro!: keeps_rules keeps_malloc keeps_read_string)

lemma keeps_read_if: "keeps R m \<Longrightarrow> keeps R (read_if b m)"
  by (cases b) (auto simp: read_if_def intro!: keeps_rules)

lemmas keeps_reads = keeps_read_string keeps_read_int keeps_read_pid keeps_read_string_array keeps_read_if
  keeps_malloc keeps_free

end

text \<open>Frames that the calls of callbacks stay in too: every handler stays in them.\<close>

locale handler_frame = reader_frame R fd
  for R :: "'z observer_scheme \<Rightarrow> 'z observer_scheme \<Rightarrow> bool" and fd :: int +
  assumes R_calls: "R s (s\<lparr>calls := c\<rparr>)"
begin

lemma keeps_invoke: "keeps R (invoke cb args userdata)"
  using R_calls by (simp add: keeps_def)

lemma keeps_free_strings: "keeps R (free_strings xs)"
  unfolding free_strings_def by (intro keeps_rules keeps_free)

lemma keeps_handlers:
  "keeps R (handle_exec ctx fd)" "keeps R (handle_exit ctx fd)"
  "keeps R (handle_open ctx fd)" "keeps R (handle_close ctx fd)"
proof -
  have "keeps R (case envp of None \<Rightarrow> io_ret () | Some es \<Rightarrow> free_strings es)" for envp
    by (cases envp) (simp_all add: keeps_Ok keeps_free_strings)
  then show "keeps R (handle_exec ctx fd)"
    unfolding handle_exec_def
    by (intro keeps_RETURN keeps_then keeps_when keeps_bind keeps_reads keeps_invoke keeps_free_strings)
  show "keeps R (handle_exit ctx fd)" "keeps R (handle_open ctx fd)" "keeps R (handle_close ctx fd)"
    unfolding handle_exit_def handle_open_def handle_close_def
    by (intro keeps_RETURN keeps_then keeps_bind keeps_get keeps_reads keeps_invoke)+
qed

lemma keeps_handle_event: "keeps R (voyeur_handle_event ctx ty fd)"
proof -
  have "keeps R SHOULD_NOT_REACH" by (simp add: keeps_def R_refl)
  then show ?thesis by (simp add: voyeur_handle_event_def keeps_handlers)
qed

end

interpretation calls_frame: reader_frame "\<lambda>s s'. calls s' = calls s" fd
  by unfold_locales simp_all

lemma only_reads_calls: "only_reads fd s (s\<lparr>live := l, calls := c\<rparr>)"
  by (simp add: only_reads_def written_def)

text \<open>
  The type of a callback's arguments: they are those of the event, every string is a C string, and the
  optional pointers are null exactly if the context did not ask for them.
\<close>

fun args_typed :: "'c voyeur_context_scheme \<Rightarrow> voyeur_event_type \<Rightarrow> callback_args \<Rightarrow> bool" where
  "args_typed ctx VOYEUR_EVENT_EXEC (ExecArgs path argv envp env_path cwd pid ppid) \<longleftrightarrow>
     list_all cstr (path # argv) \<and> pred_option (list_all cstr) envp \<and> pred_option cstr env_path \<and> pred_option cstr cwd
   \<and> (envp \<noteq> None \<longleftrightarrow> has_flag (exec_opts ctx) OBSERVE_EXEC_ENV)
   \<and> (env_path \<noteq> None \<longleftrightarrow> has_flag (exec_opts ctx) OBSERVE_EXEC_PATH)
   \<and> (cwd \<noteq> None \<longleftrightarrow> has_flag (exec_opts ctx) OBSERVE_EXEC_CWD)"
| "args_typed ctx VOYEUR_EVENT_EXIT (ExitArgs status pid ppid) \<longleftrightarrow> True"
| "args_typed ctx VOYEUR_EVENT_OPEN (OpenArgs path oflag mode cwd retval pid) \<longleftrightarrow>
     cstr path \<and> pred_option cstr cwd \<and> (cwd \<noteq> None \<longleftrightarrow> has_flag (open_opts ctx) OBSERVE_OPEN_CWD)"
| "args_typed ctx VOYEUR_EVENT_CLOSE (CloseArgs fildes retval pid) \<longleftrightarrow> True"
| "args_typed ctx _ _ \<longleftrightarrow> False"

text \<open>At most one call, of a given callback with its user data, with arguments of a type.\<close>

definition one_call :: "(callback_args \<Rightarrow> bool) \<Rightarrow> nat option \<Rightarrow> nat \<Rightarrow> int \<Rightarrow> (unit, 'z observer_scheme) io \<Rightarrow> bool" where
  "one_call P cb userdata fd m \<longleftrightarrow> keeps (only_reads fd) m \<and>
     keeps (\<lambda>s s'. calls s' = calls s \<or> (\<exists>args. P args \<and> calls s' = calls s @ calls_of cb args userdata)) m"

lemma one_call_RETURN:
  fixes m :: "('a, 'z observer_scheme) io"
  assumes "keeps (\<lambda>s s'. calls s' = calls s) m" and "keeps (only_reads fd) m"
    and "\<And>v. one_call P cb userdata fd (f v)"
  shows "one_call P cb userdata fd (RETURN_ON_FAIL m f)"
proof -
  have "keeps (only_reads fd) (RETURN_ON_FAIL m f)"
    using assms(2,3) by (intro only_reads.keeps_RETURN) (simp_all add: one_call_def)
  moreover have "keeps (\<lambda>s s'. calls s' = calls s \<or> (\<exists>args. P args \<and> calls s' = calls s @ calls_of cb args userdata))
      (RETURN_ON_FAIL m f)"
  proof (rule keepsI)
    fix s s'
    assume h: "res_state (RETURN_ON_FAIL m f s) = Some s'"
    show "calls s' = calls s \<or> (\<exists>args. P args \<and> calls s' = calls s @ calls_of cb args userdata)"
    proof (cases "m s")
      case (Ok v t)
      with h have "res_state (f v t) = Some s'" by simp
      with assms(3) [of v] have "calls s' = calls t \<or> (\<exists>args. P args \<and> calls s' = calls t @ calls_of cb args userdata)"
        unfolding one_call_def by (blast dest: keepsD)
      moreover have "calls t = calls s" using keepsD [OF assms(1), of s t] Ok by simp
      ultimately show ?thesis by simp
    qed (use h keepsD [OF assms(1), of s s'] in \<open>simp_all add: RETURN_ON_FAIL_def\<close>)
  qed
  ultimately show ?thesis by (simp add: one_call_def)
qed

lemma one_call_RETURN_if:
  fixes m :: "('a, 'z observer_scheme) io"
  assumes "keeps (\<lambda>s s'. calls s' = calls s) m" and "keeps (only_reads fd) m"
    and "\<And>v. (v \<noteq> None \<longleftrightarrow> b) \<Longrightarrow> one_call P cb userdata fd (f v)"
  shows "one_call P cb userdata fd (RETURN_ON_FAIL (read_if b m) f)"
proof (cases b)
  case True
  have "RETURN_ON_FAIL (read_if b m) f s = RETURN_ON_FAIL m (\<lambda>x. f (Some x)) s" for s
    using True by (cases "m s") (simp_all add: read_if_def RETURN_ON_FAIL_def io_bind_def)
  then have "RETURN_ON_FAIL (read_if b m) f = RETURN_ON_FAIL m (\<lambda>x. f (Some x))" by (rule ext)
  moreover have "one_call P cb userdata fd (RETURN_ON_FAIL m (\<lambda>x. f (Some x)))"
    using True assms by (intro one_call_RETURN) simp_all
  ultimately show ?thesis by simp
next
  case False
  have "RETURN_ON_FAIL (read_if b m) f s = f None s" for s
    using False by (simp add: read_if_def RETURN_ON_FAIL_def)
  then have "RETURN_ON_FAIL (read_if b m) f = f None" by (rule ext)
  then show ?thesis using False assms(3) [of None] by simp
qed

lemma one_call_done:
  assumes "\<And>s. P (A s)" and "\<And>s. m s = Ok () (s\<lparr>live := live s - k, calls := calls s @ calls_of cb (A s) userdata\<rparr>)"
  shows "one_call P cb userdata fd m"
proof -
  have "only_reads fd s s' \<and> calls s' = calls s @ calls_of cb (A s) userdata"
    if "res_state (m s) = Some s'" for s s'
    using assms(2) [of s] that by (auto simp: only_reads_calls)
  then show ?thesis unfolding one_call_def keeps_def using assms(1) by blast
qed

lemma finish_one_call:
  "(\<And>p. P (args p)) \<Longrightarrow> one_call P cb userdata fd (io_bind (io_get build_os) (\<lambda>p. io_then (invoke cb (args p) userdata) sys_free))"
  "P args' \<Longrightarrow> one_call P cb userdata fd (invoke cb args' userdata)"
  "P args' \<Longrightarrow> one_call P cb userdata fd (io_then (invoke cb args' userdata)
     (io_then sys_free
     (io_then (free_strings argv)
     (io_then (case envp of None \<Rightarrow> io_ret () | Some es \<Rightarrow> free_strings es)
     (io_then (io_when (path \<noteq> None) sys_free)
              (io_when (cwd \<noteq> None) sys_free))))))"
proof -
  show "(\<And>p. P (args p)) \<Longrightarrow> one_call P cb userdata fd (io_bind (io_get build_os) (\<lambda>p. io_then (invoke cb (args p) userdata) sys_free))"
    by (rule one_call_done [where A = "\<lambda>s. args (build_os s)" and k = 1]) (simp_all add: sys_free_def)
  show "P args' \<Longrightarrow> one_call P cb userdata fd (invoke cb args' userdata)"
    by (rule one_call_done [where A = "\<lambda>s. args'" and k = 0]) simp_all
  show "P args' \<Longrightarrow> one_call P cb userdata fd (io_then (invoke cb args' userdata)
     (io_then sys_free
     (io_then (free_strings argv)
     (io_then (case envp of None \<Rightarrow> io_ret () | Some es \<Rightarrow> free_strings es)
     (io_then (io_when (path \<noteq> None) sys_free)
              (io_when (cwd \<noteq> None) sys_free))))))"
    by (rule one_call_done [where A = "\<lambda>s. args'" and k = "2 + length argv
        + (case envp of None \<Rightarrow> 0 | Some es \<Rightarrow> 1 + length es)
        + (if path = None then 0 else 1) + (if cwd = None then 0 else 1)"], assumption)
      (cases envp; cases path; cases cwd; simp add: sys_free_def)
qed

lemma cstr_c_view [simp]: "cstr (c_view s)"
  by (auto simp: cstr_def c_view_def dest: set_takeWhileD)

lemma handlers_one_call:
  "one_call (args_typed ctx VOYEUR_EVENT_EXEC) (exec_cb ctx) (exec_userdata ctx) fd (handle_exec ctx fd)"
  "one_call (args_typed ctx VOYEUR_EVENT_EXIT) (exit_cb ctx) (exit_userdata ctx) fd (handle_exit ctx fd)"
  "one_call (args_typed ctx VOYEUR_EVENT_OPEN) (open_cb ctx) (open_userdata ctx) fd (handle_open ctx fd)"
  "one_call (args_typed ctx VOYEUR_EVENT_CLOSE) (close_cb ctx) (close_userdata ctx) fd (handle_close ctx fd)"
proof -
  note reads = calls_frame.keeps_reads only_reads.keeps_reads calls_frame.keeps_bind only_reads.keeps_bind
  show "one_call (args_typed ctx VOYEUR_EVENT_EXEC) (exec_cb ctx) (exec_userdata ctx) fd (handle_exec ctx fd)"
    unfolding handle_exec_def
    by (intro one_call_RETURN_if one_call_RETURN finish_one_call reads) (auto simp: list_all_iff option.pred_map)
  show "one_call (args_typed ctx VOYEUR_EVENT_EXIT) (exit_cb ctx) (exit_userdata ctx) fd (handle_exit ctx fd)"
    "one_call (args_typed ctx VOYEUR_EVENT_CLOSE) (close_cb ctx) (close_userdata ctx) fd (handle_close ctx fd)"
    unfolding handle_exit_def handle_close_def
    by (intro one_call_RETURN finish_one_call reads, simp)+
  show "one_call (args_typed ctx VOYEUR_EVENT_OPEN) (open_cb ctx) (open_userdata ctx) fd (handle_open ctx fd)"
    unfolding handle_open_def
    by (intro one_call_RETURN_if one_call_RETURN finish_one_call reads) (auto simp: option.pred_map)
qed

section \<open>Properties\<close>

text \<open>
  C12: dispatching an event from the wire consumes exactly the bytes of its body and calls the
  callback that is registered for its type, if there is one, exactly once, with the event as sent
  (strings cut at 4096 characters, optional fields present exactly under their option) and the
  user data; the heap is as before, except that an open event with its directory leaks one block.
\<close>

theorem handle_event_calls:
  assumes "event_wf ev" and "opts = event_opts ctx (event_type ev)"
    and "fdt s fd = Some d" and "inp d = enc_event opts ev @ rest"
    and "soft_r (rsys s)" and "length (enc_event opts ev) \<le> chunks (rsys s)"
    and "event_need ev \<le> mem_max s"
  shows "\<exists>s'. voyeur_handle_event ctx (event_type_val (event_type ev)) fd s = Ok () s'
    \<and> pending fd s' = rest
    \<and> calls s' = calls s @ (case event_cb ctx (event_type ev) of None \<Rightarrow> []
        | Some f \<Rightarrow> [Call f (event_args (build_os s) opts ev) (event_userdata ctx (event_type ev))])
    \<and> live s' = live s + (if event_type ev = VOYEUR_EVENT_OPEN \<and> has_flag opts OBSERVE_OPEN_CWD then 1 else 0)"
proof -
  have "handles (voyeur_handle_event ctx (event_type_val (event_type ev)) fd) fd (enc_event opts ev)
    (\<lambda>p. calls_of (event_cb ctx (event_type ev)) (event_args p opts ev) (event_userdata ctx (event_type ev)))
    (\<lambda>l. l + event_leak opts ev) (event_need ev)"
    unfolding assms(2) using handle_event_handles [OF assms(1)] .
  from handlesE [OF this assms(3,4,5), of 0] assms(6,7) obtain r where
    "voyeur_handle_event ctx (event_type_val (event_type ev)) fd s =
      Ok () (got_bytes fd (length (enc_event opts ev)) (s\<lparr>rsys := r, live := live s + event_leak opts ev,
        calls := calls s @ calls_of (event_cb ctx (event_type ev)) (event_args (build_os s) opts ev)
          (event_userdata ctx (event_type ev))\<rparr>))" by auto
  moreover have "pending fd s = enc_event opts ev @ rest" using assms(3,4) by (simp add: pending_def)
  ultimately show ?thesis by (simp add: calls_of_def event_leak_def)
qed

text \<open>A sample observer, about to read the given bytes on descriptor 5.\<close>

definition ex_obs :: "byte list \<Rightarrow> observer" where
  "ex_obs bs = sys.extend (ex_in bs) (observer.fields [])"

lemma ex_obs_fields [simp]:
  "fdt (ex_obs bs) 5 = Some (ex_desc bs)" "rsys (ex_obs bs) = replicate 5000 (Chunk 7)"
  "mem_max (ex_obs bs) = 65536" "calls (ex_obs bs) = []" "live (ex_obs bs) = 0"
  "build_os (ex_obs bs) = Linux" "close_errs (ex_obs bs) = []"
  by (simp_all add: ex_obs_def sys.extend_def observer.fields_def ex_in_def ex_sys_def)

definition ex_ctx :: voyeur_context where
  "ex_ctx = \<lparr>exec_opts = OBSERVE_EXEC_CWD, exec_cb = Some 10, exec_userdata = 1,
     exit_opts = 0, exit_cb = Some 11, exit_userdata = 2,
     open_opts = OBSERVE_OPEN_CWD, open_cb = Some 12, open_userdata = 3,
     close_opts = 0, close_cb = None, close_userdata = 0, resource_path = None,
     server_state = None\<rparr>"

lemma ex_ctx_slots [simp]:
  "exec_opts ex_ctx = 1" "exit_opts ex_ctx = 0" "open_opts ex_ctx = 1" "close_opts ex_ctx = 0"
  "exec_cb ex_ctx = Some 10" "exit_cb ex_ctx = Some 11" "open_cb ex_ctx = Some 12" "close_cb ex_ctx = None"
  "exec_userdata ex_ctx = 1" "exit_userdata ex_ctx = 2" "open_userdata ex_ctx = 3"
  by (simp_all add: ex_ctx_def flag_defs)

definition ex_exec :: event where
  "ex_exec = Exec_Event ''/bin/ls'' [''ls'', ''-l''] [''A=1''] (Some ''/bin'') (Some ''/tmp'') 7 1"

lemma ex_exec_facts [simp]:
  "event_type ex_exec = VOYEUR_EVENT_EXEC" "event_wf ex_exec" "event_need ex_exec = 4097"
  "length (enc_event 1 ex_exec) = 59"
  "event_args p 1 ex_exec = ExecArgs ''/bin/ls'' [''ls'', ''-l''] None None (Some ''/tmp'') 7 1"
  by (simp_all add: ex_exec_def enc_strs_def enc_str_def str_sent_eq has_flag_def flag_defs
      str_seen_short)

theorem handle_event_calls_witness:
  "\<exists>s'. voyeur_handle_event ex_ctx 0 5 (ex_obs (enc_event 1 ex_exec @ [9])) = Ok () s'
    \<and> pending 5 s' = [9]
    \<and> calls s' = [Call 10 (ExecArgs ''/bin/ls'' [''ls'', ''-l''] None None (Some ''/tmp'') 7 1) 1]
    \<and> live s' = 0"
  using handle_event_calls [of ex_exec 1 ex_ctx "ex_obs (enc_event 1 ex_exec @ [9])" 5
      "ex_desc (enc_event 1 ex_exec @ [9])" "[9]"]
  by simp

lemma handle_event_frame:
  assumes "res_state (voyeur_handle_event ctx ty fd s) = Some s'"
  shows "only_reads fd s s'
    \<and> (calls s' = calls s \<or> (\<exists>E f args. ty = event_type_val E \<and> event_cb ctx E = Some f \<and> args_typed ctx E args
          \<and> calls s' = calls s @ [Call f args (event_userdata ctx E)]))
    \<and> (ty \<notin> event_type_val ` set MAP_EVENTS \<longrightarrow> s' = s)"
proof (cases "\<exists>E. ty = event_type_val E")
  case True
  then obtain E where E: "ty = event_type_val E" by blast
  have "one_call (args_typed ctx E) (event_cb ctx E) (event_userdata ctx E) fd (voyeur_handle_event ctx ty fd)"
    unfolding E handle_event_type by (cases E) (simp_all add: handlers_one_call)
  with assms have "only_reads fd s s'"
    "calls s' = calls s \<or> (\<exists>args. args_typed ctx E args \<and> calls s' = calls s @ calls_of (event_cb ctx E) args (event_userdata ctx E))"
    unfolding one_call_def by (blast dest: keepsD)+
  with E show ?thesis by (cases "event_cb ctx E") (auto simp: calls_of_def)
next
  case False
  then have "ty \<noteq> event_type_val E" for E by blast
  then have "voyeur_handle_event ctx ty fd s = Ok () s"
    by (simp add: voyeur_handle_event_def del: event_type_val.simps)
  with assms have "s' = s" by simp
  then show ?thesis by (simp add: only_reads.R_refl)
qed

text \<open>
  Whatever bytes arrive and whatever the kernel answers, handling an event makes at most one
  call, of the callback registered for the type that was read and with its user data; it reads from
  the one descriptor only, writes nothing and closes nothing. A type that is none of the four makes
  no call and consumes nothing.
\<close>

lemma handle_event_safe:
  assumes "res_state (voyeur_handle_event ctx ty fd s) = Some s'"
  shows "only_reads fd s s'
    \<and> (calls s' = calls s \<or> (\<exists>E f args. ty = event_type_val E \<and> event_cb ctx E = Some f \<and> args_typed ctx E args
          \<and> calls s' = calls s @ [Call f args (event_userdata ctx E)]))
    \<and> (ty \<notin> event_type_val ` set MAP_EVENTS \<longrightarrow> s' = s)"
  using assms by (rule handle_event_frame)

lemma handle_event_safe_example:
  "\<exists>s'. res_state (voyeur_handle_event ex_ctx 77 5 (ex_obs [1])) = Some s'
    \<and> only_reads 5 (ex_obs [1]) s' \<and> s' = ex_obs [1]"
proof -
  have "res_state (voyeur_handle_event ex_ctx 77 5 (ex_obs [1])) = Some (ex_obs [1])"
    by (simp add: voyeur_handle_event_def)
  with handle_event_safe [OF this] show ?thesis by blast
qed

text \<open>
  C34: a negative argument count, which the sender is free to write, is undefined behaviour of the
  exec handler: the final null is stored in front of the array (or through a null pointer).
\<close>

theorem handle_exec_negative_argc:
  assumes "fdt s fd = Some d" and "inp d = enc_str (Some path) @ obj32 argc @ rest" and "sint argc < 0"
    and "soft_r (rsys s)" and "length (enc_str (Some path)) + 4 \<le> chunks (rsys s)" and "4097 \<le> mem_max s"
  shows "handle_exec ctx fd s = Fault"
proof -
  from parsesE [OF string_codec.get_parses assms(1,2,4), of 4] assms(5,6) obtain r where
    r: "voyeur_read_string fd 0 s = Ok (str_sent (Some path))
          (got_bytes fd (length (enc_str (Some path))) (s\<lparr>rsys := r, live := live s + 1\<rparr>))"
      "soft_r r" "4 \<le> chunks r" by auto
  let ?s = "got_bytes fd (length (enc_str (Some path))) (s\<lparr>rsys := r, live := live s + 1\<rparr>)"
  have c: "fdt ?s fd = Some (d\<lparr>inp := obj32 argc @ rest\<rparr>)" "inp (d\<lparr>inp := obj32 argc @ rest\<rparr>) = obj32 argc @ rest"
    "soft_r (rsys ?s)" "0 + length (obj32 argc) \<le> chunks (rsys ?s)" "0 \<le> mem_max ?s"
    using assms(1,2) r(2,3) by (simp_all add: fdt_got_bytes)
  from parsesE [OF int_codec.get_parses c] obtain s2 where
    "voyeur_read_int fd ?s = Ok argc s2" by blast
  moreover have "read_string_array fd argc s2 = Fault"
    using assms(3) by (simp add: read_string_array_def io_bind_def sys_malloc_def)
  ultimately show ?thesis
    using r(1) by (simp add: handle_exec_def RETURN_ON_FAIL_def)
qed

theorem handle_exec_negative_argc_witness:
  "handle_exec ex_ctx 5 (ex_obs (enc_str (Some ''/x'') @ obj32 0xFFFFFFFF @ [])) = Fault"
  by (rule handle_exec_negative_argc [where d = "ex_desc (enc_str (Some ''/x'') @ obj32 0xFFFFFFFF @ [])"
      and path = "''/x''" and argc = "0xFFFFFFFF" and rest = "[]"])
    (simp_all add: enc_str_def str_sent_eq)

end
