(* ===== verification/Env.thy ===== *)
theory Env
  imports Util Protocol CString
begin

unbundle bit_operations_syntax

text \<open>
  \<open>src/env.c\<close>: the environment that carries the instrumentation into a child process, and the
  option characters. An environment is the list of its entries (the terminating null pointer is the
  end of the list). The pure part of \<open>voyeur_augment_environment\<close> is \<open>augmented_env\<close>; the
  function itself adds the null pointers and the allocations.
\<close>

section \<open>The environment of an observed process\<close>

definition INSERT_LIBS :: "platform \<Rightarrow> string" where
  "INSERT_LIBS p = (case p of Apple \<Rightarrow> ''DYLD_INSERT_LIBRARIES='' | Linux \<Rightarrow> ''LD_PRELOAD='')"

text \<open>\<open>sizeof(env_buf)\<close>.\<close>

definition env_buf_size :: nat where
  "env_buf_size = 2048"

text \<open>
  The first loop: index and value of the last entry that starts with \<open>INSERT_LIBS\<close>
  (\<open>existing_insert_idx\<close> and \<open>existing_insert\<close>).
\<close>

fun find_insert :: "string \<Rightarrow> string list \<Rightarrow> nat \<Rightarrow> (nat \<times> string) option \<Rightarrow> (nat \<times> string) option" where
  "find_insert pre [] envlen found = found"
| "find_insert pre (e # es) envlen found =
     find_insert pre es (Suc envlen)
       (if strncmp_eq e pre (length pre) then Some (envlen, drop (length pre) e) else found)"

definition must_add_voyeur_libs :: "(nat \<times> string) option \<Rightarrow> string \<Rightarrow> bool" where
  "must_add_voyeur_libs existing libs =
     (let must_add = (case existing of
            Some (_, ex) \<Rightarrow> \<not> strnstr ex libs (env_buf_size * 2)
          | None \<Rightarrow> True)
      in must_add \<and>
         \<not> (length libs + (case existing of Some (_, ex) \<Rightarrow> length ex | None \<Rightarrow> 0) > env_buf_size))"

definition env_entry :: "string \<Rightarrow> string \<Rightarrow> string" where
  "env_entry name val = strlcat (strlcpy name env_buf_size) val env_buf_size"

text \<open>The contents of \<open>buf[3]\<close>.\<close>

definition insert_entry :: "string \<Rightarrow> (nat \<times> string) option \<Rightarrow> string \<Rightarrow> string" where
  "insert_entry pre existing libs =
     (let b = strlcpy pre env_buf_size in
      if must_add_voyeur_libs existing libs then
        (let b = strlcat b libs env_buf_size in
         case existing of
           None \<Rightarrow> b
         | Some (_, ex) \<Rightarrow> strlcat (strlcat b '':'' env_buf_size) ex env_buf_size)
      else
        (case existing of
           None \<Rightarrow> b
         | Some (_, ex) \<Rightarrow> strlcat b ex env_buf_size))"

definition augmented_env :: "platform \<Rightarrow> string list \<Rightarrow> string \<Rightarrow> string \<Rightarrow> string \<Rightarrow> string list" where
  "augmented_env p envp libs opts sockpath =
     (let existing = find_insert (INSERT_LIBS p) envp 0 None;
          b0 = env_entry ''LIBVOYEUR_LIBS='' libs;
          b1 = env_entry ''LIBVOYEUR_OPTS='' opts;
          b2 = env_entry ''LIBVOYEUR_SOCKET='' sockpath;
          b3 = insert_entry (INSERT_LIBS p) existing libs;
          newenvp = envp @ [b0, b1, b2]
      in case existing of
           Some (idx, _) \<Rightarrow> newenvp[idx := b3]
         | None \<Rightarrow> newenvp @ [b3])"

text \<open>
  The two allocations are the buffer of the new entries and the new array. A null argument, or an
  allocation that fails, is dereferenced.
\<close>

definition voyeur_augment_environment ::
  "string list \<Rightarrow> string option \<Rightarrow> string option \<Rightarrow> string option \<Rightarrow> (string list, 'z sys_scheme) io" where
  "voyeur_augment_environment envp libs opts sockpath =
     (case (libs, opts, sockpath) of
        (Some l, Some o', Some sp) \<Rightarrow>
          io_bind (io_get build_os) (\<lambda>plat.
          io_bind (sys_malloc (env_buf_size * 4)) (\<lambda>ok.
          if \<not> ok then io_fault else
          io_bind (sys_malloc (8 * (length envp + 5))) (\<lambda>ok.
          if \<not> ok then io_fault else
          io_ret (augmented_env plat envp l o' sp))))
      | _ \<Rightarrow> io_fault)"

section \<open>Option characters\<close>

definition voyeur_encode_options :: "u8 \<Rightarrow> char" where
  "voyeur_encode_options opts = char_of (unat ((0x40 :: u8) OR (opts AND 0x1F)))"

text \<open>\<open>opts[offset]\<close>, where the terminating null may be read too.\<close>

definition c_at :: "string \<Rightarrow> nat \<Rightarrow> char" where
  "c_at s i = (if i < length s then s ! i else NUL)"

definition voyeur_decode_options :: "string option \<Rightarrow> nat \<Rightarrow> u8" where
  "voyeur_decode_options opts offset =
     (case opts of
        None \<Rightarrow> 0
      | Some cs \<Rightarrow>
          if offset > strnlen cs 8 then 0
          else (of_char (c_at cs offset) :: u8) AND 0x1F)"

section \<open>The parts of the augmented environment\<close>

lemma length_INSERT_LIBS: "0 < length (INSERT_LIBS p)" "length (INSERT_LIBS p) \<le> 22"
  by (cases p; simp add: INSERT_LIBS_def)+

lemma env_entry_eq: "env_entry name val = take 2047 (name @ val)"
  by (simp add: env_entry_def env_buf_size_def strlcat_strlcpy)

lemma strlcat_2048: "strlcat (take 2047 a) b 2048 = take 2047 (a @ b)"
  using strlcat_take [of 2048 a b] by simp

lemma length_env_entry: "length (env_entry name val) < env_buf_size"
  by (simp add: env_entry_eq env_buf_size_def del: take_append)

lemma insert_entry_eq:
  "insert_entry pre existing libs =
    take 2047 (pre @
      (case existing of
         None \<Rightarrow> (if must_add_voyeur_libs None libs then libs else [])
       | Some (i, ex) \<Rightarrow>
           (if must_add_voyeur_libs (Some (i, ex)) libs then libs @ '':'' @ ex else ex)))"
  by (auto simp: insert_entry_def Let_def strlcpy_def env_buf_size_def strlcat_2048
      simp del: take_append split: option.split)

definition is_insert :: "string \<Rightarrow> string \<Rightarrow> bool" where
  "is_insert pre e = strncmp_eq e pre (length pre)"

lemma is_insert_iff: "is_insert pre e \<longleftrightarrow> (\<exists>u. e = pre @ u)"
  by (simp add: is_insert_def strncmp_eq_prefix)

lemma find_insert_append:
  "find_insert pre (es @ fs) k found = find_insert pre fs (k + length es) (find_insert pre es k found)"
  by (induction es arbitrary: k found) simp_all

lemma find_insert_none: "(\<And>e. e \<in> set es \<Longrightarrow> \<not> is_insert pre e) \<Longrightarrow> find_insert pre es k found = found"
  by (induction es arbitrary: k) (auto simp: is_insert_def)

lemma find_insert_last:
  assumes "is_insert pre e" and "\<And>e'. e' \<in> set ys \<Longrightarrow> \<not> is_insert pre e'"
  shows "find_insert pre (xs @ e # ys) k found = Some (k + length xs, drop (length pre) e)"
  using assms(1) by (simp add: find_insert_append find_insert_none [OF assms(2)] is_insert_def)

text \<open>The loop finds the last entry of that name, with its index.\<close>

lemma find_insert_cases:
  obtains (none) "find_insert pre es 0 None = None" "\<forall>e\<in>set es. \<not> is_insert pre e"
  | (some) xs ex ys where "find_insert pre es 0 None = Some (length xs, ex)"
      "es = xs @ (pre @ ex) # ys" "\<forall>e\<in>set ys. \<not> is_insert pre e"
proof (cases "\<exists>e\<in>set es. is_insert pre e")
  case False
  then have "find_insert pre es 0 None = None" by (intro find_insert_none) auto
  with False show ?thesis using none by blast
next
  case True
  then obtain xs e ys where es: "es = xs @ e # ys" "is_insert pre e" "\<forall>e\<in>set ys. \<not> is_insert pre e"
    using split_list_last_prop by metis
  then obtain ex where ex: "e = pre @ ex" by (auto simp: is_insert_iff)
  have "find_insert pre (xs @ e # ys) 0 None = Some (0 + length xs, drop (length pre) e)"
    using es(2,3) by (intro find_insert_last) auto
  then have "find_insert pre es 0 None = Some (length xs, ex)" by (simp add: es(1) ex)
  with es ex show ?thesis using some by blast
qed

text \<open>The entries the function adds, in the order it adds them.\<close>

definition voyeur_entries :: "string \<Rightarrow> string \<Rightarrow> string \<Rightarrow> string list" where
  "voyeur_entries libs opts sockpath =
     [env_entry ''LIBVOYEUR_LIBS='' libs, env_entry ''LIBVOYEUR_OPTS='' opts,
      env_entry ''LIBVOYEUR_SOCKET='' sockpath]"

lemma voyeur_entries_not_insert:
  "e \<in> set (voyeur_entries libs opts sockpath) \<Longrightarrow> \<not> is_insert (INSERT_LIBS p) e"
  by (cases p) (auto simp: voyeur_entries_def env_entry_eq is_insert_def strncmp_eq_def INSERT_LIBS_def)

lemma augmented_env_none:
  assumes "find_insert (INSERT_LIBS p) envp 0 None = None"
  shows "augmented_env p envp libs opts sockpath =
    envp @ voyeur_entries libs opts sockpath @ [insert_entry (INSERT_LIBS p) None libs]"
  by (simp add: augmented_env_def assms voyeur_entries_def)

lemma augmented_env_some:
  assumes "find_insert (INSERT_LIBS p) envp 0 None = Some (length xs, ex)"
    and "envp = xs @ e # ys"
  shows "augmented_env p envp libs opts sockpath =
    xs @ insert_entry (INSERT_LIBS p) (Some (length xs, ex)) libs # ys @ voyeur_entries libs opts sockpath"
  unfolding augmented_env_def assms(1) Let_def
  by (simp add: assms(2) voyeur_entries_def list_update_append)

lemma insert_entry_is_insert: "is_insert (INSERT_LIBS p) (insert_entry (INSERT_LIBS p) existing libs)"
proof -
  have "length (INSERT_LIBS p) \<le> 2047" using length_INSERT_LIBS(2) [of p] by simp
  then show ?thesis by (simp add: insert_entry_eq is_insert_iff)
qed

section \<open>Lookups\<close>

lemma getenv_entry:
  assumes "CHR ''='' \<notin> set nm" and "CHR ''='' \<notin> set name"
  shows "getenv ((nm @ ''='' @ v) # es) name = (if name = nm then Some v else getenv es name)"
proof -
  have "(\<exists>v'. nm @ ''='' @ v = name @ ''='' @ v') \<longleftrightarrow> name = nm"
  proof
    assume "\<exists>v'. nm @ ''='' @ v = name @ ''='' @ v'"
    then obtain v' where "nm @ CHR ''='' # v = name @ CHR ''='' # v'" by auto
    then show "name = nm"
      using takeWhile_stop [OF assms(1), of v] takeWhile_stop [OF assms(2), of v'] by simp
  qed auto
  then show ?thesis unfolding getenv_prefix by auto
qed

text \<open>The name of the preload variable.\<close>

definition insert_name :: "platform \<Rightarrow> string" where
  "insert_name p = (case p of Apple \<Rightarrow> ''DYLD_INSERT_LIBRARIES'' | Linux \<Rightarrow> ''LD_PRELOAD'')"

lemma INSERT_LIBS_name: "INSERT_LIBS p = insert_name p @ ''=''"
  by (cases p) (simp_all add: INSERT_LIBS_def insert_name_def)

lemma insert_name_chars: "CHR ''='' \<notin> set (insert_name p)"
  by (cases p) (simp_all add: insert_name_def)

text \<open>What the preload variable is set to, before it is cut to the buffer.\<close>

definition preload_value :: "string option \<Rightarrow> string \<Rightarrow> string" where
  "preload_value existing libs =
     (case existing of
        None \<Rightarrow> (if length libs \<le> 2048 then libs else [])
      | Some ex \<Rightarrow>
          (if strnstr ex libs 4096 \<or> 2048 < length libs + length ex then ex else libs @ '':'' @ ex))"

lemma insert_entry_value:
  "insert_entry (INSERT_LIBS p) existing libs =
    INSERT_LIBS p @ take (2047 - length (INSERT_LIBS p)) (preload_value (map_option snd existing) libs)"
  using length_INSERT_LIBS [of p]
  by (auto simp: insert_entry_eq preload_value_def must_add_voyeur_libs_def env_buf_size_def Let_def
      not_less not_le split: option.split)

lemma env_entry_value:
  "length nm < 2047 \<Longrightarrow> env_entry (nm @ ''='') val = nm @ ''='' @ take (2046 - length nm) val"
proof -
  assume "length nm < 2047"
  then have "2047 - length nm = Suc (2046 - length nm)" by simp
  with \<open>length nm < 2047\<close> show ?thesis by (simp add: env_entry_eq)
qed

lemma getenv_voyeur_entries:
  assumes "CHR ''='' \<notin> set name"
  shows "getenv (voyeur_entries libs opts sockpath @ es) name =
    (if name = ''LIBVOYEUR_LIBS'' then Some (take 2032 libs)
     else if name = ''LIBVOYEUR_OPTS'' then Some (take 2032 opts)
     else if name = ''LIBVOYEUR_SOCKET'' then Some (take 2030 sockpath)
     else getenv es name)"
  using assms
    getenv_entry [of "''LIBVOYEUR_LIBS''" name "take 2032 libs"]
    getenv_entry [of "''LIBVOYEUR_OPTS''" name "take 2032 opts"]
    getenv_entry [of "''LIBVOYEUR_SOCKET''" name "take 2030 sockpath"]
    env_entry_value [of "''LIBVOYEUR_LIBS''" libs]
    env_entry_value [of "''LIBVOYEUR_OPTS''" opts]
    env_entry_value [of "''LIBVOYEUR_SOCKET''" sockpath]
  by (simp add: voyeur_entries_def)

lemma getenv_insert_entry:
  assumes "CHR ''='' \<notin> set name"
  shows "getenv (insert_entry (INSERT_LIBS p) existing libs # es) name =
    (if name = insert_name p
     then Some (take (2047 - length (INSERT_LIBS p)) (preload_value (map_option snd existing) libs))
     else getenv es name)"
proof -
  let ?v = "take (2047 - length (INSERT_LIBS p)) (preload_value (map_option snd existing) libs)"
  have "insert_entry (INSERT_LIBS p) existing libs = insert_name p @ ''='' @ ?v"
    by (subst insert_entry_value) (simp add: INSERT_LIBS_name)
  with getenv_entry [OF insert_name_chars assms, of p ?v es] show ?thesis by simp
qed

lemma getenv_no_insert:
  assumes "\<forall>e\<in>set es. \<not> is_insert (INSERT_LIBS p) e"
  shows "getenv (es @ fs) (insert_name p) = getenv fs (insert_name p)"
  using assms
proof (induction es)
  case Nil
  show ?case by simp
next
  case (Cons e es)
  then have "\<nexists>v. e = insert_name p @ ''='' @ v"
    by (auto simp: is_insert_iff INSERT_LIBS_name)
  with Cons show ?case by (simp add: getenv_prefix)
qed

text \<open>
  An environment is abstracted to the function from names to values that \<open>getenv\<close> computes. On it
  the augmentation sets the preload variable and adds the three variables of the library where they
  are not set.
\<close>

definition abs_augment ::
  "platform \<Rightarrow> string \<Rightarrow> string \<Rightarrow> string \<Rightarrow> (string \<rightharpoonup> string) \<Rightarrow> string \<rightharpoonup> string" where
  "abs_augment p libs opts sockpath env name =
     (if name = insert_name p
      then Some (take (2047 - length (INSERT_LIBS p)) (preload_value (env name) libs))
      else case env name of
        Some v \<Rightarrow> Some v
      | None \<Rightarrow>
          (if name = ''LIBVOYEUR_LIBS'' then Some (take 2032 libs)
           else if name = ''LIBVOYEUR_OPTS'' then Some (take 2032 opts)
           else if name = ''LIBVOYEUR_SOCKET'' then Some (take 2030 sockpath)
           else None))"

lemma getenv_augmented:
  assumes "CHR ''='' \<notin> set name"
    and "length (filter (is_insert (INSERT_LIBS p)) envp) \<le> 1"
  shows "getenv (augmented_env p envp libs opts sockpath) name =
    abs_augment p libs opts sockpath (getenv envp) name"
proof (cases rule: find_insert_cases [of "INSERT_LIBS p" envp])
  case none
  note aug = augmented_env_none [OF none(1), of libs opts sockpath]
  show ?thesis
  proof (cases "name = insert_name p")
    case True
    have "insert_name p \<notin> {''LIBVOYEUR_LIBS'', ''LIBVOYEUR_OPTS'', ''LIBVOYEUR_SOCKET''}"
      by (cases p) (simp_all add: insert_name_def)
    moreover have "getenv envp (insert_name p) = None"
      using getenv_no_insert [OF none(2), of "[]"] by simp
    ultimately show ?thesis
      unfolding aug getenv_no_insert [OF none(2)] True
      by (simp add: abs_augment_def getenv_voyeur_entries [OF insert_name_chars]
          getenv_insert_entry [OF insert_name_chars])
  next
    case False
    then show ?thesis
      unfolding aug getenv_append [of envp] abs_augment_def getenv_voyeur_entries [OF assms(1)]
        getenv_insert_entry [OF assms(1)]
      by (simp split: option.split)
  qed
next
  case (some xs ex ys)
  note aug = augmented_env_some [OF some(1,2), of libs opts sockpath]
  have "is_insert (INSERT_LIBS p) (INSERT_LIBS p @ ex)" by (auto simp: is_insert_iff)
  with assms(2) some(2) have "filter (is_insert (INSERT_LIBS p)) xs = []" by auto
  then have xs: "\<forall>e\<in>set xs. \<not> is_insert (INSERT_LIBS p) e" by (simp add: filter_empty_conv)
  have old: "getenv ((INSERT_LIBS p @ ex) # fs) nm = (if nm = insert_name p then Some ex else getenv fs nm)"
    if "CHR ''='' \<notin> set nm" for fs nm
    using getenv_entry [OF insert_name_chars that, of p ex fs] by (simp add: INSERT_LIBS_name)
  show ?thesis
  proof (cases "name = insert_name p")
    case True
    show ?thesis
      unfolding aug unfolding some(2) True abs_augment_def getenv_no_insert [OF xs]
      by (simp add: getenv_insert_entry [OF insert_name_chars] old [OF insert_name_chars])
  next
    case False
    have new: "getenv (voyeur_entries libs opts sockpath) name =
        (if name = ''LIBVOYEUR_LIBS'' then Some (take 2032 libs)
         else if name = ''LIBVOYEUR_OPTS'' then Some (take 2032 opts)
         else if name = ''LIBVOYEUR_SOCKET'' then Some (take 2030 sockpath) else None)"
      using getenv_voyeur_entries [OF assms(1), of libs opts sockpath "[]"] by simp
    show ?thesis
      unfolding aug unfolding some(2) getenv_append [of xs] getenv_insert_entry [OF assms(1)] old [OF assms(1)]
        abs_augment_def getenv_append [of ys] new
      using False by (cases "getenv xs name"; cases "getenv ys name") simp_all
  qed
qed

text \<open>
  C13: the augmented environment, read with \<open>getenv\<close>, is the abstract update of the old one: the
  preload variable gets the library list in front (unless it is there already or does not fit), the
  library's own variables are added where they are unset, and every other variable keeps its value.
  In particular a value of \<open>LIBVOYEUR_SOCKET\<close> that is already in the environment wins over the new
  one.
\<close>

theorem augment_refines:
  assumes "CHR ''='' \<notin> set name"
    and "length (filter (is_insert (INSERT_LIBS p)) envp) \<le> 1"
  shows "getenv (augmented_env p envp libs opts sockpath) name =
    abs_augment p libs opts sockpath (getenv envp) name"
  using assms by (rule getenv_augmented)

definition ex_env :: "string list" where
  "ex_env = [''HOME=/r'', ''LD_PRELOAD=/a.so'', ''LIBVOYEUR_SOCKET=/tmp/old'']"

theorem augment_refines_witness:
  "getenv (augmented_env Linux ex_env ''/v.so'' ''@@'' ''/tmp/new'') ''LD_PRELOAD''
     = Some ''/v.so:/a.so''
   \<and> getenv (augmented_env Linux ex_env ''/v.so'' ''@@'' ''/tmp/new'') ''LIBVOYEUR_SOCKET'' = Some ''/tmp/old''"
proof -
  have ins: "length (filter (is_insert (INSERT_LIBS Linux)) ex_env) \<le> 1" by code_simp
  have "getenv (augmented_env Linux ex_env ''/v.so'' ''@@'' ''/tmp/new'') ''LD_PRELOAD''
      = abs_augment Linux ''/v.so'' ''@@'' ''/tmp/new'' (getenv ex_env) ''LD_PRELOAD''"
    by (rule augment_refines [OF _ ins]) simp
  also have "\<dots> = Some ''/v.so:/a.so''" by code_simp
  finally have 1: "getenv (augmented_env Linux ex_env ''/v.so'' ''@@'' ''/tmp/new'') ''LD_PRELOAD''
      = Some ''/v.so:/a.so''" .
  have "getenv (augmented_env Linux ex_env ''/v.so'' ''@@'' ''/tmp/new'') ''LIBVOYEUR_SOCKET''
      = abs_augment Linux ''/v.so'' ''@@'' ''/tmp/new'' (getenv ex_env) ''LIBVOYEUR_SOCKET''"
    by (rule augment_refines [OF _ ins]) simp
  also have "\<dots> = Some ''/tmp/old''" by code_simp
  finally show ?thesis using 1 by simp
qed

text \<open>
  The frame of the augmentation, for any environment: every entry that is not the preload variable
  keeps its position and text, exactly three entries are appended and a fourth when there was no preload
  entry, the number of preload entries only changes from none to one, and every new entry fits the
  2048-byte buffer it is built in.
\<close>

lemma augment_frame:
  shows "length (augmented_env p envp libs opts sockpath) =
      length envp + (if filter (is_insert (INSERT_LIBS p)) envp = [] then 4 else 3)
    \<and> (\<forall>i < length envp. \<not> is_insert (INSERT_LIBS p) (envp ! i) \<longrightarrow>
          augmented_env p envp libs opts sockpath ! i = envp ! i)
    \<and> length (filter (is_insert (INSERT_LIBS p)) (augmented_env p envp libs opts sockpath)) =
        max 1 (length (filter (is_insert (INSERT_LIBS p)) envp))
    \<and> (\<forall>e \<in> set (augmented_env p envp libs opts sockpath). e \<in> set envp \<or> length e < env_buf_size)"
proof -
  let ?pre = "INSERT_LIBS p"
  let ?P = "is_insert ?pre"
  let ?V = "voyeur_entries libs opts sockpath"
  have "\<forall>e\<in>set ?V. \<not> ?P e" using voyeur_entries_not_insert by blast
  then have V: "filter ?P ?V = []" "length ?V = 3" "\<forall>e\<in>set ?V. length e < env_buf_size"
    by (simp_all add: filter_empty_conv voyeur_entries_def length_env_entry)
  have I: "?P (insert_entry (INSERT_LIBS p) ex libs)" "length (insert_entry (INSERT_LIBS p) ex libs) < env_buf_size" for ex
    by (rule insert_entry_is_insert) (simp add: insert_entry_eq env_buf_size_def del: take_append)
  show ?thesis
  proof (cases rule: find_insert_cases [of "INSERT_LIBS p" envp])
    case none
    then have "filter ?P envp = []" by (simp add: filter_empty_conv)
    moreover have "filter ?P (envp @ ?V @ [insert_entry ?pre None libs]) = [insert_entry ?pre None libs]"
      using V(1) I(1) calculation by simp
    moreover have "\<forall>i < length envp. (envp @ ?V @ [insert_entry ?pre None libs]) ! i = envp ! i"
      by (simp add: nth_append)
    moreover have "\<forall>e \<in> set (envp @ ?V @ [insert_entry ?pre None libs]). e \<in> set envp \<or> length e < env_buf_size"
      using V(3) I(2) by auto
    ultimately show ?thesis using V(2) unfolding augmented_env_none [OF none(1)] by simp
  next
    case (some xs ex ys)
    let ?E = "xs @ insert_entry ?pre (Some (length xs, ex)) libs # ys @ ?V"
    have e: "?P (?pre @ ex)" by (auto simp: is_insert_iff)
    have "filter ?P ys = []" using some(3) by (simp add: filter_empty_conv)
    then have f: "length (filter ?P ?E) = max 1 (length (filter ?P envp))" "filter ?P envp \<noteq> []"
      using V(1) I(1) e unfolding some(2) by simp_all
    have k: "\<forall>i < length envp. \<not> ?P (envp ! i) \<longrightarrow> ?E ! i = envp ! i"
    proof (intro allI impI)
      fix i
      assume i: "i < length envp" "\<not> ?P (envp ! i)"
      then have "i \<noteq> length xs" using e unfolding some(2) by auto
      have "i < length xs \<or> i = length xs + Suc (i - length xs - 1) \<and> i - length xs - 1 < length ys"
        using i(1) \<open>i \<noteq> length xs\<close> unfolding some(2) by simp arith
      then consider "i < length xs" | j where "i = length xs + Suc j" "j < length ys" by blast
      then show "?E ! i = envp ! i"
        unfolding some(2) by cases (simp_all add: nth_append)
    qed
    have m: "\<forall>e \<in> set ?E. e \<in> set envp \<or> length e < env_buf_size"
      using V(3) I(2) unfolding some(2) by auto
    show ?thesis
      unfolding augmented_env_some [OF some(1,2)] using f k m V(2) by (simp add: some(2))
  qed
qed

lemma augment_frame_example:
  "length (augmented_env Linux ex_env ''/v.so'' ''@@'' ''/tmp/s'') = 6
   \<and> augmented_env Linux ex_env ''/v.so'' ''@@'' ''/tmp/s'' ! 0 = ''HOME=/r''"
proof -
  have "filter (is_insert (INSERT_LIBS Linux)) ex_env \<noteq> []"
    "\<not> is_insert (INSERT_LIBS Linux) (ex_env ! 0)" "length ex_env = 3" "ex_env ! 0 = ''HOME=/r''"
    by code_simp+
  with augment_frame [of Linux ex_env "''/v.so''" "''@@''" "''/tmp/s''"] show ?thesis by auto
qed

text \<open>
  Augmenting an environment that was augmented already (which happens at every \<open>exec\<close> of an
  observed process) leaves it as it is, preload variable included, but appends the library's three
  entries once more.
\<close>

lemma augment_again:
  assumes "\<forall>e \<in> set envp. length e < env_buf_size"
    and "length (INSERT_LIBS p) + length libs < env_buf_size"
  shows "augmented_env p (augmented_env p envp libs opts sockpath) libs opts sockpath =
    augmented_env p envp libs opts sockpath @ voyeur_entries libs opts sockpath"
proof -
  let ?pre = "INSERT_LIBS p"
  let ?V = "voyeur_entries libs opts sockpath"
  have b: "length ?pre + length libs \<le> 2047" using assms(2) by (simp add: env_buf_size_def)
  have V: "\<not> is_insert ?pre e" if "e \<in> set ?V" for e
    using that by (rule voyeur_entries_not_insert)
  text \<open>Building the entry from its own value gives the entry back.\<close>
  have same: "insert_entry ?pre (Some (i, v)) libs = ?pre @ v"
    if "length (?pre @ v) \<le> 2047" "strnstr v libs 4096 \<or> 2048 < length libs + length v" for i v
    using that by (simp add: insert_entry_value preload_value_def)
  have again: "augmented_env p (xs @ (?pre @ v) # ys) libs opts sockpath = (xs @ (?pre @ v) # ys) @ ?V"
    if v: "length (?pre @ v) \<le> 2047" "strnstr v libs 4096 \<or> 2048 < length libs + length v"
      and ys: "\<And>e. e \<in> set ys \<Longrightarrow> \<not> is_insert ?pre e" for xs v ys
  proof -
    have "find_insert ?pre (xs @ (?pre @ v) # ys) 0 None = Some (0 + length xs, drop (length ?pre) (?pre @ v))"
      by (rule find_insert_last) (use ys in \<open>auto simp: is_insert_iff\<close>)
    then have "find_insert ?pre (xs @ (?pre @ v) # ys) 0 None = Some (length xs, v)" by simp
    from augmented_env_some [OF this refl] show ?thesis by (simp add: same [OF v])
  qed
  have contained: "strnstr (take n (libs @ t)) libs 4096" if "length libs \<le> n" for n t
  proof -
    have "take 4096 (take n (libs @ t)) = [] @ libs @ take (min (4096 - length libs) (n - length libs)) t"
      using that b by simp
    then show ?thesis unfolding strnstr_def contains_iff by blast
  qed
  have n: "length libs \<le> 2047 - length ?pre" using b by simp
  show ?thesis
  proof (cases rule: find_insert_cases [of ?pre envp])
    case none
    have "insert_entry ?pre None libs = ?pre @ libs"
      using b by (simp add: insert_entry_value preload_value_def)
    with again [of libs "[]" "envp @ ?V"] contained [of "length libs" "[]"] b show ?thesis
      by (simp add: augmented_env_none [OF none(1)])
  next
    case (some xs ex ys)
    have ex: "length (?pre @ ex) \<le> 2047" using assms(1) some(2) by (auto simp: env_buf_size_def)
    have ys: "\<not> is_insert ?pre e" if "e \<in> set (ys @ ?V)" for e
      using that some(3) V by auto
    obtain v where v: "insert_entry ?pre (Some (length xs, ex)) libs = ?pre @ v"
      "length (?pre @ v) \<le> 2047" "strnstr v libs 4096 \<or> 2048 < length libs + length v"
    proof (cases "strnstr ex libs 4096 \<or> 2048 < length libs + length ex")
      case True
      with that [of ex] same [OF ex True] ex show ?thesis by blast
    next
      case False
      let ?v = "take (2047 - length ?pre) (libs @ '':'' @ ex)"
      have "insert_entry ?pre (Some (length xs, ex)) libs = ?pre @ ?v"
        using False by (simp add: insert_entry_value preload_value_def)
      moreover have "length (?pre @ ?v) \<le> 2047" using length_INSERT_LIBS(2) [of p] by simp
      ultimately show ?thesis using that contained [OF n] by blast
    qed
    show ?thesis
      using again [OF v(2,3), where xs = xs and ys = "ys @ ?V"] ys
      unfolding augmented_env_some [OF some(1,2)] v(1) by simp
  qed
qed

lemma augment_again_example:
  "augmented_env Linux (augmented_env Linux ex_env ''/v.so'' ''@@'' ''/s'') ''/v.so'' ''@@'' ''/s'' =
    augmented_env Linux ex_env ''/v.so'' ''@@'' ''/s'' @ voyeur_entries ''/v.so'' ''@@'' ''/s''"
  by (rule augment_again) code_simp+

text \<open>
  C35: the check that is meant to keep the preload variable within its buffer does not: when the check
  lets the libraries be added, the entry is complete exactly if the name, the libraries, a colon and
  the old value fit 2047 characters, which the check (it ignores the name, the colon and the null)
  does not imply; otherwise the entry is silently cut at its end.
\<close>

theorem preload_cut:
  assumes "must_add_voyeur_libs (Some (i, ex)) libs"
  shows "(insert_entry (INSERT_LIBS p) (Some (i, ex)) libs = INSERT_LIBS p @ libs @ '':'' @ ex) =
      (length (INSERT_LIBS p) + length libs + 1 + length ex < env_buf_size)
    \<and> insert_entry (INSERT_LIBS p) (Some (i, ex)) libs = take 2047 (INSERT_LIBS p @ libs @ '':'' @ ex)"
proof -
  let ?full = "INSERT_LIBS p @ libs @ '':'' @ ex"
  have eq: "insert_entry (INSERT_LIBS p) (Some (i, ex)) libs = take 2047 ?full"
    using assms by (simp add: insert_entry_eq del: take_append)
  have "take 2047 ?full = ?full \<longleftrightarrow> length ?full \<le> 2047"
    by (rule take_all_iff)
  also have "\<dots> \<longleftrightarrow> length (INSERT_LIBS p) + length libs + 1 + length ex < env_buf_size"
    unfolding env_buf_size_def length_append list.size by linarith
  finally have "(take 2047 ?full = ?full) =
      (length (INSERT_LIBS p) + length libs + 1 + length ex < env_buf_size)" .
  with eq show ?thesis by metis
qed

theorem preload_cut_witness:
  "must_add_voyeur_libs (Some (0, replicate 2040 CHR ''a'')) ''/v.so''
    \<and> insert_entry (INSERT_LIBS Linux) (Some (0, replicate 2040 CHR ''a'')) ''/v.so''
        \<noteq> INSERT_LIBS Linux @ ''/v.so'' @ '':'' @ replicate 2040 CHR ''a''"
proof -
  have no: "\<not> contains ''/v.so'' (replicate 2040 CHR ''a'')"
  proof
    assume "contains ''/v.so'' (replicate 2040 CHR ''a'')"
    then obtain u w where "replicate 2040 CHR ''a'' = u @ ''/v.so'' @ w" by (auto simp: contains_iff)
    then have "CHR ''v'' \<in> set (replicate 2040 CHR ''a'')" by (metis Un_iff list.set_intros set_append)
    then show False by simp
  qed
  have must: "must_add_voyeur_libs (Some (0, replicate 2040 CHR ''a'')) ''/v.so''"
    using no by (simp add: must_add_voyeur_libs_def strnstr_def env_buf_size_def)
  from preload_cut [OF must, of Linux] must show ?thesis
    by (simp add: env_buf_size_def INSERT_LIBS_def)
qed

section \<open>Option characters, correctness\<close>

lemma encode_sum: "(0x40 :: u8) OR (opts AND 0x1F) = 0x40 + (opts AND 0x1F)"
proof -
  have "(0x40 :: u8) AND (opts AND 0x1F) = 0" by (simp add: and.left_commute [of 64])
  then show ?thesis using word_plus_and_or [of "0x40 :: u8" "opts AND 0x1F"] by simp
qed

lemma unat_low5: "unat ((opts :: u8) AND 0x1F) < 32"
proof -
  have "opts AND 0x1F \<le> 0x1F" by (rule word_and_le1)
  then have "unat (opts AND 0x1F) \<le> unat (0x1F :: u8)" by (simp only: word_le_nat_alt)
  then show ?thesis by simp
qed

lemma of_char_encode: "(of_char (voyeur_encode_options opts) :: u8) = 0x40 OR (opts AND 0x1F)"
proof -
  have "(of_char (char_of (unat w)) :: u8) = w" for w :: u8
  proof -
    have "(of_char (char_of (unat w)) :: u8) = word_of_nat (of_char (char_of (unat w)))"
      by (simp only: of_nat_of_char)
    also have "\<dots> = word_of_nat (unat w mod 256)" by simp
    also have "unat w mod 256 = unat w" using unsigned_less [of w, where ?'a = nat] by simp
    finally show ?thesis by simp
  qed
  then show ?thesis by (simp add: voyeur_encode_options_def)
qed

lemma encode_range: "(of_char (voyeur_encode_options opts) :: nat) \<in> {64..95}"
proof -
  have "unat ((0x40 :: u8) OR (opts AND 0x1F)) = 64 + unat (opts AND 0x1F)"
    unfolding encode_sum using unat_low5 [of opts] by (simp add: unat_word_ariths)
  with unat_low5 [of opts] have "unat ((0x40 :: u8) OR (opts AND 0x1F)) \<in> {64..95}" by simp
  then show ?thesis by (simp add: voyeur_encode_options_def)
qed

lemma decode_encoded:
  assumes "i < length os" and "i < 8"
  shows "voyeur_decode_options (Some (map voyeur_encode_options os @ tail)) i = (os ! i) AND 0x1F"
proof -
  let ?cs = "map voyeur_encode_options os @ tail"
  have "c_at ?cs i = voyeur_encode_options (os ! i)"
    using assms(1) by (simp add: c_at_def nth_append)
  moreover have "\<not> i > strnlen ?cs 8" using assms by (auto simp: strnlen_def)
  ultimately have "voyeur_decode_options (Some ?cs) i = (0x40 OR (os ! i AND 0x1F)) AND 0x1F"
    by (simp add: voyeur_decode_options_def of_char_encode)
  also have "\<dots> = os ! i AND 0x1F" by (simp add: word_ao_dist and.assoc)
  finally show ?thesis .
qed

text \<open>
  An option byte becomes a printable character between \<open>@\<close> and underscore, and
  \<open>voyeur_decode_options\<close> at an event's position of an option string gives back its low five bits,
  whatever follows the option characters in memory.
\<close>

lemma options_round_trip:
  assumes "i < length os" and "i < 8"
  shows "voyeur_decode_options (Some (map voyeur_encode_options os @ tail)) i = (os ! i) AND 0x1F
    \<and> (of_char (voyeur_encode_options (os ! i)) :: nat) \<in> {64..95}"
  using decode_encoded [OF assms] encode_range by blast

lemma options_round_trip_example:
  "voyeur_decode_options (Some (map voyeur_encode_options [3, 0, 0xE1, 0] @ ''garbage'')) 2 = ([3, 0, 0xE1, 0] ! 2) AND 0x1F
    \<and> (of_char (voyeur_encode_options ([3, 0, 0xE1, 0] ! 2)) :: nat) \<in> {64..95}"
  by (rule options_round_trip) simp_all

end
