(* ===== verification/Requests.thy ===== *)
theory Requests
  imports Context Env
begin

unbundle bit_operations_syntax

text \<open>
  What the observer asks of the libraries it injects: the second half of \<open>src/event.c\<close>, which
  builds the list of libraries to preload and the option characters, and the setter of the resource
  path in \<open>src/voyeur.c\<close>. A buffer is the list of all its characters, and a read or write outside
  it is undefined behaviour.
\<close>

section \<open>The list of libraries\<close>

definition LIB_SUFFIX :: "platform \<Rightarrow> string" where
  "LIB_SUFFIX p = (case p of Apple \<Rightarrow> ''.dylib'' | Linux \<Rightarrow> ''.so'')"

definition lib_name :: "platform \<Rightarrow> voyeur_event_type \<Rightarrow> string" where
  "lib_name p E = ''libvoyeur-'' @ event_name E @ LIB_SUFFIX p"

text \<open>\<open>sizeof(all_libs)\<close> counts the terminating null of the literal.\<close>

definition compute_libs_size :: "platform \<Rightarrow> nat \<Rightarrow> nat" where
  "compute_libs_size p libdir_size =
     (let all_libs = concat (map (\<lambda>E. lib_name p E @ '':'') MAP_EVENTS)
      in length all_libs + 1 + VOYEUR_EVENT_MAX * libdir_size)"

text \<open>
  \<open>calloc(1, n)\<close>: the object, or \<open>None\<close> for a null pointer.
\<close>

definition sys_calloc :: "nat \<Rightarrow> (char list option, 'z sys_scheme) io" where
  "sys_calloc n = io_bind (sys_malloc n) (\<lambda>ok. io_ret (if ok then Some (calloc_obj n) else None))"

text \<open>
  \<open>dli_fname\<close> is what \<open>dladdr\<close> reports as the file of the library, \<open>None\<close> when it fails or
  reports a null pointer. The result is the directory and whether it was allocated.
\<close>

definition get_default_resource_path :: "string option \<Rightarrow> (string \<times> bool, 'z sys_scheme) io" where
  "get_default_resource_path dli_fname =
     (case dli_fname of
        None \<Rightarrow> io_ret (''./'', False)
      | Some fname \<Rightarrow>
          (case strrchr fname (CHR ''/'') of
             None \<Rightarrow> io_ret (''./'', False)
           | Some last_slash \<Rightarrow>
               (let len_with_slash_and_null = last_slash + 2 in
                io_bind (sys_calloc len_with_slash_and_null) (\<lambda>ob. case ob of
                  None \<Rightarrow> io_fault
                | Some _ \<Rightarrow> io_ret (strlcpy fname len_with_slash_and_null, True)))))"

text \<open>The expansion of \<open>MAP_EVENTS\<close> in \<open>voyeur_requested_libs\<close>.\<close>

fun append_libs :: "platform \<Rightarrow> string \<Rightarrow> nat \<Rightarrow> 'c voyeur_context_scheme \<Rightarrow> voyeur_event_type list
    \<Rightarrow> bool \<Rightarrow> char list \<Rightarrow> char list option" where
  "append_libs p libdir libs_size ctx [] prev libs = Some libs"
| "append_libs p libdir libs_size ctx (E # Es) prev libs =
     (if event_cb ctx E = None then append_libs p libdir libs_size ctx Es prev libs
      else (case (if prev then strlcat_obj libs '':'' libs_size else Some libs) of
          None \<Rightarrow> None
        | Some libs1 \<Rightarrow>
           (case strlcat_obj libs1 libdir libs_size of
              None \<Rightarrow> None
            | Some libs2 \<Rightarrow>
               (case strlcat_obj libs2 (lib_name p E) libs_size of
                  None \<Rightarrow> None
                | Some libs3 \<Rightarrow> append_libs p libdir libs_size ctx Es True libs3))))"

text \<open>
  The result is the buffer and the context, whose callback for exec events is forced to be non-null
  in between (the address of a local variable; any non-null value does).
\<close>

definition voyeur_requested_libs ::
  "string option \<Rightarrow> 'c voyeur_context_scheme \<Rightarrow> (char list \<times> 'c voyeur_context_scheme, 'z sys_scheme) io" where
  "voyeur_requested_libs dli_fname context =
     io_bind (io_get build_os) (\<lambda>plat.
     io_bind (case resource_path context of
                Some p \<Rightarrow> io_ret (p, False)
              | None \<Rightarrow> get_default_resource_path dli_fname) (\<lambda>(libdir, did_allocate).
     let libs_size = compute_libs_size plat (strnlen libdir 4096) in
     io_bind (sys_calloc libs_size) (\<lambda>ob.
     let did_force_exec = (exec_cb context = None);
         context1 = (if did_force_exec then context\<lparr>exec_cb := Some 0\<rparr> else context);
         context2 = (if did_force_exec then context1\<lparr>exec_cb := None\<rparr> else context1)
     in case ob of
          None \<Rightarrow> io_fault
        | Some libs \<Rightarrow>
           (case append_libs plat libdir libs_size context1 MAP_EVENTS False libs of
              None \<Rightarrow> io_fault
            | Some libs' \<Rightarrow>
                io_then (io_when did_allocate sys_free) (io_ret (libs', context2))))))"

section \<open>The option characters\<close>

text \<open>
  The buffer has \<open>VOYEUR_EVENT_MAX\<close> characters, and every one of them is set.
\<close>

definition voyeur_requested_opts ::
  "'c voyeur_context_scheme \<Rightarrow> (char list \<times> 'c voyeur_context_scheme, 'z sys_scheme) io" where
  "voyeur_requested_opts context =
     io_bind (sys_calloc VOYEUR_EVENT_MAX) (\<lambda>ob.
     let context1 = (if exec_cb context = None then context\<lparr>exec_opts := OBSERVE_EXEC_SILENT\<rparr> else context)
     in case ob of
          None \<Rightarrow> io_fault
        | Some opts \<Rightarrow>
            io_ret (foldl (\<lambda>os E. os[unat (event_type_val E) := voyeur_encode_options (event_opts context1 E)])
                      opts MAP_EVENTS, context1))"

section \<open>The resource path\<close>

text \<open>The buffer is allocated without room for the terminating null.\<close>

definition voyeur_set_resource_path ::
  "'c voyeur_context_scheme \<Rightarrow> string \<Rightarrow> ('c voyeur_context_scheme, 'z sys_scheme) io" where
  "voyeur_set_resource_path context path =
     io_bind (sys_calloc (strnlen path 4096)) (\<lambda>ob. case ob of
       None \<Rightarrow> io_fault
     | Some r \<Rightarrow>
        (case strlcat_obj r path 4096 of
           None \<Rightarrow> io_fault
         | Some r' \<Rightarrow> io_ret (context\<lparr>resource_path := obj_str r'\<rparr>)))"

section \<open>The list, in full\<close>

lemma obj_str_calloc: "0 < n \<Longrightarrow> obj_str (calloc_obj n) = Some []"
  by (cases n) (simp_all add: obj_str_def calloc_obj_def)

lemma length_calloc_obj [simp]: "length (calloc_obj n) = n"
  by (simp add: calloc_obj_def)

lemma calloc_step:
  "n \<le> mem_max s \<Longrightarrow> sys_calloc n s = Ok (Some (calloc_obj n)) (s\<lparr>live := live s + 1\<rparr>)"
  by (simp add: sys_calloc_def sys_malloc_def io_bind_def)

lemma cstr_lib_name: "cstr (lib_name p E)"
  by (cases p; cases E) (simp_all add: lib_name_def LIB_SUFFIX_def)

text \<open>The text that the expansion appends, with the separators where the code puts them.\<close>

fun libs_text :: "platform \<Rightarrow> string \<Rightarrow> (voyeur_event_type \<Rightarrow> bool) \<Rightarrow> bool \<Rightarrow> voyeur_event_type list \<Rightarrow> string" where
  "libs_text p dir obs prev [] = []"
| "libs_text p dir obs prev (E # Es) =
     (if obs E then (if prev then '':'' else []) @ dir @ lib_name p E @ libs_text p dir obs True Es
      else libs_text p dir obs prev Es)"

text \<open>Appending a string that fits appends all of it.\<close>

lemma strlcat_obj_fits:
  assumes "length ob = n" and "obj_str ob = Some d" and "cstr src" and "length d + length src < n"
  obtains ob' where "strlcat_obj ob src n = Some ob'" "length ob' = n" "obj_str ob' = Some (d @ src)"
  using strlcat_obj_in_bounds [OF assms(1-3)] strlcat_fits [OF assms(4)] by auto

lemma append_libs_text:
  assumes "length ob = n" and "obj_str ob = Some d" and "cstr dir"
    and "length d + length (libs_text p dir (\<lambda>E. event_cb ctx E \<noteq> None) prev Es) < n"
  shows "\<exists>ob'. append_libs p dir n ctx Es prev ob = Some ob' \<and> length ob' = n
    \<and> obj_str ob' = Some (d @ libs_text p dir (\<lambda>E. event_cb ctx E \<noteq> None) prev Es)"
  using assms
proof (induction Es arbitrary: prev ob d)
  case Nil
  then show ?case by simp
next
  case (Cons E Es)
  show ?case
  proof (cases "event_cb ctx E")
    case None
    with Cons show ?thesis by simp
  next
    case (Some f)
    let ?sep = "if prev then '':'' else []"
    let ?t = "libs_text p dir (\<lambda>E. event_cb ctx E \<noteq> None) True Es"
    have fit: "length d + length ?sep + length dir + length (lib_name p E) + length ?t < n"
      using Cons.prems(4) Some by simp
    obtain ob1 where ob1: "(if prev then strlcat_obj ob '':'' n else Some ob) = Some ob1"
      "length ob1 = n" "obj_str ob1 = Some (d @ ?sep)"
    proof (cases prev)
      case True
      obtain ob' where "strlcat_obj ob '':'' n = Some ob'" "length ob' = n" "obj_str ob' = Some (d @ '':'')"
        by (rule strlcat_obj_fits [OF Cons.prems(1,2), of "'':''"]) (use fit True in simp_all)
      with True that [of ob'] show ?thesis by simp
    next
      case False
      with that [of ob] Cons.prems(1,2) show ?thesis by simp
    qed
    obtain ob2 where ob2: "strlcat_obj ob1 dir n = Some ob2" "length ob2 = n" "obj_str ob2 = Some ((d @ ?sep) @ dir)"
      by (rule strlcat_obj_fits [OF ob1(2,3) Cons.prems(3)]) (use fit in simp_all)
    obtain ob3 where ob3: "strlcat_obj ob2 (lib_name p E) n = Some ob3" "length ob3 = n"
      "obj_str ob3 = Some (((d @ ?sep) @ dir) @ lib_name p E)"
      by (rule strlcat_obj_fits [OF ob2(2,3) cstr_lib_name [of p E]]) (use fit in \<open>unfold length_append, linarith\<close>)
    have "length (((d @ ?sep) @ dir) @ lib_name p E) + length ?t < n" using fit by simp
    from Cons.IH [OF ob3(2,3) Cons.prems(3) this] Some ob1(1) ob2(1) ob3(1) show ?thesis by simp
  qed
qed

lemma length_libs_text:
  "length (libs_text p dir obs prev Es) \<le>
     (\<Sum>E\<leftarrow>Es. length (lib_name p E) + length dir + 1) - (if prev \<or> filter obs Es = [] then 0 else 1)"
proof (induction Es arbitrary: prev)
  case Nil
  show ?case by simp
next
  case (Cons E Es)
  from Cons.IH [of True] Cons.IH [of prev] show ?case by auto
qed

lemma libs_text_fits:
  assumes "length dir \<le> 4096"
  shows "length (libs_text p dir obs False MAP_EVENTS) < compute_libs_size p (strnlen dir 4096)"
proof -
  have "length (libs_text p dir obs False MAP_EVENTS) \<le> (\<Sum>E\<leftarrow>MAP_EVENTS. length (lib_name p E) + length dir + 1)"
    using length_libs_text [of p dir obs False MAP_EVENTS] by linarith
  also have "\<dots> < compute_libs_size p (strnlen dir 4096)"
    using assms by (simp add: compute_libs_size_def Let_def MAP_EVENTS_def VOYEUR_EVENT_MAX_def strnlen_def)
  finally show ?thesis .
qed

text \<open>The text is the list of the libraries' paths, separated by colons.\<close>

definition join :: "string \<Rightarrow> string list \<Rightarrow> string" where
  "join sep xs = (case xs of [] \<Rightarrow> [] | x # ys \<Rightarrow> x @ concat (map (\<lambda>y. sep @ y) ys))"

lemma libs_text_join:
  "libs_text p dir obs True Es = concat (map (\<lambda>E. '':'' @ dir @ lib_name p E) (filter obs Es))"
  "libs_text p dir obs False Es = join '':'' (map (\<lambda>E. dir @ lib_name p E) (filter obs Es))"
  by (induction Es) (auto simp: join_def comp_def)

text \<open>The directory of the libraries, with its final slash.\<close>

definition default_dir :: "string option \<Rightarrow> string" where
  "default_dir dli_fname = (case dli_fname of
     None \<Rightarrow> ''./''
   | Some fname \<Rightarrow> (case strrchr fname (CHR ''/'') of None \<Rightarrow> ''./'' | Some i \<Rightarrow> take (Suc i) fname))"

lemma default_resource_path:
  assumes "\<And>f. dli_fname = Some f \<Longrightarrow> length f + 1 \<le> mem_max s"
  shows "\<exists>b. get_default_resource_path dli_fname s =
    Ok (default_dir dli_fname, b) (s\<lparr>live := live s + (if b then 1 else 0)\<rparr>)"
proof (cases dli_fname)
  case None
  then show ?thesis
    by (intro exI [of _ False]) (simp add: get_default_resource_path_def default_dir_def)
next
  case (Some fname)
  show ?thesis
  proof (cases "strrchr fname (CHR ''/'')")
    case None
    with Some show ?thesis
      by (intro exI [of _ False]) (simp add: get_default_resource_path_def default_dir_def)
  next
    case i: (Some i)
    then have "i < length fname" by (rule strrchr_Some [THEN conjunct1])
    with assms [OF Some] have "i + 2 \<le> mem_max s" by simp
    from calloc_step [OF this] Some i show ?thesis
      by (intro exI [of _ True]) (simp add: get_default_resource_path_def default_dir_def strlcpy_def Let_def)
  qed
qed

section \<open>Properties\<close>

text \<open>A context as \<open>voyeur_context_create\<close> returns it: all zero.\<close>

definition ex_ctx0 :: voyeur_context where
  "ex_ctx0 = \<lparr>exec_opts = 0, exec_cb = None, exec_userdata = 0, exit_opts = 0, exit_cb = None,
     exit_userdata = 0, open_opts = 0, open_cb = None, open_userdata = 0, close_opts = 0,
     close_cb = None, close_userdata = 0, resource_path = None,
     server_state = None\<rparr>"

lemma requested_libs_ok:
  assumes "dir = (case resource_path ctx of Some d \<Rightarrow> d | None \<Rightarrow> default_dir dli_fname)"
    and "cstr dir" and "length dir \<le> 4096"
    and "compute_libs_size (build_os s) (length dir) \<le> mem_max s"
    and "\<And>f. dli_fname = Some f \<Longrightarrow> length f + 1 \<le> mem_max s"
  shows "\<exists>ob. voyeur_requested_libs dli_fname ctx s = Ok (ob, ctx) (s\<lparr>live := live s + 1\<rparr>)
    \<and> obj_str ob = Some (join '':'' (map (\<lambda>E. dir @ lib_name (build_os s) E)
         (filter (\<lambda>E. E = VOYEUR_EVENT_EXEC \<or> event_cb ctx E \<noteq> None) MAP_EVENTS)))"
proof -
  let ?p = "build_os s" and ?n = "compute_libs_size (build_os s) (strnlen dir 4096)"
  let ?ctx1 = "if exec_cb ctx = None then ctx\<lparr>exec_cb := Some 0\<rparr> else ctx"
  have obs: "(\<lambda>E. event_cb ?ctx1 E \<noteq> None) = (\<lambda>E. E = VOYEUR_EVENT_EXEC \<or> event_cb ctx E \<noteq> None)"
  proof
    fix E
    show "(event_cb ?ctx1 E \<noteq> None) = (E = VOYEUR_EVENT_EXEC \<or> event_cb ctx E \<noteq> None)"
      by (cases E) auto
  qed
  obtain b where dir: "(case resource_path ctx of Some p \<Rightarrow> io_ret (p, False)
      | None \<Rightarrow> get_default_resource_path dli_fname) s
      = Ok (dir, b) (s\<lparr>live := live s + (if b then 1 else 0)\<rparr>)"
  proof (cases "resource_path ctx")
    case None
    with default_resource_path [OF assms(5)] assms(1) that show ?thesis by auto
  next
    case (Some d)
    with assms(1) that [of False] show ?thesis by simp
  qed
  have "strnlen dir 4096 = length dir" using assms(3) by (simp add: strnlen_def)
  then have mem: "?n \<le> mem_max (s\<lparr>live := live s + (if b then 1 else 0)\<rparr>)" using assms(4) by simp
  have fits: "length [] + length (libs_text ?p dir (\<lambda>E. event_cb ?ctx1 E \<noteq> None) False MAP_EVENTS) < ?n"
    using libs_text_fits [OF assms(3), of ?p] by simp
  then have "obj_str (calloc_obj ?n) = Some []" by (intro obj_str_calloc) linarith
  from append_libs_text [OF length_calloc_obj this assms(2) fits] obtain ob where
    ob: "append_libs ?p dir ?n ?ctx1 MAP_EVENTS False (calloc_obj ?n) = Some ob"
      "obj_str ob = Some (libs_text ?p dir (\<lambda>E. event_cb ?ctx1 E \<noteq> None) False MAP_EVENTS)" by auto
  have "voyeur_requested_libs dli_fname ctx s
    = io_then (io_when b sys_free) (io_ret (ob, ctx)) (s\<lparr>live := live s + (if b then 1 else 0) + 1\<rparr>)"
    using ob(1) unfolding voyeur_requested_libs_def Let_def
    by (simp add: io_bind_def [of "io_get build_os"] io_bind_def [of "case_option _ _ _"] dir
        io_bind_def [of "sys_calloc _"] calloc_step [OF mem] del: append_libs.simps if_split)
  then show ?thesis
    using ob(2) unfolding obs libs_text_join by (cases b) (simp_all add: sys_free_def)
qed

text \<open>
  C14: the list of libraries to preload is complete: for a directory of up to 4096 characters, the
  buffer is large enough for every library whose event has a callback and for the exec library in any
  case, each path is the directory and the library's name, they are separated by colons in the order
  of the events, the write never leaves the buffer, and the context is as before (the callback that is
  forced in between included). Exactly the buffer stays allocated.
\<close>

theorem requested_libs_complete:
  assumes "dir = (case resource_path ctx of Some d \<Rightarrow> d | None \<Rightarrow> default_dir dli_fname)"
    and "cstr dir" and "length dir \<le> 4096"
    and "compute_libs_size (build_os s) (length dir) \<le> mem_max s"
    and "\<And>f. dli_fname = Some f \<Longrightarrow> length f + 1 \<le> mem_max s"
  shows "\<exists>ob. voyeur_requested_libs dli_fname ctx s = Ok (ob, ctx) (s\<lparr>live := live s + 1\<rparr>)
    \<and> obj_str ob = Some (join '':'' (map (\<lambda>E. dir @ lib_name (build_os s) E)
         (filter (\<lambda>E. E = VOYEUR_EVENT_EXEC \<or> event_cb ctx E \<noteq> None) MAP_EVENTS)))"
  using assms by (rule requested_libs_ok)

theorem requested_libs_complete_witness:
  "\<exists>ob. voyeur_requested_libs (Some ''/usr/lib/libvoyeur.so'')
      (voyeur_observe_open ex_ctx0 0 (Some 1) 0) ex_sys
        = Ok (ob, voyeur_observe_open ex_ctx0 0 (Some 1) 0) (ex_sys\<lparr>live := 1\<rparr>)
    \<and> obj_str ob = Some ''/usr/lib/libvoyeur-exec.so:/usr/lib/libvoyeur-open.so''"
proof -
  let ?ctx = "voyeur_observe_open ex_ctx0 0 (Some 1) 0"
  let ?libs = "join '':'' (map (\<lambda>E. ''/usr/lib/'' @ lib_name (build_os ex_sys) E)
         (filter (\<lambda>E. E = VOYEUR_EVENT_EXEC \<or> event_cb ?ctx E \<noteq> None) MAP_EVENTS))"
  have "\<exists>ob. voyeur_requested_libs (Some ''/usr/lib/libvoyeur.so'') ?ctx ex_sys
      = Ok (ob, ?ctx) (ex_sys\<lparr>live := live ex_sys + 1\<rparr>) \<and> obj_str ob = Some ?libs"
    by (rule requested_libs_complete)
      (simp_all add: ex_ctx0_def ex_sys_def voyeur_observe_open_def default_dir_def
        compute_libs_size_def MAP_EVENTS_def lib_name_def LIB_SUFFIX_def VOYEUR_EVENT_MAX_def)
  moreover have "?libs = ''/usr/lib/libvoyeur-exec.so:/usr/lib/libvoyeur-open.so''"
    by (simp add: ex_ctx0_def ex_sys_def voyeur_observe_open_def MAP_EVENTS_def lib_name_def LIB_SUFFIX_def join_def)
  moreover have "live ex_sys + 1 = 1" by (simp add: ex_sys_def)
  ultimately show ?thesis by (simp only:)
qed

lemma fold_opts:
  "foldl (\<lambda>os E. os[unat (event_type_val E) := f E]) (calloc_obj 4) MAP_EVENTS = map f MAP_EVENTS"
proof -
  have "calloc_obj 4 = [NUL, NUL, NUL, NUL]" by (simp add: calloc_obj_def eval_nat_numeral)
  moreover have "unat (event_type_val VOYEUR_EVENT_EXEC) = 0"
    "unat (event_type_val VOYEUR_EVENT_EXIT) = Suc 0"
    "unat (event_type_val VOYEUR_EVENT_OPEN) = Suc (Suc 0)"
    "unat (event_type_val VOYEUR_EVENT_CLOSE) = Suc (Suc (Suc 0))" by simp_all
  ultimately show ?thesis by (simp add: MAP_EVENTS_def del: event_type_val.simps)
qed

lemma requested_opts_eq:
  assumes "4 \<le> mem_max s"
    and "ctx' = (if exec_cb ctx = None then ctx\<lparr>exec_opts := OBSERVE_EXEC_SILENT\<rparr> else ctx)"
  shows "voyeur_requested_opts ctx s =
    Ok (map voyeur_encode_options (map (event_opts ctx') MAP_EVENTS), ctx') (s\<lparr>live := live s + 1\<rparr>)"
  using assms calloc_step [of 4 s] fold_opts [of "\<lambda>E. voyeur_encode_options (event_opts ctx' E)"]
  by (simp add: voyeur_requested_opts_def VOYEUR_EVENT_MAX_def Let_def comp_def
      del: event_type_val.simps)

text \<open>No option character is a null, so the string goes on with what is behind the buffer.\<close>

lemma encoded_no_nul: "NUL \<notin> set (map voyeur_encode_options os)"
proof
  assume "NUL \<in> set (map voyeur_encode_options os)"
  then obtain v where "voyeur_encode_options v = NUL" by auto
  moreover have "(of_char (voyeur_encode_options v) :: nat) \<ge> 64"
    using encode_range [of v] by simp
  ultimately show False by simp
qed

lemma encoded_string:
  assumes "obj_str (map voyeur_encode_options os @ tail) = Some cs"
  shows "cs = map voyeur_encode_options os @ takeWhile (\<lambda>c. c \<noteq> NUL) tail"
proof -
  have "cs = takeWhile (\<lambda>c. c \<noteq> NUL) (map voyeur_encode_options os @ tail)"
    using assms by (simp only: obj_str_def option.inject option.distinct split: if_splits)
  also have "\<dots> = map voyeur_encode_options os @ takeWhile (\<lambda>c. c \<noteq> NUL) tail"
    by (rule takeWhile_append2) (use encoded_no_nul [of os] in blast)
  finally show ?thesis .
qed

lemma decode_event_opts:
  "voyeur_decode_options (Some (map voyeur_encode_options (map (event_opts ctx) MAP_EVENTS) @ tail))
     (unat (event_type_val E)) = event_opts ctx E AND 0x1F"
proof -
  have "unat (event_type_val E) < length (map (event_opts ctx) MAP_EVENTS)" "unat (event_type_val E) < 8"
    using event_type_val_bound [of E] by (simp_all add: VOYEUR_EVENT_MAX_def)
  from decode_encoded [OF this, of tail] show ?thesis
    using event_type_val_bound [of E] by simp
qed

text \<open>
  The option characters: the buffer holds the encoded options of each event at the event's
  position and no terminating null, so a reader that takes it for a string runs off its end; with any
  null behind it in memory, every event's options decode to their low five bits. Without a callback for
  exec events the exec options become just the silent flag, in the context too.
\<close>

lemma requested_opts_decode:
  assumes "4 \<le> mem_max s"
    and "ctx' = (if exec_cb ctx = None then ctx\<lparr>exec_opts := OBSERVE_EXEC_SILENT\<rparr> else ctx)"
  shows "\<exists>ob. voyeur_requested_opts ctx s = Ok (ob, ctx') (s\<lparr>live := live s + 1\<rparr>)
    \<and> length ob = VOYEUR_EVENT_MAX \<and> obj_str ob = None
    \<and> (\<forall>tail cs E. obj_str (ob @ tail) = Some cs \<longrightarrow>
          voyeur_decode_options (Some cs) (unat (event_type_val E)) = event_opts ctx' E AND 0x1F)"
proof -
  let ?ob = "map voyeur_encode_options (map (event_opts ctx') MAP_EVENTS)"
  have "voyeur_decode_options (Some cs) (unat (event_type_val E)) = event_opts ctx' E AND 0x1F"
    if "obj_str (?ob @ tail) = Some cs" for tail cs E
    unfolding encoded_string [OF that] by (rule decode_event_opts)
  moreover have "obj_str ?ob = None"
    using encoded_no_nul [of "map (event_opts ctx') MAP_EVENTS"] by (simp add: obj_str_def)
  ultimately show ?thesis
    using requested_opts_eq [OF assms] by (intro exI [of _ ?ob]) (simp del: map_map)
qed

lemma requested_opts_decode_example:
  "\<exists>ob cs s'. voyeur_requested_opts ex_ctx0 ex_sys = Ok (ob, ex_ctx0\<lparr>exec_opts := OBSERVE_EXEC_SILENT\<rparr>) s'
    \<and> obj_str ob = None \<and> obj_str (ob @ [NUL]) = Some cs \<and> voyeur_decode_options (Some cs) 0 = 16"
proof -
  let ?ctx' = "ex_ctx0\<lparr>exec_opts := OBSERVE_EXEC_SILENT\<rparr>"
  have "4 \<le> mem_max ex_sys" "?ctx' = (if exec_cb ex_ctx0 = None then ?ctx' else ex_ctx0)"
    by (simp_all add: ex_sys_def ex_ctx0_def)
  from requested_opts_decode [OF this] obtain ob where
    ob: "voyeur_requested_opts ex_ctx0 ex_sys = Ok (ob, ?ctx') (ex_sys\<lparr>live := live ex_sys + 1\<rparr>)"
      "obj_str ob = None"
      "\<forall>tail cs E. obj_str (ob @ tail) = Some cs \<longrightarrow>
         voyeur_decode_options (Some cs) (unat (event_type_val E)) = event_opts ?ctx' E AND 0x1F"
    by blast
  obtain cs where cs: "obj_str (ob @ [NUL]) = Some cs" by (simp add: obj_str_def)
  with ob(3) have "voyeur_decode_options (Some cs) (unat (event_type_val VOYEUR_EVENT_EXEC)) = event_opts ?ctx' VOYEUR_EVENT_EXEC AND 0x1F"
    by blast
  then have "voyeur_decode_options (Some cs) 0 = 16" by (simp add: flag_defs)
  with ob(1,2) cs show ?thesis by blast
qed

text \<open>
  C36: setting a resource path shorter than 4096 characters, which is every real one, writes the
  terminating null behind the buffer: it is undefined behaviour. Only longer paths, which are cut at
  4095 characters, stay inside.
\<close>

theorem set_resource_path_overflow:
  assumes "cstr path" and "4096 \<le> mem_max s"
  shows "voyeur_set_resource_path ctx path s =
    (if length path < 4096 then Fault
     else Ok (ctx\<lparr>resource_path := Some (take 4095 path)\<rparr>) (s\<lparr>live := live s + 1\<rparr>))"
proof (cases "length path < 4096")
  case True
  then have n: "strnlen path 4096 = length path" by (simp add: strnlen_def)
  have mem: "length path \<le> mem_max s" using True assms(2) by linarith
  have "strlcat_obj (calloc_obj (length path)) path 4096 = None"
    using True by (cases path) (simp_all add: strlcat_obj_def calloc_obj_def Let_def)
  with calloc_step [OF mem] True show ?thesis by (simp add: voyeur_set_resource_path_def n)
next
  case False
  then have n: "strnlen path 4096 = 4096" by (simp add: strnlen_def)
  obtain ob where "strlcat_obj (calloc_obj 4096) path 4096 = Some ob" "obj_str ob = Some (strlcat [] path 4096)"
    using strlcat_obj_in_bounds [OF length_calloc_obj obj_str_calloc assms(1), of 4096] by auto
  with calloc_step [OF assms(2)] False show ?thesis
    by (simp add: voyeur_set_resource_path_def n strlcat_def)
qed

theorem set_resource_path_overflow_witness:
  "voyeur_set_resource_path ex_ctx0 ''/opt/voyeur/'' ex_sys = Fault"
  using set_resource_path_overflow [of "''/opt/voyeur/''" ex_sys ex_ctx0] by (simp add: ex_sys_def)

end
