(* ===== verification/Host.thy ===== *)
theory Host
  imports Handlers Requests Connect
begin

unbundle bit_operations_syntax

text \<open>
  The observer's process: what it needs of the operating system beyond \<open>Machine\<close>, the listening
  socket of \<open>src/net.c\<close>, and the functions of \<open>src/voyeur.c\<close> that create and destroy a context
  and prepare the environment of the observed program.
\<close>

section \<open>The kernel as the observer uses it\<close>

text \<open>
  An answer of \<open>select\<close>: the descriptors that are readable and those with an exceptional
  condition, or an error.
\<close>

datatype select_answer = Ready "int set" "int set" | SelectErr errno

text \<open>
  \<open>dirs\<close> and \<open>files\<close> are the directories and the socket files that exist. The other fields hold the
  answers of the next calls: \<open>mkdtemps\<close> the characters that replace the end of the template
  (\<open>None\<close> for a failure), \<open>binds\<close> and \<open>listens\<close> whether the call succeeds, \<open>new_pipes\<close> the
  descriptors of the next pipes, \<open>selects\<close> the answers of \<open>select\<close>, \<open>incoming\<close> the descriptor of the
  next connection and what its peer will send (negative when \<open>accept\<close> fails), \<open>spawns\<close> the process
  identifiers of the next children (\<open>None\<close> for a failure). \<open>launched\<close> logs the programs started.
\<close>

record host = observer +
  dirs :: "string set"
  files :: "string set"
  mkdtemps :: "string option list"
  binds :: "bool list"
  listens :: "bool list"
  new_pipes :: "(int \<times> int) list"
  selects :: "select_answer list"
  incoming :: "(int \<times> byte list \<times> bool) list"
  spawns :: "pid_t option list"
  launched :: "(string \<times> string list \<times> string list) list"

definition sys_mkdtemp :: "string \<Rightarrow> (string, 'z host_scheme) io" where
  "sys_mkdtemp template s = (case mkdtemps s of
       [] \<Rightarrow> Ok template s
     | None # ms \<Rightarrow> Ok template (s\<lparr>mkdtemps := ms\<rparr>)
     | Some sfx # ms \<Rightarrow>
        (let name = take (length template - length sfx) template @ sfx
         in Ok name (s\<lparr>mkdtemps := ms, dirs := insert name (dirs s)\<rparr>)))"

definition sys_unlink :: "string \<Rightarrow> (unit, 'z host_scheme) io" where
  "sys_unlink path s = (if path \<in> files s then Ok () (s\<lparr>files := files s - {path}\<rparr>) else Fail s)"

text \<open>A directory can only be removed when it is empty.\<close>

definition sys_rmdir :: "string \<Rightarrow> (unit, 'z host_scheme) io" where
  "sys_rmdir path s =
     (if path \<in> dirs s \<and> (\<forall>f \<in> files s. \<not> strncmp_eq f (path @ ''/'') (length path + 1))
      then Ok () (s\<lparr>dirs := dirs s - {path}\<rparr>) else Fail s)"

text \<open>\<open>bind\<close> makes the socket file; a descriptor that is not open cannot be bound.\<close>

definition sys_bind :: "int \<Rightarrow> string \<Rightarrow> (unit, 'z host_scheme) io" where
  "sys_bind fd path s = (case (fdt s fd, binds s) of
       (Some _, True # bs) \<Rightarrow> Ok () (s\<lparr>binds := bs, files := insert path (files s)\<rparr>)
     | (Some _, False # bs) \<Rightarrow> Fail (s\<lparr>binds := bs\<rparr>)
     | _ \<Rightarrow> Fail s)"

definition sys_listen :: "int \<Rightarrow> (unit, 'z host_scheme) io" where
  "sys_listen fd s = (case (fdt s fd, listens s) of
       (Some _, True # ls) \<Rightarrow> Ok () (s\<lparr>listens := ls\<rparr>)
     | (Some _, False # ls) \<Rightarrow> Fail (s\<lparr>listens := ls\<rparr>)
     | _ \<Rightarrow> Fail s)"

text \<open>A call that creates a descriptor never hands out one that is open.\<close>

definition sys_pipe :: "(int \<times> int, 'z host_scheme) io" where
  "sys_pipe s = (case new_pipes s of
       [] \<Rightarrow> Fail s
     | (r, w) # ps \<Rightarrow>
        (let s1 = s\<lparr>new_pipes := ps\<rparr>;
             d = \<lparr>fd_kind = Pipe, sent = [], inp = [], peer_open = False\<rparr>
         in if 0 \<le> r \<and> 0 \<le> w \<and> r \<noteq> w \<and> fdt s r = None \<and> fdt s w = None
            then Ok (r, w) (s1\<lparr>fdt := (fdt s)(r \<mapsto> d, w \<mapsto> d)\<rparr>)
            else Fail s1))"

definition sys_accept :: "(int, 'z host_scheme) io" where
  "sys_accept s = (case incoming s of
       [] \<Rightarrow> Ok (-1) s
     | (fd, bs, op) # cs \<Rightarrow>
        (let s1 = s\<lparr>incoming := cs\<rparr>
         in if 0 \<le> fd \<and> fdt s fd = None
            then Ok fd (s1\<lparr>fdt := (fdt s)(fd \<mapsto>
                   \<lparr>fd_kind = Sock (Some []), sent = [], inp = bs, peer_open = op\<rparr>)\<rparr>)
            else Ok (-1) s1))"

text \<open>\<open>posix_spawnp\<close>: the child's process identifier.\<close>

definition sys_spawnp :: "string \<Rightarrow> string list \<Rightarrow> string list \<Rightarrow> (pid_t, 'z host_scheme) io" where
  "sys_spawnp path argv envp s = (case spawns s of
       Some pid # ps \<Rightarrow> Ok pid (s\<lparr>spawns := ps, launched := launched s @ [(path, argv, envp)]\<rparr>)
     | None # ps \<Rightarrow> Fail (s\<lparr>spawns := ps\<rparr>)
     | [] \<Rightarrow> Fail s)"

section \<open>The listening socket\<close>

text \<open>
  The result is the descriptor and the path in \<open>sockinfo\<close>; the error return leaves the directory and
  the socket behind. The first \<open>unlink\<close>'s result is dropped.
\<close>

definition sockdir_template :: string where
  "sockdir_template = ''/tmp/libvoyeur-XXXXXXXXX''"

definition voyeur_create_server_socket :: "(int option \<times> string, 'z host_scheme) io" where
  "voyeur_create_server_socket =
     io_bind (io_get build_os) (\<lambda>plat.
     io_bind (sys_mkdtemp sockdir_template) (\<lambda>sockdir.
     let size = sun_path_size plat;
         path = strlcat (strlcpy sockdir size) ''/socket'' size in
     io_then (io_ignore (sys_unlink path))
     (io_bind sys_socket (\<lambda>server_sock.
      io_on_fail
        (RETURN_ERROR_ON_FAIL (sys_bind server_sock path) (\<lambda>_.
         RETURN_ERROR_ON_FAIL (sys_listen server_sock) (\<lambda>_.
         io_ret (Some server_sock, path))))
        (io_ret (None, path))))))"

section \<open>Contexts\<close>

text \<open>A context is all zero when it is created; \<open>None\<close> is the null pointer.\<close>

definition voyeur_context_create :: "(voyeur_context option, 'z sys_scheme) io" where
  "voyeur_context_create = io_bind (sys_malloc 112) (\<lambda>ok. io_ret (if ok then
     Some \<lparr>exec_opts = 0, exec_cb = None, exec_userdata = 0, exit_opts = 0, exit_cb = None,
       exit_userdata = 0, open_opts = 0, open_cb = None, open_userdata = 0, close_opts = 0,
       close_cb = None, close_userdata = 0, resource_path = None, server_state = None\<rparr>
     else None))"

definition voyeur_context_destroy :: "'c voyeur_context_scheme \<Rightarrow> (unit, 'z sys_scheme) io" where
  "voyeur_context_destroy context =
     io_then (io_when (resource_path context \<noteq> None) sys_free)
     (io_then (case server_state context of
        None \<Rightarrow> io_ret ()
      | Some state \<Rightarrow> io_then (io_when (env_buf state) sys_free) sys_free)
      sys_free)"

section \<open>Preparing the environment\<close>

text \<open>
  The result is the new environment (\<open>None\<close> for a null pointer) and the context. \<open>behind\<close> is the
  memory behind the option characters, which \<open>voyeur_augment_environment\<close> reads as part of a string
  that is not terminated; \<open>dli_fname\<close> is the file of the library. The list and the option characters
  are not freed.
\<close>

definition voyeur_prepare :: "string option \<Rightarrow> char list \<Rightarrow> 'c voyeur_context_scheme \<Rightarrow> string list
    \<Rightarrow> (string list option \<times> 'c voyeur_context_scheme, 'z host_scheme) io" where
  "voyeur_prepare dli_fname behind context envp =
     io_bind (sys_malloc 128) (\<lambda>ok.
     if \<not> ok then io_fault else
     io_bind voyeur_create_server_socket (\<lambda>(sock, path).
     case sock of
       None \<Rightarrow> io_ret (None, context\<lparr>server_state := Some \<lparr>server_sock = -1, sun_path = path, env_buf = False\<rparr>\<rparr>)
     | Some fd \<Rightarrow>
         io_bind (voyeur_requested_libs dli_fname context) (\<lambda>(libs, context1).
         io_bind (voyeur_requested_opts context1) (\<lambda>(opts, context2).
         io_bind (voyeur_augment_environment envp (obj_str libs) (obj_str (opts @ behind)) (Some path)) (\<lambda>voyeur_envp.
         io_ret (Some voyeur_envp, context2\<lparr>server_state :=
           Some \<lparr>server_sock = fd, sun_path = path, env_buf = True\<rparr>\<rparr>))))))"

section \<open>The listening socket, correctness\<close>

lemma length_template: "length sockdir_template = 24"
  by (simp add: sockdir_template_def)

lemma socket_path:
  assumes "length sockdir = 24"
  shows "strlcat (strlcpy sockdir (sun_path_size p)) ''/socket'' (sun_path_size p) = sockdir @ ''/socket''"
proof -
  have "length sockdir < sun_path_size p" using assms by (cases p) (simp_all add: sun_path_size_def)
  then have "strlcpy sockdir (sun_path_size p) = sockdir" by (rule strlcpy_fits)
  moreover have "length sockdir + length ''/socket'' < sun_path_size p"
    using assms by (cases p) (simp_all add: sun_path_size_def)
  ultimately show ?thesis by (simp add: strlcat_fits)
qed

lemma sys_socket_new:
  "new_socks s = fd # fds \<Longrightarrow> 0 \<le> fd \<Longrightarrow> sys_socket s = Ok fd (s\<lparr>new_socks := fds,
     fdt := (fdt s)(fd \<mapsto> \<lparr>fd_kind = Sock None, sent = [], inp = [], peer_open = False\<rparr>)\<rparr>)"
  by (simp add: sys_socket_def)

text \<open>The state in which the first calls leave the process: the new directory and the new descriptor.\<close>

definition server_start :: "string \<Rightarrow> int \<Rightarrow> 'z host_scheme \<Rightarrow> 'z host_scheme" where
  "server_start dir fd s = s\<lparr>mkdtemps := tl (mkdtemps s), dirs := insert dir (dirs s),
     files := files s - {dir @ ''/socket''}, new_socks := tl (new_socks s),
     fdt := (fdt s)(fd \<mapsto> \<lparr>fd_kind = Sock None, sent = [], inp = [], peer_open = False\<rparr>)\<rparr>"

lemma create_server_socket_eq:
  assumes "mkdtemps s = Some sfx # ms" and "length sfx \<le> 24" and "new_socks s = fd # fds" and "0 \<le> fd"
    and "dir = take (24 - length sfx) sockdir_template @ sfx"
  shows "voyeur_create_server_socket s =
    io_on_fail
      (RETURN_ERROR_ON_FAIL (sys_bind fd (dir @ ''/socket'')) (\<lambda>_.
       RETURN_ERROR_ON_FAIL (sys_listen fd) (\<lambda>_. io_ret (Some fd, dir @ ''/socket''))))
      (io_ret (None, dir @ ''/socket'')) (server_start dir fd s)"
proof -
  have "length dir = 24" using assms(2,5) length_template by simp
  note path = socket_path [OF this]
  have mk: "sys_mkdtemp sockdir_template s = Ok dir (s\<lparr>mkdtemps := ms, dirs := insert dir (dirs s)\<rparr>)"
    using assms(1,5) length_template by (simp add: sys_mkdtemp_def Let_def)
  have ul: "io_ignore (sys_unlink p) t = Ok () (t\<lparr>files := files t - {p}\<rparr>)" for p and t :: "'a host_scheme"
    by (simp add: io_ignore_def sys_unlink_def)
  let ?t = "s\<lparr>mkdtemps := ms, dirs := insert dir (dirs s), files := files s - {dir @ ''/socket''}\<rparr>"
  have "sys_socket ?t = Ok fd (server_start dir fd s)"
    using sys_socket_new [of ?t fd fds] assms(1,3,4) by (simp add: server_start_def)
  then show ?thesis
    by (simp add: voyeur_create_server_socket_def mk Let_def path ul)
qed

lemma server_start_fields [simp]:
  "fdt (server_start dir fd s) fd \<noteq> None" "binds (server_start dir fd s) = binds s"
  "listens (server_start dir fd s) = listens s" "files (server_start dir fd s) = files s - {dir @ ''/socket''}"
  "dirs (server_start dir fd s) = insert dir (dirs s)" "build_os (server_start dir fd s) = build_os s"
  "mem_max (server_start dir fd s) = mem_max s" "live (server_start dir fd s) = live s"
  by (simp_all add: server_start_def)

lemma create_server_socket_ok:
  assumes "mkdtemps s = Some sfx # ms" and "length sfx \<le> 24" and "new_socks s = fd # fds" and "0 \<le> fd"
    and "dir = take (24 - length sfx) sockdir_template @ sfx"
    and "binds s = True # bs" and "listens s = True # ls"
  shows "voyeur_create_server_socket s = Ok (Some fd, dir @ ''/socket'')
    ((server_start dir fd s)\<lparr>binds := bs, listens := ls, files := insert (dir @ ''/socket'') (files s)\<rparr>)"
proof -
  obtain d where d: "fdt (server_start dir fd s) fd = Some d"
    using server_start_fields(1) [of dir fd s] by blast
  then show ?thesis
    unfolding create_server_socket_eq [OF assms(1-5)]
    using assms(6,7) by (simp add: RETURN_ERROR_ON_FAIL_def sys_bind_def sys_listen_def)
qed

text \<open>
  The listening socket: when the calls succeed, its path is the generated directory followed by
  \<open>/socket\<close>, complete on both platforms, so that the path in the children's environment names the
  socket file that exists. When \<open>bind\<close> or \<open>listen\<close> fails, the error return leaves the directory and
  the open descriptor behind.
\<close>

lemma server_socket_path:
  assumes "mkdtemps s = Some sfx # ms" and "length sfx \<le> 24" and "new_socks s = fd # fds" and "0 \<le> fd"
    and "binds s = b # bs" and "listens s = l # ls"
    and "dir = take (24 - length sfx) sockdir_template @ sfx"
  shows "\<exists>s'. voyeur_create_server_socket s = Ok (if b \<and> l then Some fd else None, dir @ ''/socket'') s'
    \<and> dir \<in> dirs s' \<and> fdt s' fd \<noteq> None \<and> (dir @ ''/socket'' \<in> files s' \<longleftrightarrow> b)"
proof -
  obtain d where d: "fdt (server_start dir fd s) fd = Some d"
    using server_start_fields(1) [of dir fd s] by blast
  let ?t = "server_start dir fd s" and ?p = "dir @ ''/socket''"
  have eq: "voyeur_create_server_socket s =
    io_on_fail (io_bind (sys_bind fd ?p) (\<lambda>_. io_bind (sys_listen fd) (\<lambda>_. io_ret (Some fd, ?p))))
      (io_ret (None, ?p)) ?t"
    using create_server_socket_eq [OF assms(1-4,7)] unfolding RETURN_ERROR_ON_FAIL_def .
  show ?thesis
  proof (cases b)
    case False
    have "sys_bind fd ?p ?t = Fail (?t\<lparr>binds := bs\<rparr>)" using d assms(5) False by (simp add: sys_bind_def)
    then have "voyeur_create_server_socket s = Ok (None, ?p) (?t\<lparr>binds := bs\<rparr>)"
      unfolding eq by (simp add: io_bind_def io_on_fail_def)
    with False d show ?thesis by simp
  next
    case True
    let ?u = "?t\<lparr>binds := bs, files := insert ?p (files ?t)\<rparr>"
    have b: "sys_bind fd ?p ?t = Ok () ?u" using d assms(5) True by (simp add: sys_bind_def)
    have l: "sys_listen fd ?u = (if l then Ok () else Fail) (?u\<lparr>listens := ls\<rparr>)"
      using d assms(6) by (cases l) (simp_all add: sys_listen_def)
    have "voyeur_create_server_socket s = Ok (if l then Some fd else None, ?p) (?u\<lparr>listens := ls\<rparr>)"
      unfolding eq using b l by (cases l) (simp_all add: io_bind_def io_on_fail_def)
    with True d show ?thesis by simp
  qed
qed

text \<open>A sample host: a temporary directory, a socket, one pipe and one child are available.\<close>

definition ex_host :: host where
  "ex_host = observer.extend (sys.extend ex_sys (observer.fields []))
     (host.fields {} {} [Some ''Ab3dEf''] [True] [True] [(6, 7)] [] [(8, [1, 0, 0, 0], False)] [Some 99] [])"

lemma ex_host_fields [simp]:
  "mkdtemps ex_host = [Some ''Ab3dEf'']" "new_socks ex_host = [4]" "binds ex_host = [True]"
  "listens ex_host = [True]" "build_os ex_host = Linux" "mem_max ex_host = 65536" "live ex_host = 0"
  "new_pipes ex_host = [(6, 7)]" "spawns ex_host = [Some 99]" "close_errs ex_host = []"
  "incoming ex_host = [(8, [1, 0, 0, 0], False)]" "calls ex_host = []" "debug ex_host = False"
  "fdt ex_host = fdt ex_sys" "files ex_host = {}" "dirs ex_host = {}" "rsys ex_host = []"
  by (simp_all add: ex_host_def observer.extend_def sys.extend_def observer.fields_def host.fields_def ex_sys_def)

lemma server_socket_path_example:
  "\<exists>s'. voyeur_create_server_socket ex_host = Ok (Some 4, ''/tmp/libvoyeur-XXXAb3dEf/socket'') s'
    \<and> ''/tmp/libvoyeur-XXXAb3dEf'' \<in> dirs s' \<and> fdt s' 4 \<noteq> None
    \<and> ''/tmp/libvoyeur-XXXAb3dEf/socket'' \<in> files s'"
  using server_socket_path [of ex_host "''Ab3dEf''" "[]" 4 "[]" True "[]" True "[]" "''/tmp/libvoyeur-XXXAb3dEf''"]
  by (simp add: sockdir_template_def)

section \<open>The prepared environment\<close>

lemma calls_of_augment:
  assumes "8192 \<le> mem_max s" and "8 * (length envp + 5) \<le> mem_max s"
  shows "voyeur_augment_environment envp (Some l) (Some os) (Some sp) s =
    Ok (augmented_env (build_os s) envp l os sp) (s\<lparr>live := live s + 2\<rparr>)"
  using assms by (simp add: voyeur_augment_environment_def sys_malloc_def env_buf_size_def)

definition requested :: "platform \<Rightarrow> string option \<Rightarrow> 'c voyeur_context_scheme \<Rightarrow> string" where
  "requested p dli_fname ctx = join '':'' (map (\<lambda>E.
     (case resource_path ctx of Some d \<Rightarrow> d | None \<Rightarrow> default_dir dli_fname) @ lib_name p E)
     (filter (\<lambda>E. E = VOYEUR_EVENT_EXEC \<or> event_cb ctx E \<noteq> None) MAP_EVENTS))"

text \<open>Where \<open>voyeur_prepare\<close> leaves the process when all its calls succeed.\<close>

definition prepared_host :: "string \<Rightarrow> int \<Rightarrow> 'z host_scheme \<Rightarrow> 'z host_scheme" where
  "prepared_host sfx fd s = (let dir = take (24 - length sfx) sockdir_template @ sfx in
     (server_start dir fd s)\<lparr>binds := tl (binds s), listens := tl (listens s),
        files := insert (dir @ ''/socket'') (files s), live := live s + 5\<rparr>)"

lemma prepared_host_fields [simp]:
  "live (prepared_host sfx fd s) = live s + 5" "mem_max (prepared_host sfx fd s) = mem_max s"
  "build_os (prepared_host sfx fd s) = build_os s" "debug (prepared_host sfx fd s) = debug s"
  "rsys (prepared_host sfx fd s) = rsys s" "close_errs (prepared_host sfx fd s) = close_errs s"
  "calls (prepared_host sfx fd s) = calls s" "new_pipes (prepared_host sfx fd s) = new_pipes s"
  "spawns (prepared_host sfx fd s) = spawns s" "launched (prepared_host sfx fd s) = launched s"
  "fdt (prepared_host sfx fd s) = (fdt s)(fd \<mapsto> \<lparr>fd_kind = Sock None, sent = [], inp = [], peer_open = False\<rparr>)"
  by (simp_all add: prepared_host_def server_start_def Let_def)

lemma prepared_host_files: "take (24 - length sfx) sockdir_template @ sfx @ ''/socket'' \<in> files (prepared_host sfx fd s)"
  by (simp add: prepared_host_def Let_def)

lemma prepare_ok:
  assumes sock: "mkdtemps s = Some sfx # ms" "length sfx \<le> 24" "new_socks s = fd # fds" "0 \<le> fd"
      "binds s = True # bs" "listens s = True # ls"
    and path: "path = take (24 - length sfx) sockdir_template @ sfx @ ''/socket''"
    and dir: "dir = (case resource_path ctx of Some d \<Rightarrow> d | None \<Rightarrow> default_dir dli_fname)"
      "cstr dir" "length dir \<le> 4096"
    and mem: "compute_libs_size (build_os s) (length dir) \<le> mem_max s"
      "\<And>f. dli_fname = Some f \<Longrightarrow> length f + 1 \<le> mem_max s"
      "8192 \<le> mem_max s" "8 * (length envp + 5) \<le> mem_max s"
    and behind: "NUL \<in> set behind"
    and ctx': "ctx' = (if exec_cb ctx = None then ctx\<lparr>exec_opts := OBSERVE_EXEC_SILENT\<rparr> else ctx)"
  shows "voyeur_prepare dli_fname behind ctx envp s = Ok
     (Some (augmented_env (build_os s) envp (requested (build_os s) dli_fname ctx)
        (map voyeur_encode_options (map (event_opts ctx') MAP_EVENTS) @ takeWhile (\<lambda>c. c \<noteq> NUL) behind) path),
      ctx'\<lparr>server_state := Some \<lparr>server_sock = fd, sun_path = path, env_buf = True\<rparr>\<rparr>) (prepared_host sfx fd s)"
proof -
  let ?p = "build_os s" and ?ob = "map voyeur_encode_options (map (event_opts ctx') MAP_EVENTS)"
  let ?t0 = "s\<lparr>live := live s + 1\<rparr>"
  define d where "d = take (24 - length sfx) sockdir_template @ sfx"
  have pd: "path = d @ ''/socket''" by (simp add: path d_def)
  define t1 where "t1 = (server_start d fd ?t0)\<lparr>binds := bs, listens := ls,
    files := insert (d @ ''/socket'') (files ?t0)\<rparr>"
  have s1: "voyeur_create_server_socket ?t0 = Ok (Some fd, path) t1"
    unfolding t1_def pd by (rule create_server_socket_ok) (use sock d_def in simp_all)
  have t1: "build_os t1 = ?p" "mem_max t1 = mem_max s" "live t1 = live s + 1" "path \<in> files t1"
    by (simp_all add: t1_def pd)
  obtain ob where libs: "voyeur_requested_libs dli_fname ctx t1 = Ok (ob, ctx) (t1\<lparr>live := live t1 + 1\<rparr>)"
      "obj_str ob = Some (requested ?p dli_fname ctx)"
    using requested_libs_ok [OF dir(1-3), of t1] mem(1,2) unfolding t1 requested_def dir(1) by blast
  let ?t2 = "t1\<lparr>live := live t1 + 1\<rparr>"
  have opts: "voyeur_requested_opts ctx ?t2 = Ok (?ob, ctx') (?t2\<lparr>live := live ?t2 + 1\<rparr>)"
    by (rule requested_opts_eq) (use mem(3) t1 ctx' in simp_all)
  let ?t3 = "?t2\<lparr>live := live ?t2 + 1\<rparr>"
  from behind have "obj_str (?ob @ behind) \<noteq> None" by (simp add: obj_str_def)
  then have os: "obj_str (?ob @ behind) = Some (?ob @ takeWhile (\<lambda>c. c \<noteq> NUL) behind)"
    using encoded_string by blast
  have env: "voyeur_augment_environment envp (Some l) (Some os) (Some sp) ?t3 =
    Ok (augmented_env ?p envp l os sp) (?t3\<lparr>live := live ?t3 + 2\<rparr>)" for l os sp
    using calls_of_augment [of ?t3 envp] mem(3,4) t1 by simp
  have "sys_malloc 128 s = Ok True ?t0" using mem(3) by (simp add: sys_malloc_def)
  then have "voyeur_prepare dli_fname behind ctx envp s = Ok
     (Some (augmented_env ?p envp (requested ?p dli_fname ctx) (?ob @ takeWhile (\<lambda>c. c \<noteq> NUL) behind) path),
      ctx'\<lparr>server_state := Some \<lparr>server_sock = fd, sun_path = path, env_buf = True\<rparr>\<rparr>)
     (?t3\<lparr>live := live ?t3 + 2\<rparr>)"
    using s1 libs opts os env by (simp add: voyeur_prepare_def del: map_map)
  moreover have "?t3\<lparr>live := live ?t3 + 2\<rparr> = prepared_host sfx fd s"
    using sock(5,6) by (simp add: t1_def d_def prepared_host_def server_start_def Let_def)
  ultimately show ?thesis by (simp del: map_map)
qed

text \<open>The environment, for a context that has recorded that exec is silent without a callback.\<close>

definition silenced :: "'c voyeur_context_scheme \<Rightarrow> 'c voyeur_context_scheme" where
  "silenced ctx = (if exec_cb ctx = None then ctx\<lparr>exec_opts := OBSERVE_EXEC_SILENT\<rparr> else ctx)"

lemma prepare_run:
  assumes "mkdtemps s = Some sfx # ms" "length sfx \<le> 24" "new_socks s = fd # fds" "0 \<le> fd"
      "binds s = True # bs" "listens s = True # ls"
    and "path = take (24 - length sfx) sockdir_template @ sfx @ ''/socket''"
    and "dir = (case resource_path ctx of Some d \<Rightarrow> d | None \<Rightarrow> default_dir dli_fname)"
      "cstr dir" "length dir \<le> 4096"
    and "compute_libs_size (build_os s) (length dir) \<le> mem_max s"
      "\<And>f. dli_fname = Some f \<Longrightarrow> length f + 1 \<le> mem_max s"
      "8192 \<le> mem_max s" "8 * (length envp + 5) \<le> mem_max s"
    and "NUL \<in> set behind"
    and "length (filter (is_insert (INSERT_LIBS (build_os s))) envp) \<le> 1"
    and "getenv envp ''LIBVOYEUR_LIBS'' = None" "getenv envp ''LIBVOYEUR_OPTS'' = None"
      "getenv envp ''LIBVOYEUR_SOCKET'' = None"
    and "length (requested (build_os s) dli_fname ctx) \<le> 2032"
    and "ctx' = (silenced ctx)\<lparr>server_state := Some \<lparr>server_sock = fd, sun_path = path, env_buf = True\<rparr>\<rparr>"
  obtains env' where "voyeur_prepare dli_fname behind ctx envp s = Ok (Some env', ctx') (prepared_host sfx fd s)"
    "getenv env' ''LIBVOYEUR_SOCKET'' = Some path"
    "getenv env' ''LIBVOYEUR_LIBS'' = Some (requested (build_os s) dli_fname ctx)"
    "\<And>E. voyeur_decode_options (getenv env' ''LIBVOYEUR_OPTS'') (unat (event_type_val E)) = event_opts ctx' E AND 0x1F"
proof -
  let ?enc = "map voyeur_encode_options (map (event_opts (silenced ctx)) MAP_EVENTS)"
  let ?os = "?enc @ takeWhile (\<lambda>c. c \<noteq> NUL) behind" and ?libs = "requested (build_os s) dli_fname ctx"
  let ?env = "augmented_env (build_os s) envp ?libs ?os path"
  have run: "voyeur_prepare dli_fname behind ctx envp s = Ok (Some ?env, ctx') (prepared_host sfx fd s)"
    unfolding assms(21) by (rule prepare_ok [OF assms(1-15) silenced_def])
  have opts2: "event_opts ctx' E = event_opts (silenced ctx) E" for E by (cases E) (simp_all add: assms(21))
  have len: "length path \<le> 2030" using assms(2,7) length_template by simp
  have plain: "insert_name (build_os s) \<notin> {''LIBVOYEUR_LIBS'', ''LIBVOYEUR_OPTS'', ''LIBVOYEUR_SOCKET''}"
    by (cases "build_os s") (simp_all add: insert_name_def)
  have get: "getenv ?env name = abs_augment (build_os s) ?libs ?os path (getenv envp) name"
    if "CHR ''='' \<notin> set name" for name
    using that assms(16) by (rule getenv_augmented)
  have "getenv ?env ''LIBVOYEUR_SOCKET'' = Some path" "getenv ?env ''LIBVOYEUR_LIBS'' = Some ?libs"
    using get [of "''LIBVOYEUR_SOCKET''"] get [of "''LIBVOYEUR_LIBS''"] plain assms(17,19,20) len
    by (auto simp: abs_augment_def simp del: map_map)
  moreover have "getenv ?env ''LIBVOYEUR_OPTS'' = Some (?enc @ take (2032 - length ?enc) (takeWhile (\<lambda>c. c \<noteq> NUL) behind))"
    using get [of "''LIBVOYEUR_OPTS''"] plain assms(18)
    by (auto simp: abs_augment_def VOYEUR_EVENT_MAX_def simp del: map_map)
  then have "voyeur_decode_options (getenv ?env ''LIBVOYEUR_OPTS'') (unat (event_type_val E)) = event_opts ctx' E AND 0x1F" for E
    unfolding opts2 by (simp only: decode_event_opts)
  ultimately show ?thesis by (intro that [OF run])
qed

text \<open>
  C10: the prepared environment, read with \<open>getenv\<close> as the injected libraries do, holds the path of the
  listening socket, the list of libraries, and option characters that decode, for every event, to the
  low five bits of the options given with the context, except that the options of exec events are
  replaced by silence when the context has no exec callback, and only then; provided that none of the three variables was set before. The socket
  file exists by then, and the context records the socket and, if there is no exec callback, the silence.
\<close>

theorem prepare_environment:
  assumes "mkdtemps s = Some sfx # ms" "length sfx \<le> 24" "new_socks s = fd # fds" "0 \<le> fd"
      "binds s = True # bs" "listens s = True # ls"
    and "path = take (24 - length sfx) sockdir_template @ sfx @ ''/socket''"
    and "dir = (case resource_path ctx of Some d \<Rightarrow> d | None \<Rightarrow> default_dir dli_fname)"
      "cstr dir" "length dir \<le> 4096"
    and "compute_libs_size (build_os s) (length dir) \<le> mem_max s"
      "\<And>f. dli_fname = Some f \<Longrightarrow> length f + 1 \<le> mem_max s"
      "8192 \<le> mem_max s" "8 * (length envp + 5) \<le> mem_max s"
    and "NUL \<in> set behind"
    and "length (filter (is_insert (INSERT_LIBS (build_os s))) envp) \<le> 1"
    and "getenv envp ''LIBVOYEUR_LIBS'' = None" "getenv envp ''LIBVOYEUR_OPTS'' = None"
      "getenv envp ''LIBVOYEUR_SOCKET'' = None"
    and "length (requested (build_os s) dli_fname ctx) \<le> 2032"
  shows "\<exists>env' s'. voyeur_prepare dli_fname behind ctx envp s = Ok
        (Some env', (if exec_cb ctx = None then ctx\<lparr>exec_opts := OBSERVE_EXEC_SILENT\<rparr> else ctx)
           \<lparr>server_state := Some \<lparr>server_sock = fd, sun_path = path, env_buf = True\<rparr>\<rparr>) s'
    \<and> getenv env' ''LIBVOYEUR_SOCKET'' = Some path \<and> path \<in> files s'
    \<and> getenv env' ''LIBVOYEUR_LIBS'' = Some (requested (build_os s) dli_fname ctx)
    \<and> (\<forall>E. voyeur_decode_options (getenv env' ''LIBVOYEUR_OPTS'') (unat (event_type_val E)) =
         (if E = VOYEUR_EVENT_EXEC \<and> exec_cb ctx = None then OBSERVE_EXEC_SILENT else event_opts ctx E) AND 0x1F)"
proof (rule prepare_run [OF assms refl])
  let ?ctx = "(silenced ctx)\<lparr>server_state := Some \<lparr>server_sock = fd, sun_path = path, env_buf = True\<rparr>\<rparr>"
  fix env'
  assume r: "voyeur_prepare dli_fname behind ctx envp s = Ok (Some env', ?ctx) (prepared_host sfx fd s)"
    "getenv env' ''LIBVOYEUR_SOCKET'' = Some path" "getenv env' ''LIBVOYEUR_LIBS'' = Some (requested (build_os s) dli_fname ctx)"
    and o: "\<And>E. voyeur_decode_options (getenv env' ''LIBVOYEUR_OPTS'') (unat (event_type_val E)) = event_opts ?ctx E AND 0x1F"
  have "event_opts ?ctx E = (if E = VOYEUR_EVENT_EXEC \<and> exec_cb ctx = None then OBSERVE_EXEC_SILENT else event_opts ctx E)" for E
    by (cases E) (simp_all add: silenced_def)
  with o have o: "\<forall>E. voyeur_decode_options (getenv env' ''LIBVOYEUR_OPTS'') (unat (event_type_val E)) =
     (if E = VOYEUR_EVENT_EXEC \<and> exec_cb ctx = None then OBSERVE_EXEC_SILENT else event_opts ctx E) AND 0x1F"
    by simp
  have "path \<in> files (prepared_host sfx fd s)" unfolding assms(7) by (rule prepared_host_files)
  with r o show ?thesis unfolding silenced_def by blast
qed

theorem prepare_environment_witness:
  "\<exists>env' ctx' s'. voyeur_prepare (Some ''/usr/lib/libvoyeur.so'') [NUL] ex_ctx [''PATH=/bin''] ex_host = Ok (Some env', ctx') s'
    \<and> getenv env' ''LIBVOYEUR_SOCKET'' = Some ''/tmp/libvoyeur-XXXAb3dEf/socket''
    \<and> getenv env' ''LIBVOYEUR_LIBS'' = Some ''/usr/lib/libvoyeur-exec.so:/usr/lib/libvoyeur-exit.so:/usr/lib/libvoyeur-open.so''
    \<and> voyeur_decode_options (getenv env' ''LIBVOYEUR_OPTS'') (unat (event_type_val VOYEUR_EVENT_OPEN)) = open_opts ex_ctx AND 0x1F"
proof -
  let ?req = "requested Linux (Some ''/usr/lib/libvoyeur.so'') ex_ctx"
  have req: "?req = ''/usr/lib/libvoyeur-exec.so:/usr/lib/libvoyeur-exit.so:/usr/lib/libvoyeur-open.so''"
    by (simp add: requested_def ex_ctx_def MAP_EVENTS_def lib_name_def LIB_SUFFIX_def join_def default_dir_def)
  have "\<exists>env' s'. voyeur_prepare (Some ''/usr/lib/libvoyeur.so'') [NUL] ex_ctx [''PATH=/bin''] ex_host = Ok
        (Some env', (if exec_cb ex_ctx = None then ex_ctx\<lparr>exec_opts := OBSERVE_EXEC_SILENT\<rparr> else ex_ctx)
           \<lparr>server_state := Some \<lparr>server_sock = 4, sun_path = ''/tmp/libvoyeur-XXXAb3dEf/socket'', env_buf = True\<rparr>\<rparr>) s'
    \<and> getenv env' ''LIBVOYEUR_SOCKET'' = Some ''/tmp/libvoyeur-XXXAb3dEf/socket'' \<and> ''/tmp/libvoyeur-XXXAb3dEf/socket'' \<in> files s'
    \<and> getenv env' ''LIBVOYEUR_LIBS'' = Some (requested (build_os ex_host) (Some ''/usr/lib/libvoyeur.so'') ex_ctx)
    \<and> (\<forall>E. voyeur_decode_options (getenv env' ''LIBVOYEUR_OPTS'') (unat (event_type_val E)) =
         (if E = VOYEUR_EVENT_EXEC \<and> exec_cb ex_ctx = None then OBSERVE_EXEC_SILENT else event_opts ex_ctx E) AND 0x1F)"
    by (rule prepare_environment [where sfx = "''Ab3dEf''" and ms = "[]" and fd = 4 and fds = "[]" and bs = "[]" and ls = "[]"
          and dir = "''/usr/lib/''"])
      (simp_all add: req, simp_all add: sockdir_template_def ex_ctx_def default_dir_def compute_libs_size_def MAP_EVENTS_def
        lib_name_def LIB_SUFFIX_def VOYEUR_EVENT_MAX_def is_insert_def INSERT_LIBS_def strncmp_eq_def getenv_prefix)
  then obtain env' ctx' s' where w: "voyeur_prepare (Some ''/usr/lib/libvoyeur.so'') [NUL] ex_ctx [''PATH=/bin''] ex_host = Ok (Some env', ctx') s'"
    "getenv env' ''LIBVOYEUR_SOCKET'' = Some ''/tmp/libvoyeur-XXXAb3dEf/socket''"
    "getenv env' ''LIBVOYEUR_LIBS'' = Some ?req"
    "voyeur_decode_options (getenv env' ''LIBVOYEUR_OPTS'') (unat (event_type_val VOYEUR_EVENT_OPEN)) =
       (if VOYEUR_EVENT_OPEN = VOYEUR_EVENT_EXEC \<and> exec_cb ex_ctx = None then OBSERVE_EXEC_SILENT else event_opts ex_ctx VOYEUR_EVENT_OPEN) AND 0x1F"
    unfolding ex_host_fields(5) by blast
  from w(4) have "voyeur_decode_options (getenv env' ''LIBVOYEUR_OPTS'') (unat (event_type_val VOYEUR_EVENT_OPEN)) = open_opts ex_ctx AND 0x1F"
    by simp
  with w(1-3) show ?thesis unfolding req by blast
qed

section \<open>The life of a context\<close>

lemma context_destroy_eq:
  "voyeur_context_destroy ctx s = Ok () (s\<lparr>live := live s - (1 + (if resource_path ctx = None then 0 else 1)
     + (case server_state ctx of None \<Rightarrow> 0 | Some st \<Rightarrow> if env_buf st then 2 else 1))\<rparr>)"
  by (cases "server_state ctx"; cases "resource_path ctx")
    (simp_all add: voyeur_context_destroy_def sys_free_def)

text \<open>
  Creating a context, preparing an environment with it, freeing the environment and destroying the
  context leaves two blocks allocated, the list of libraries and the option characters, however the
  context is configured in between (without a resource path): nothing else leaks and nothing is freed
  twice.
\<close>

lemma context_lifecycle_leak:
  assumes "voyeur_context_create s0 = Ok (Some ctx0) s"
    and "resource_path ctx = None" and "server_state ctx = None"
    and "mkdtemps s = Some sfx # ms" "length sfx \<le> 24" "new_socks s = fd # fds" "0 \<le> fd"
      "binds s = True # bs" "listens s = True # ls"
    and "default_dir dli_fname = dir" "cstr dir" "length dir \<le> 4096"
    and "compute_libs_size (build_os s) (length dir) \<le> mem_max s"
      "\<And>f. dli_fname = Some f \<Longrightarrow> length f + 1 \<le> mem_max s"
      "8192 \<le> mem_max s" "8 * (length envp + 5) \<le> mem_max s"
    and "NUL \<in> set behind"
  shows "\<exists>env' ctx' s1 s2. voyeur_prepare dli_fname behind ctx envp s = Ok (Some env', ctx') s1
    \<and> io_then sys_free (voyeur_context_destroy ctx') s1 = Ok () s2 \<and> live s2 = live s0 + 2"
proof -
  define path where "path = take (24 - length sfx) sockdir_template @ sfx @ ''/socket''"
  define ctx1 where "ctx1 = (if exec_cb ctx = None then ctx\<lparr>exec_opts := OBSERVE_EXEC_SILENT\<rparr> else ctx)"
  have dir: "dir = (case resource_path ctx of Some d \<Rightarrow> d | None \<Rightarrow> default_dir dli_fname)"
    using assms(2,10) by simp
  obtain env' s1 where
    s1: "voyeur_prepare dli_fname behind ctx envp s = Ok
      (Some env', ctx1\<lparr>server_state := Some \<lparr>server_sock = fd, sun_path = path, env_buf = True\<rparr>\<rparr>) s1"
      "live s1 = live s + 5"
    using prepare_ok [OF assms(4-9) path_def dir assms(11-15) assms(16) assms(17) ctx1_def] prepared_host_fields(1) by blast
  have "live s = live s0 + 1"
    using assms(1) by (auto simp: voyeur_context_create_def sys_malloc_def io_bind_def split: if_splits)
  moreover have "resource_path ctx1 = None" using assms(2) by (simp add: ctx1_def)
  ultimately show ?thesis
    using s1 by (simp add: context_destroy_eq sys_free_def)
qed

lemma context_lifecycle_leak_example:
  "\<exists>env' ctx' s1 s2. voyeur_prepare None [NUL] ex_ctx0 [] (ex_host\<lparr>live := 1\<rparr>) = Ok (Some env', ctx') s1
    \<and> io_then sys_free (voyeur_context_destroy ctx') s1 = Ok () s2 \<and> live s2 = 2"
proof -
  have "voyeur_context_create ex_host = Ok (Some ex_ctx0) (ex_host\<lparr>live := 1\<rparr>)"
    by (simp add: voyeur_context_create_def sys_malloc_def io_bind_def ex_ctx0_def)
  then have "\<exists>env' ctx' s1 s2. voyeur_prepare None [NUL] ex_ctx0 [] (ex_host\<lparr>live := 1\<rparr>) = Ok (Some env', ctx') s1
    \<and> io_then sys_free (voyeur_context_destroy ctx') s1 = Ok () s2 \<and> live s2 = live ex_host + 2"
    by (rule context_lifecycle_leak [where sfx = "''Ab3dEf''" and ms = "[]" and fd = 4 and fds = "[]" and bs = "[]" and ls = "[]"
          and dir = "''./''"])
      (simp_all add: ex_ctx0_def default_dir_def compute_libs_size_def MAP_EVENTS_def lib_name_def LIB_SUFFIX_def VOYEUR_EVENT_MAX_def)
  then show ?thesis by (simp add: numeral_2_eq_2)
qed

end
