(* ===== verification/Server.thy ===== *)
theory Server
  imports Host
begin

text \<open>
  The observer's server, the rest of \<open>src/voyeur.c\<close>: the thread that waits for the child, the loop
  around \<open>select\<close> that accepts connections and reads messages, and the entry points
  \<open>voyeur_start\<close> and \<open>voyeur_exec\<close>. A set of descriptors is a set of integers below
  \<open>FD_SETSIZE\<close>; what \<open>select\<close> answers is read off the script \<open>selects\<close>.
\<close>

unbundle bit_operations_syntax

section \<open>The thread that waits for the child\<close>

text \<open>What was written to one end of a pipe is what the other end delivers.\<close>

definition pipe_deliver :: "int \<Rightarrow> int \<Rightarrow> (unit, 'z sys_scheme) io" where
  "pipe_deliver r w s = Ok () (s\<lparr>fdt := (fdt s)(r := map_option (\<lambda>d. d\<lparr>inp := written w s\<rparr>) (fdt s r))\<rparr>)"

text \<open>
  The thread runs detached from the server and shares nothing with it but the pipe; as the reading
  end's bytes are all that it will ever deliver, the thread can be run before the server. \<open>waits\<close> is the
  status \<open>waitpid\<close> reports for a child.
\<close>

definition waitpid_thread :: "(pid_t \<Rightarrow> cint) \<Rightarrow> int \<Rightarrow> pid_t \<Rightarrow> int \<Rightarrow> (unit, 'z sys_scheme) io" where
  "waitpid_thread waits r child_pid child_pipe_input =
     (let status = waits child_pid in
      io_then (io_ignore (voyeur_write_int child_pipe_input status))
      (io_then (pipe_deliver r child_pipe_input)
      (io_then (voyeur_close_socket child_pipe_input)
       sys_free)))"

definition start_waitpid_thread :: "(pid_t \<Rightarrow> cint) \<Rightarrow> pid_t \<Rightarrow> (int, 'z host_scheme) io" where
  "start_waitpid_thread waits child_pid =
     io_bind (ABORT_ON_FAIL sys_pipe) (\<lambda>(r, w).
     io_bind (sys_malloc 8) (\<lambda>ok.
     if \<not> ok then io_fault
     else io_then (waitpid_thread waits r child_pid w) (io_ret r)))"

section \<open>Connections and messages\<close>

definition accept_connection :: "(int, 'z host_scheme) io" where
  "accept_connection =
     io_bind sys_accept (\<lambda>client_sock.
     io_then (WARN_ON_FAIL_VALUE client_sock) (io_ret client_sock))"

definition handle_message :: "'c voyeur_context_scheme \<Rightarrow> int \<Rightarrow> (unit, 'z observer_scheme) io" where
  "handle_message context sock =
     io_bind (voyeur_read_msg_type sock) (\<lambda>msgtype.
     if msgtype = msg_type_val VOYEUR_MSG_DONE then io_fail
     else if msgtype = msg_type_val VOYEUR_MSG_EVENT then
       io_bind (voyeur_read_event_type sock) (\<lambda>type.
       io_then (voyeur_handle_event context type sock) (io_ret ()))
     else io_fail)"

section \<open>The loop\<close>

definition FD_SETSIZE :: int where
  "FD_SETSIZE = 1024"

definition all_fds :: "int list" where
  "all_fds = [0..FD_SETSIZE - 1]"

text \<open>Setting a bit outside the set is undefined behaviour.\<close>

definition FD_SET :: "int \<Rightarrow> int set \<Rightarrow> (int set, 's) io" where
  "FD_SET fd S = (if 0 \<le> fd \<and> fd < FD_SETSIZE then io_ret (insert fd S) else io_fault)"

text \<open>
  \<open>voyeur_read_int(fd, &child_status)\<close> with its result dropped: when it fails, the bytes that did
  arrive have overwritten the beginning of the old value.
\<close>

definition read_status :: "int \<Rightarrow> cint \<Rightarrow> (cint, 'z sys_scheme) io" where
  "read_status fd old s = (case voyeur_read_int fd s of
       Fail s' \<Rightarrow>
         (let got = take (length (pending fd s) - length (pending fd s')) (pending fd s)
          in Ok (as32 (got @ drop (length got) (obj32 old))) s')
     | r \<Rightarrow> r)"

text \<open>\<open>active_fd_set\<close>, \<open>child_exited\<close> and \<open>child_status\<close>.\<close>

type_synonym loop_state = "int set \<times> bool \<times> cint"

text \<open>The body of the inner loop for one descriptor; \<open>rd\<close> and \<open>er\<close> are what \<open>select\<close> left.\<close>

definition serve_fd :: "'c voyeur_context_scheme \<Rightarrow> int \<Rightarrow> int \<Rightarrow> int set \<Rightarrow> int set \<Rightarrow> int
    \<Rightarrow> loop_state \<Rightarrow> (loop_state, 'z host_scheme) io" where
  "serve_fd context listener child_pipe_output rd er fd = (\<lambda>(active, child_exited, child_status).
     if fd \<in> er then
       io_then (voyeur_close_socket fd) (io_ret (active - {fd}, child_exited, child_status))
     else if fd \<in> rd then
       (if fd = listener then
          io_bind accept_connection (\<lambda>client_sock.
          if client_sock \<ge> 0 then
            io_bind (FD_SET client_sock active) (\<lambda>active'. io_ret (active', child_exited, child_status))
          else io_ret (active, child_exited, child_status))
        else if fd = child_pipe_output then
          io_bind (read_status fd child_status) (\<lambda>status'.
          io_then (voyeur_close_socket fd) (io_ret (active - {fd}, True, status')))
        else
          io_on_fail (io_then (handle_message context fd) (io_ret (active, child_exited, child_status)))
            (io_then (voyeur_close_socket fd) (io_ret (active - {fd}, child_exited, child_status))))
     else io_ret (active, child_exited, child_status))"

fun serve_fds :: "'c voyeur_context_scheme \<Rightarrow> int \<Rightarrow> int \<Rightarrow> int set \<Rightarrow> int set \<Rightarrow> int list
    \<Rightarrow> loop_state \<Rightarrow> (loop_state, 'z host_scheme) io" where
  "serve_fds ctx srv pipe rd er [] st = io_ret st"
| "serve_fds ctx srv pipe rd er (fd # fds) st =
     io_bind (serve_fd ctx srv pipe rd er fd st) (serve_fds ctx srv pipe rd er fds)"

text \<open>
  The outer loop over the answers of \<open>select\<close>, which reports active descriptors only; without an
  answer the call never returns.
\<close>

fun run_loop :: "'c voyeur_context_scheme \<Rightarrow> int \<Rightarrow> int \<Rightarrow> select_answer list
    \<Rightarrow> loop_state \<Rightarrow> (loop_state, 'z host_scheme) io" where
  "run_loop ctx srv pipe [] (active, child_exited, child_status) =
     (if child_exited then io_ret (active, child_exited, child_status) else (\<lambda>s. Blocked))"
| "run_loop ctx srv pipe (SelectErr e # sels) (active, child_exited, child_status) =
     (if child_exited then io_ret (active, child_exited, child_status)
      else if e = EAGAIN \<or> e = EINTR then run_loop ctx srv pipe sels (active, child_exited, child_status)
      else io_ret (active, child_exited, child_status))"
| "run_loop ctx srv pipe (Ready rd er # sels) (active, child_exited, child_status) =
     (if child_exited then io_ret (active, child_exited, child_status)
      else io_bind (serve_fds ctx srv pipe (rd \<inter> active) (er \<inter> active) all_fds
                      (active, child_exited, child_status))
             (run_loop ctx srv pipe sels))"

text \<open>\<open>WIFEXITED(status) ? WEXITSTATUS(status) : -1\<close>\<close>

definition exit_code :: "cint \<Rightarrow> int" where
  "exit_code status =
     (if status AND 0x7F = 0 then sint (drop_bit 8 (status AND 0xFF00)) else -1)"

definition run_server :: "'c voyeur_context_scheme \<Rightarrow> int \<Rightarrow> int \<Rightarrow> (int, 'z host_scheme) io" where
  "run_server context listener child_pipe_output =
     io_bind (FD_SET listener {}) (\<lambda>active0.
     io_bind (FD_SET child_pipe_output active0) (\<lambda>active1.
     io_bind (io_get selects) (\<lambda>sels.
     io_bind (run_loop context listener child_pipe_output sels (active1, False, 0)) (\<lambda>(active, _, child_status).
     io_then (voyeur_close_socket listener)
     (io_then (io_each voyeur_close_socket (filter (\<lambda>fd. fd \<in> active) all_fds))
     (io_ret (exit_code child_status)))))))"

section \<open>Entry points\<close>

text \<open>The results are the exit status and the context.\<close>

definition voyeur_start :: "(pid_t \<Rightarrow> cint) \<Rightarrow> 'c voyeur_context_scheme \<Rightarrow> pid_t
    \<Rightarrow> (int \<times> 'c voyeur_context_scheme, 'z host_scheme) io" where
  "voyeur_start waits context child_pid = (case server_state context of
       None \<Rightarrow> io_fault
     | Some state \<Rightarrow>
         io_bind (start_waitpid_thread waits child_pid) (\<lambda>child_pipe_output.
         io_bind (run_server context (server_sock state) child_pipe_output) (\<lambda>res.
         io_then (WARN_ON_FAIL (sys_unlink (sun_path state)))
         (let dir = (case strrchr (sun_path state) (CHR ''/'') of
                       None \<Rightarrow> sun_path state | Some last_slash \<Rightarrow> take last_slash (sun_path state))
          in io_then (WARN_ON_FAIL (sys_rmdir dir))
               (io_ret (res, context\<lparr>server_state := Some (state\<lparr>sun_path := dir\<rparr>)\<rparr>))))))"

definition voyeur_exec :: "(pid_t \<Rightarrow> cint) \<Rightarrow> string option \<Rightarrow> char list \<Rightarrow> 'c voyeur_context_scheme
    \<Rightarrow> string \<Rightarrow> string list \<Rightarrow> string list \<Rightarrow> (int \<times> 'c voyeur_context_scheme, 'z host_scheme) io" where
  "voyeur_exec waits dli_fname behind context path argv envp =
     io_bind (voyeur_prepare dli_fname behind context envp) (\<lambda>(voyeur_envp, context1).
     case voyeur_envp of
       None \<Rightarrow> io_ret (-1, context1)
     | Some env \<Rightarrow>
         io_bind (io_on_fail (io_bind (sys_spawnp path argv env) (\<lambda>pid. io_ret (Some pid))) (io_ret None)) (\<lambda>child.
         case child of
           None \<Rightarrow> io_then sys_free (io_ret (-1, context1))
         | Some child_pid \<Rightarrow>
             io_bind (voyeur_start waits context1 child_pid) (\<lambda>(retval, context2).
             io_then sys_free (io_ret (retval, context2)))))"

section \<open>Messages\<close>

lemma handle_message_handles:
  assumes "event_wf ev"
  shows "handles (handle_message ctx fd) fd (enc_msg (event_opts ctx (event_type ev)) ev)
    (\<lambda>p. calls_of (event_cb ctx (event_type ev))
       (event_args p (event_opts ctx (event_type ev)) ev) (event_userdata ctx (event_type ev)))
    (\<lambda>l. l + event_leak (event_opts ctx (event_type ev)) ev) (event_need ev)"
proof -
  let ?h = "voyeur_handle_event ctx (event_type_val (event_type ev)) fd"
  have "io_then ?h (io_ret ()) s = ?h s" for s
    by (cases "?h s") (simp_all add: io_then_def io_bind_def)
  then have h: "io_then ?h (io_ret ()) = ?h" by (rule ext)
  show ?thesis
    unfolding handle_message_def enc_msg_def
    by (rule handles_mono, rule handles_bind, rule msg_type_codec.get_parses [where v = VOYEUR_MSG_EVENT])
      (simp add: h del: event_type_val.simps,
        rule handles_bind, rule event_type_codec.get_parses [where v = "event_type ev"],
        simp only: h, rule handle_event_handles [OF assms], simp_all)
qed

end
