(* ===== verification/Serving.thy ===== *)
theory Serving
  imports Server
begin

text \<open>
  What the server loop does for every script of the kernel's answers: it closes every descriptor it
  opened, it calls registered callbacks only, and the exit status it reports is always 0.
\<close>

section \<open>One descriptor\<close>

lemma only_reads_handle_event: "keeps (only_reads fd) (voyeur_handle_event ctx ty fd)"
  by (rule keepsI) (blast dest: handle_event_frame)

lemma keeps_handle_message: "keeps (only_reads fd) (handle_message ctx fd)"
  unfolding handle_message_def
  by (intro only_reads.keeps_bind only_reads.keeps_read_types)
    (auto intro!: only_reads.keeps_rules only_reads.keeps_read_types only_reads_handle_event)

lemma sys_accept_cases:
  assumes "sys_accept s = Ok client s'"
  obtains (none) cs where "client < 0" "s' = s\<lparr>incoming := cs\<rparr>"
  | (new) d cs where "0 \<le> client" "fdt s client = None"
      "s' = s\<lparr>incoming := cs, fdt := (fdt s)(client \<mapsto> d)\<rparr>"
proof (cases "incoming s")
  case Nil
  with assms have "client < 0" "s' = s\<lparr>incoming := incoming s\<rparr>" by (auto simp: sys_accept_def)
  then show ?thesis by (rule none)
next
  case (Cons c cs)
  obtain fd bs op where c: "c = (fd, bs, op)" by (cases c)
  show ?thesis
  proof (cases "0 \<le> fd \<and> fdt s fd = None")
    case True
    then show ?thesis using assms Cons c by (intro new) (auto simp: sys_accept_def Let_def)
  next
    case False
    then show ?thesis using assms Cons c by (intro none) (auto simp: sys_accept_def Let_def split: if_splits)
  qed
qed

lemma serve_fd_cases:
  assumes "serve_fd ctx srv pipe rd er fd (A, x, c) s = Ok st' s'"
  obtains (idle) "fd \<notin> rd \<union> er" "st' = (A, x, c)" "s' = s"
  | (shut) t where "fd \<in> rd \<union> er" "fd \<in> er \<or> fd \<noteq> srv \<and> fd \<noteq> pipe"
      "t = s \<or> handle_message ctx fd s = Fail t"
      "voyeur_close_socket fd t = Ok () s'" "st' = (A - {fd}, x, c)"
  | (child) v t where "fd = pipe" "fd \<noteq> srv" "fd \<in> rd" "read_status fd c s = Ok v t"
      "voyeur_close_socket fd t = Ok () s'" "st' = (A - {fd}, True, v)"
  | (refused) cs where "fd = srv" "st' = (A, x, c)" "s' = s\<lparr>incoming := cs\<rparr>"
  | (accepted) client d cs where "fd = srv" "fd \<in> rd" "0 \<le> client" "client < FD_SETSIZE" "fdt s client = None"
      "st' = (insert client A, x, c)" "s' = s\<lparr>incoming := cs, fdt := (fdt s)(client \<mapsto> d)\<rparr>"
  | (message) "fd \<in> rd" "fd \<noteq> srv" "fd \<noteq> pipe" "handle_message ctx fd s = Ok () s'" "st' = (A, x, c)"
proof (cases "fd \<in> er")
  case True
  with assms show ?thesis by (intro shut [of s]) (auto simp: serve_fd_def io_then_Ok_iff)
next
  case er: False
  show ?thesis
  proof (cases "fd \<in> rd")
    case False
    with assms er show ?thesis by (intro idle) (auto simp: serve_fd_def)
  next
    case rd: True
    consider "fd = srv" | "fd \<noteq> srv" "fd = pipe" | "fd \<noteq> srv" "fd \<noteq> pipe" by blast
    then show ?thesis
    proof cases
      case 1
      from assms er rd 1 obtain client u v where a: "sys_accept s = Ok client u"
        "WARN_ON_FAIL_VALUE client u = Ok () v"
        and k: "(if client \<ge> 0 then io_bind (FD_SET client A) (\<lambda>A'. io_ret (A', x, c)) else io_ret (A, x, c)) v = Ok st' s'"
        by (auto simp: serve_fd_def accept_connection_def io_bind_Ok_iff io_then_Ok_iff)
      from a(2) have v: "v = u" by (auto simp: WARN_ON_FAIL_VALUE_def split: if_splits)
      from a(1) show ?thesis
      proof (cases rule: sys_accept_cases)
        case (none cs)
        with k v 1 show ?thesis by (intro refused) auto
      next
        case (new d cs)
        with k v 1 rd show ?thesis
          by (intro accepted [of client d cs]) (auto simp: FD_SET_def io_bind_def split: if_splits)
      qed
    next
      case 2
      with assms er rd show ?thesis
        by (auto simp: serve_fd_def io_bind_Ok_iff io_then_Ok_iff intro: child)
    next
      case 3
      with assms er rd consider "handle_message ctx fd s = Ok () s'" "st' = (A, x, c)"
        | t where "handle_message ctx fd s = Fail t" "voyeur_close_socket fd t = Ok () s'" "st' = (A - {fd}, x, c)"
        by (auto simp: serve_fd_def io_on_fail_Ok_iff io_then_Ok_iff io_then_def io_bind_def split: res.splits)
      then show ?thesis using 3 rd by cases (auto intro: message shut)
    qed
  qed
qed

section \<open>Invariants of the loops\<close>

lemma serve_fds_inv:
  assumes "serve_fds ctx srv pipe rd er fds st s = Ok st' s'" and "P fds st s"
    and "\<And>fd fds st s st' s'. P (fd # fds) st s \<Longrightarrow> serve_fd ctx srv pipe rd er fd st s = Ok st' s' \<Longrightarrow> P fds st' s'"
  shows "P [] st' s'"
  using assms(1,2)
proof (induction fds arbitrary: st s)
  case Nil
  then show ?case by simp
next
  case (Cons fd fds)
  then obtain st1 s1 where "serve_fd ctx srv pipe rd er fd st s = Ok st1 s1"
    "serve_fds ctx srv pipe rd er fds st1 s1 = Ok st' s'" by (auto simp: io_bind_Ok_iff)
  with Cons assms(3) show ?case by blast
qed

lemma run_loop_inv:
  assumes "run_loop ctx srv pipe sels st s = Ok st' s'" and "I st s"
    and "\<And>rd er A c s st' s'. Ready rd er \<in> set sels \<Longrightarrow> I (A, False, c) s \<Longrightarrow>
      serve_fds ctx srv pipe (rd \<inter> A) (er \<inter> A) all_fds (A, False, c) s = Ok st' s' \<Longrightarrow> I st' s'"
  shows "I st' s'"
  using assms
proof (induction ctx srv pipe sels st arbitrary: s rule: run_loop.induct)
  case (1 ctx srv pipe A x c)
  then show ?case by (auto split: if_splits)
next
  case (2 ctx srv pipe e sels A x c)
  then show ?case by (auto split: if_splits)
next
  case (3 ctx srv pipe rd er sels A x c)
  show ?case
  proof (cases x)
    case True
    with 3 show ?thesis by auto
  next
    case False
    with "3.prems"(1) obtain st1 s1 where
      h: "serve_fds ctx srv pipe (rd \<inter> A) (er \<inter> A) all_fds (A, False, c) s = Ok st1 s1"
        "run_loop ctx srv pipe sels st1 s1 = Ok st' s'"
      by (auto simp: io_bind_Ok_iff)
    from "3.prems"(2) False have "I (A, False, c) s" by simp
    from "3.prems"(3) [OF _ this h(1)] have "I st1 s1" by simp
    with "3.IH" [of st1] False h(2) "3.prems"(3) show ?thesis by (meson list.set_intros(2))
  qed
qed

lemma all_fds_iff [simp]: "fd \<in> set all_fds \<longleftrightarrow> 0 \<le> fd \<and> fd < FD_SETSIZE"
  by (auto simp: all_fds_def)

lemma distinct_all_fds: "distinct all_fds"
  by (simp add: all_fds_def)

lemma run_server_Ok_iff:
  assumes "run_server ctx srv pipe s = Ok r s'"
  obtains A x c t where "srv \<in> set all_fds" "pipe \<in> set all_fds"
    "run_loop ctx srv pipe (selects s) ({srv, pipe}, False, 0) s = Ok (A, x, c) t"
    "io_then (voyeur_close_socket srv)
       (io_each voyeur_close_socket (filter (\<lambda>fd. fd \<in> A) all_fds)) t = Ok () s'" "r = exit_code c"
proof -
  from assms have in_set: "srv \<in> set all_fds" "pipe \<in> set all_fds"
    by (auto simp: run_server_def FD_SET_def io_bind_def split: if_splits)
  with assms obtain A x c t where
    "run_loop ctx srv pipe (selects s) (insert pipe {srv}, False, 0) s = Ok (A, x, c) t"
    "io_then (voyeur_close_socket srv) (io_then (io_each voyeur_close_socket (filter (\<lambda>fd. fd \<in> A) all_fds))
       (io_ret (exit_code c))) t = Ok r s'"
    by (auto simp: run_server_def FD_SET_def io_bind_Ok_iff)
  with in_set that [of A x c t] show ?thesis by (auto simp: io_then_Ok_iff insert_commute)
qed

text \<open>A frame that every operation of the loop stays in, under a context.\<close>

locale loop_frame = io_frame R
  for R :: "'z host_scheme \<Rightarrow> 'z host_scheme \<Rightarrow> bool" +
  fixes ctx :: "'c voyeur_context_scheme"
  assumes R_message: "keeps R (handle_message ctx fd)"
    and R_status: "read_status fd c s = Ok v t \<Longrightarrow> R s t"
    and R_close: "R s (s\<lparr>close_errs := es, closed := cl, fdt := f\<rparr>)"
    and R_accept: "R s (s\<lparr>incoming := cs, fdt := f\<rparr>)"
begin

lemma R_close_socket: "voyeur_close_socket fd s = Ok () t \<Longrightarrow> R s t"
  using close_socket_effect [of fd s] R_close by auto

lemma serve_fd_R:
  assumes "serve_fd ctx srv pipe rd er fd (A, x, c) s = Ok st' s'"
  shows "R s s'"
  using assms
proof (cases rule: serve_fd_cases)
  case (shut t)
  have "R s t" using shut(3) keepsD [OF R_message, of fd s t] R_refl by auto
  then show ?thesis using R_close_socket [OF shut(4)] by (rule R_trans)
next
  case (child v t)
  from R_status [OF child(4)] R_close_socket [OF child(5)] show ?thesis by (rule R_trans)
next
  case (refused cs)
  then show ?thesis using R_accept [where s = s and cs = cs and f = "fdt s"] by simp
next
  case message
  then show ?thesis using keepsD [OF R_message, of fd s s'] by simp
qed (use R_refl R_accept in auto)

lemma run_loop_R:
  assumes "run_loop ctx srv pipe sels st s = Ok st' s'"
  shows "R s s'"
  using assms
proof (rule run_loop_inv [where I = "\<lambda>_. R s"])
  show "R s s" by (rule R_refl)
next
  fix rd er A c t st' t'
  assume I: "R s t" and pass: "serve_fds ctx srv pipe (rd \<inter> A) (er \<inter> A) all_fds (A, False, c) t = Ok st' t'"
  show "R s t'"
    using pass
  proof (rule serve_fds_inv [where P = "\<lambda>_ _. R s"])
    fix fd st u st' u'
    assume "R s u" "serve_fd ctx srv pipe (rd \<inter> A) (er \<inter> A) fd st u = Ok st' u'"
    then show "R s u'" by (cases st) (blast intro: R_trans serve_fd_R)
  qed (rule I)
qed

lemma close_each_R: "io_each voyeur_close_socket fds s = Ok () t \<Longrightarrow> R s t"
proof (induction fds arbitrary: s)
  case Nil
  then show ?case by (simp add: R_refl)
next
  case (Cons fd fds)
  then show ?case by (auto simp: io_then_Ok_iff intro: R_trans R_close_socket)
qed

lemma run_server_R:
  assumes "run_server ctx srv pipe s = Ok r s'"
  shows "R s s'"
  using assms
proof (cases rule: run_server_Ok_iff)
  case (1 A x c t)
  from 1(4) obtain u where "voyeur_close_socket srv t = Ok () u"
    "io_each voyeur_close_socket (filter (\<lambda>fd. fd \<in> A) all_fds) u = Ok () s'"
    by (auto simp: io_then_Ok_iff)
  with run_loop_R [OF 1(3)] show ?thesis by (blast intro: R_trans R_close_socket close_each_R)
qed

end

section \<open>Every descriptor is closed\<close>

text \<open>
  The descriptors outside the active set are as in \<open>base\<close>, which has none of the active ones.
\<close>

definition owns :: "(int \<Rightarrow> fdesc option) \<Rightarrow> int set \<Rightarrow> 'z sys_scheme \<Rightarrow> bool" where
  "owns base A s \<longleftrightarrow> close_errs s = [] \<and> A \<subseteq> set all_fds
     \<and> (\<forall>g. g \<notin> A \<longrightarrow> fdt s g = base g) \<and> (\<forall>g \<in> A. base g = None)"

lemma owns_reads: "owns base A s \<Longrightarrow> only_reads fd s t \<Longrightarrow> fd \<in> A \<Longrightarrow> owns base A t"
  unfolding owns_def only_reads_def by metis

lemma owns_close: "owns base A s \<Longrightarrow> voyeur_close_socket fd s = Ok () t \<Longrightarrow> fd \<in> A \<Longrightarrow> owns base (A - {fd}) t"
  by (auto simp: owns_def)

lemma only_reads_read_status: "read_status fd c s = Ok v t \<Longrightarrow> only_reads fd s t"
  using keepsD [OF only_reads.keeps_read_int, of fd s]
  by (auto simp: read_status_def Let_def split: res.splits)

lemma only_reads_message: "handle_message ctx fd s = Fail t \<Longrightarrow> only_reads fd s t"
  "handle_message ctx fd s = Ok u t \<Longrightarrow> only_reads fd s t"
  using keepsD [OF keeps_handle_message, of ctx fd s t] by simp_all

lemma serve_fd_owns:
  assumes "serve_fd ctx srv pipe rd er fd (A, x, c) s = Ok st' s'"
    and "owns base A s" and "fd \<in> rd \<union> er \<Longrightarrow> fd \<in> A"
  shows "owns base (fst st') s' \<and> A - {fd} \<subseteq> fst st'"
  using assms(1)
proof (cases rule: serve_fd_cases)
  case idle
  with assms show ?thesis by auto
next
  case (shut t)
  then have fd: "fd \<in> A" using assms(3) by blast
  then have "owns base A t" using shut(3) assms(2) owns_reads only_reads_message(1) by blast
  with shut fd show ?thesis by (auto dest: owns_close)
next
  case (child v t)
  then have fd: "fd \<in> A" using assms(3) by blast
  with child assms(2) have "owns base A t" by (blast intro: owns_reads only_reads_read_status)
  with child fd show ?thesis by (auto dest: owns_close)
next
  case (refused cs)
  with assms(2) show ?thesis by (auto simp: owns_def)
next
  case (accepted client d cs)
  moreover from this assms(2) have "base client = None"
    by (cases "client \<in> A") (auto simp: owns_def)
  ultimately show ?thesis using assms(2) by (auto simp: owns_def)
next
  case message
  with assms(2,3) show ?thesis by (auto intro: owns_reads only_reads_message)
qed

lemma run_loop_owns:
  assumes "run_loop ctx srv pipe sels st s = Ok st' s'" and "owns base (fst st) s"
  shows "owns base (fst st') s'"
  using assms
proof (rule run_loop_inv [where I = "\<lambda>st s. owns base (fst st) s"])
  fix rd er A c s st' s'
  assume I: "owns base (fst (A, False, c)) s"
    and pass: "serve_fds ctx srv pipe (rd \<inter> A) (er \<inter> A) all_fds (A, False, c) s = Ok st' s'"
  let ?R = "rd \<inter> A \<union> er \<inter> A"
  let ?P = "\<lambda>fds st s. owns base (fst st) s \<and> (\<forall>g \<in> set fds \<inter> ?R. g \<in> fst st) \<and> distinct fds"
  have "?P [] st' s'"
    using pass
  proof (rule serve_fds_inv [where P = ?P])
    show "?P all_fds (A, False, c) s" using I distinct_all_fds by auto
  next
    fix fd fds st s st' s'
    assume P: "?P (fd # fds) st s"
      and step: "serve_fd ctx srv pipe (rd \<inter> A) (er \<inter> A) fd st s = Ok st' s'"
    obtain B x c' where st: "st = (B, x, c')" by (cases st)
    from serve_fd_owns [OF step [unfolded st]] P st
    show "?P fds st' s'" by auto
  qed
  then show "owns base (fst st') s'" by simp
qed

lemma close_all:
  "close_errs s = [] \<Longrightarrow> \<exists>t. io_each voyeur_close_socket fds s = Ok () t
     \<and> fdt t = (\<lambda>g. if g \<in> set fds then None else fdt s g)"
proof (induction fds arbitrary: s)
  case Nil
  then show ?case by simp
next
  case (Cons fd fds)
  from Cons.IH [of "close_fd fd s"] Cons.prems show ?case by (auto simp: fun_eq_iff)
qed

lemma run_server_fdt:
  assumes "run_server ctx srv pipe s = Ok r s'" and "close_errs s = []"
  shows "fdt s' = (fdt s)(srv := None, pipe := None)"
  using assms(1)
proof (cases rule: run_server_Ok_iff)
  case (1 A x c t)
  let ?base = "(fdt s)(srv := None, pipe := None)"
  have "owns ?base (fst ({srv, pipe}, False, 0 :: cint)) s"
    using 1(1,2) assms(2) by (auto simp: owns_def)
  from run_loop_owns [OF 1(3) this] have own: "owns ?base A t" by simp
  then have q: "close_errs t = []" by (simp add: owns_def)
  let ?L = "filter (\<lambda>fd. fd \<in> A) all_fds"
  from q have "close_errs (close_fd srv t) = []" by simp
  from close_all [OF this, of ?L] obtain u where
    u: "io_each voyeur_close_socket ?L (close_fd srv t) = Ok () u"
      "fdt u = (\<lambda>g. if g \<in> set ?L then None else fdt (close_fd srv t) g)" by blast
  have "io_then (voyeur_close_socket srv) (io_each voyeur_close_socket ?L) t = Ok () u"
    using io_then_Ok [of "voyeur_close_socket srv" t, OF close_socket_quiet [OF q]] u(1) by metis
  with 1(4) have "s' = u" by (simp only: res.inject)
  with u(2) have "fdt s' = (\<lambda>g. if g \<in> set ?L then None else fdt (close_fd srv t) g)" by simp
  moreover have "fdt t g = ?base g" if "g \<notin> A" for g using own that unfolding owns_def by blast
  moreover have "g \<in> set ?L \<and> ?base g = None" if "g \<in> A" for g using own that by (auto simp: owns_def)
  ultimately have "fdt s' g = ?base g" for g by (cases "g \<in> A") auto
  then show ?thesis by (rule ext)
qed

text \<open>
  C7: when the server loop returns, every descriptor it accepted, the listening socket and the end of
  the pipe are closed, and no other descriptor of the process was touched, whatever connected, whatever
  was sent and in whatever order \<open>select\<close> reported it.
\<close>

theorem run_server_closes_all:
  assumes "run_server ctx srv pipe s = Ok r s'" and "close_errs s = []"
  shows "fdt s' = (fdt s)(srv := None, pipe := None)"
  using assms by (rule run_server_fdt)

section \<open>The exit status\<close>

text \<open>Nothing was written to the pipe, and its other end is closed.\<close>

definition dry :: "int \<Rightarrow> 'z sys_scheme \<Rightarrow> bool" where
  "dry fd s = (\<exists>d. fdt s fd = Some d \<and> inp d = [])"

lemma dry_close: "dry g s \<Longrightarrow> voyeur_close_socket fd s = Ok () t \<Longrightarrow> g \<noteq> fd \<Longrightarrow> dry g t"
  using close_socket_effect [of fd s] by (auto simp: dry_def)

lemma dry_reads: "dry g s \<Longrightarrow> only_reads fd s t \<Longrightarrow> g \<noteq> fd \<Longrightarrow> dry g t"
  by (simp add: dry_def only_reads_def)

text \<open>Reading the status from such a pipe fails and leaves the variable as it was.\<close>

lemma read_status_dry:
  assumes "dry fd s" and "read_status fd c s = Ok v t"
  shows "v = c"
proof -
  have p: "pending fd s = []" using assms(1) by (auto simp: dry_def pending_def)
  have out: "case do_read fd 4 s of
      Ok bs s' \<Rightarrow> unat (4 :: size_t) \<le> length (pending fd s)
    | Fail s' \<Rightarrow> True | Blocked \<Rightarrow> True | Fault \<Rightarrow> False | Exited _ \<Rightarrow> False"
    using do_read_loop_outcome [where n = 4 and t = 0 and fd = fd and buf = "[]" and s = s] by (auto simp: do_read_def split: res.splits)
  then have "\<nexists>bs u. do_read fd 4 s = Ok bs u" using p by auto
  then have "\<nexists>w u. voyeur_read_int fd s = Ok w u" by (auto simp: voyeur_read_int_def io_bind_Ok_iff)
  with assms(2) p show ?thesis by (auto simp: read_status_def Let_def split: res.splits)
qed

lemma serve_fd_status:
  assumes "serve_fd ctx srv pipe rd er fd (A, x, c) s = Ok (A', x', c') s'"
    and "fd = pipe \<or> \<not> x \<Longrightarrow> dry pipe s" and "pipe \<notin> er"
  shows "c' = c \<and> (fd \<noteq> pipe \<longrightarrow> x' = x) \<and> (\<not> x' \<longrightarrow> dry pipe s')"
  using assms(1)
proof (cases rule: serve_fd_cases)
  case idle
  with assms(2) show ?thesis by auto
next
  case (shut t)
  have ne: "fd \<noteq> pipe" using shut(2) assms(3) by blast
  have "dry pipe s'" if "\<not> x"
  proof -
    have "dry pipe t" using shut(3) assms(2) that ne dry_reads only_reads_message(1) by blast
    with shut(4) ne show ?thesis by (auto intro: dry_close)
  qed
  with shut(5) ne show ?thesis by auto
next
  case (child v t)
  from read_status_dry [OF _ child(4)] assms(2) child(1) have "v = c" by simp
  with child show ?thesis by auto
next
  case (refused cs)
  with assms(2) show ?thesis by (auto simp: dry_def)
next
  case (accepted client d cs)
  with assms(2) show ?thesis by (auto simp: dry_def)
next
  case message
  then have "dry pipe s'" if "\<not> x"
    using assms(2) that dry_reads only_reads_message(2) by blast
  with message show ?thesis by auto
qed

lemma run_loop_status:
  assumes "run_loop ctx srv pipe sels st s = Ok st' s'"
    and "snd (snd st) = 0" and "\<not> fst (snd st) \<Longrightarrow> dry pipe s"
    and "\<And>rd er. Ready rd er \<in> set sels \<Longrightarrow> pipe \<notin> er"
  shows "snd (snd st') = 0"
proof -
  let ?I = "\<lambda>st s. snd (snd st) = 0 \<and> (\<not> fst (snd st) \<longrightarrow> dry pipe s)"
  have "?I st' s'"
    using assms(1)
  proof (rule run_loop_inv [where I = ?I])
    show "?I st s" using assms(2,3) by simp
  next
    fix rd er A c s st' s'
    assume er: "Ready rd er \<in> set sels" and I: "?I (A, False, c) s"
      and pass: "serve_fds ctx srv pipe (rd \<inter> A) (er \<inter> A) all_fds (A, False, c) s = Ok st' s'"
    let ?P = "\<lambda>fds st s. snd (snd st) = 0 \<and> (pipe \<in> set fds \<longrightarrow> \<not> fst (snd st))
       \<and> (\<not> fst (snd st) \<longrightarrow> dry pipe s) \<and> distinct fds"
    have "?P [] st' s'"
      using pass
    proof (rule serve_fds_inv [where P = ?P])
      show "?P all_fds (A, False, c) s" using I distinct_all_fds by simp
    next
      fix fd fds st s st' s'
      assume P: "?P (fd # fds) st s"
        and step: "serve_fd ctx srv pipe (rd \<inter> A) (er \<inter> A) fd st s = Ok st' s'"
      obtain B x k where st: "st = (B, x, k)" by (cases st)
      obtain B' x' k' where st': "st' = (B', x', k')" by (cases st')
      have "fd = pipe \<or> \<not> x \<Longrightarrow> dry pipe s" "pipe \<notin> er \<inter> A"
        using P st assms(4) [OF er] by auto
      from serve_fd_status [OF step [unfolded st st'] this] P
      show "?P fds st' s'" by (auto simp: st st')
    qed
    then show "?I st' s'" by simp
  qed
  then show ?thesis by simp
qed

text \<open>\<open>send\<close> on a pipe is an error, so the thread writes nothing and the server reads nothing.\<close>

lemma write_int_pipe:
  assumes "fdt s w = Some d" and "fd_kind d = Pipe"
  shows "voyeur_write_int w v s = Fail s"
  using assms
  by (simp add: voyeur_write_int_def do_write_def do_write_loop.simps [of w _ _ 0] sys_send_def)

lemma start_waitpid_dry:
  assumes "start_waitpid_thread waits pid s = Ok r s'"
  shows "dry r s' \<and> r = fst (hd (new_pipes s)) \<and> selects s' = selects s
    \<and> files s' = files s \<and> dirs s' = dirs s \<and> debug s' = debug s \<and> calls s' = calls s"
proof -
  from assms obtain w s1 s2 where p: "sys_pipe s = Ok (r, w) s1"
    and m: "sys_malloc 8 s1 = Ok True s2" and t: "waitpid_thread waits r pid w s2 = Ok () s'"
    by (auto simp: start_waitpid_thread_def ABORT_ON_FAIL_def io_bind_Ok_iff io_on_fail_Ok_iff io_then_Ok_iff
        split: if_splits)
  let ?d = "\<lparr>fd_kind = Pipe, sent = [], inp = [], peer_open = False\<rparr> :: fdesc"
  from p have s1: "s1 = s\<lparr>new_pipes := tl (new_pipes s), fdt := (fdt s)(r \<mapsto> ?d, w \<mapsto> ?d)\<rparr>"
    "r \<noteq> w" "r = fst (hd (new_pipes s))"
    by (auto simp: sys_pipe_def Let_def split: list.splits prod.splits if_splits)
  let ?s2 = "s1\<lparr>live := live s1 + 1\<rparr>"
  from m have s2: "s2 = ?s2" by (auto simp: sys_malloc_def split: if_splits)
  have "voyeur_write_int w (waits pid) ?s2 = Fail ?s2"
    using s1(1) by (intro write_int_pipe [where d = ?d]) simp_all
  then have wr: "io_ignore (voyeur_write_int w (waits pid)) ?s2 = Ok () ?s2" by (simp add: io_ignore_def)
  let ?s3 = "?s2\<lparr>fdt := (fdt ?s2)(r \<mapsto> ?d)\<rparr>"
  have dl: "pipe_deliver r w ?s2 = Ok () ?s3"
    using s1(1,2) by (simp add: pipe_deliver_def written_def)
  obtain es cl f where cl: "voyeur_close_socket w ?s3 = Ok () (?s3\<lparr>close_errs := es, closed := cl, fdt := f\<rparr>)"
    "\<forall>g. g \<noteq> w \<longrightarrow> f g = fdt ?s3 g"
    using close_socket_effect [of w ?s3] by blast
  from t have "s' = ?s3\<lparr>close_errs := es, closed := cl, fdt := f, live := live s1\<rparr>"
    using wr dl cl(1) by (simp add: s2 waitpid_thread_def Let_def sys_free_def io_then_def io_bind_def)
  with cl(2) s1 show ?thesis by (simp add: dry_def)
qed

text \<open>
  C9: \<open>voyeur_start\<close>, which is documented to return the exit status of the child, returns 0 whatever
  the child's status is (unless an error condition on the pipe makes the server drop it): the waiting
  thread writes the status with \<open>send\<close>, which fails on a pipe.
\<close>

theorem start_returns_zero:
  assumes "voyeur_start waits ctx pid s = Ok (r, ctx') s'"
    and "\<And>rd er. Ready rd er \<in> set (selects s) \<Longrightarrow> fst (hd (new_pipes s)) \<notin> er"
  shows "r = 0"
proof -
  obtain state where st: "server_state ctx = Some state"
    using assms(1) by (cases "server_state ctx") (simp_all add: voyeur_start_def)
  from assms(1) st obtain pipe s1 s2 where
    p: "start_waitpid_thread waits pid s = Ok pipe s1"
    and run: "run_server ctx (server_sock state) pipe s1 = Ok r s2"
    by (auto simp: voyeur_start_def io_bind_Ok_iff io_then_Ok_iff Let_def)
  have d: "dry pipe s1" "pipe = fst (hd (new_pipes s))" "selects s1 = selects s"
    using start_waitpid_dry [OF p] by blast+
  from run show ?thesis
  proof (cases rule: run_server_Ok_iff)
    case (1 A x c t)
    have er: "pipe \<notin> er" if "Ready rd er \<in> set (selects s1)" for rd er
      using that assms(2) unfolding d(2,3) by blast
    have "snd (snd (A, x, c)) = 0"
      by (rule run_loop_status [OF 1(3)]) (use d(1) er in \<open>simp, simp, blast\<close>)
    with 1(5) show ?thesis by (simp add: exit_code_def)
  qed
qed

end
