(* ===== verification/Session.thy ===== *)
theory Session
  imports Serving
begin

text \<open>
  The server loop on the run it is made for: a client connects, sends its events and the message that
  ends its stream, and the child exits. The frames of the loop, and which calls it can make at all, come
  with it.
\<close>

section \<open>Registered calls only\<close>

text \<open>The calls added are calls of registered callbacks with arguments of their type and their user data.\<close>

definition registered :: "'c voyeur_context_scheme \<Rightarrow> 'z observer_scheme \<Rightarrow> 'z observer_scheme \<Rightarrow> bool" where
  "registered ctx s s' \<longleftrightarrow> (\<exists>cs. calls s' = calls s @ cs \<and>
     (\<forall>k \<in> set cs. \<exists>E f args. event_cb ctx E = Some f \<and> args_typed ctx E args \<and> k = Call f args (event_userdata ctx E)))"

interpretation registered: io_frame "registered ctx"
proof
  fix s :: "'b observer_scheme"
  show "registered ctx s s" by (simp add: registered_def)
next
  fix s t u :: "'b observer_scheme"
  assume "registered ctx s t" "registered ctx t u"
  then obtain cs ds where "calls t = calls s @ cs" "calls u = calls t @ ds"
    "\<forall>k \<in> set cs. \<exists>E f args. event_cb ctx E = Some f \<and> args_typed ctx E args \<and> k = Call f args (event_userdata ctx E)"
    "\<forall>k \<in> set ds. \<exists>E f args. event_cb ctx E = Some f \<and> args_typed ctx E args \<and> k = Call f args (event_userdata ctx E)"
    unfolding registered_def by blast
  then show "registered ctx s u"
    unfolding registered_def by (intro exI [of _ "cs @ ds"]) auto
qed

lemma same_calls: "calls s' = calls s \<Longrightarrow> registered ctx s s'"
  by (simp add: registered_def)

lemma keeps_same_calls: "keeps (\<lambda>s s'. calls s' = calls s) m \<Longrightarrow> keeps (registered ctx) m"
  unfolding keeps_def by (blast intro: same_calls)

lemma registered_handle_event: "keeps (registered ctx) (voyeur_handle_event ctx ty fd)"
proof (rule keepsI)
  fix s s' :: "'a observer_scheme"
  assume "res_state (voyeur_handle_event ctx ty fd s) = Some s'"
  from handle_event_frame [OF this] consider "calls s' = calls s"
    | E f args where "event_cb ctx E = Some f" "args_typed ctx E args"
        "calls s' = calls s @ [Call f args (event_userdata ctx E)]" by blast
  then show "registered ctx s s'"
  proof cases
    case 1
    then show ?thesis by (rule same_calls)
  next
    case (2 E f args)
    then show ?thesis unfolding registered_def by (intro exI [of _ "[Call f args (event_userdata ctx E)]"]) auto
  qed
qed

lemma registered_message: "keeps (registered ctx) (handle_message ctx fd)"
  unfolding handle_message_def
  by (intro registered.keeps_bind keeps_same_calls [OF calls_frame.keeps_read_types(1)])
    (auto intro!: registered.keeps_rules keeps_same_calls [OF calls_frame.keeps_read_types(2)] registered_handle_event)

lemma read_status_calls: "read_status fd c s = Ok v t \<Longrightarrow> calls t = calls s"
  using keepsD [OF calls_frame.keeps_read_int, of fd s]
  by (auto simp: read_status_def Let_def split: res.splits)

interpretation registered_loop: loop_frame "registered ctx" ctx
  by unfold_locales (auto intro: registered_message same_calls read_status_calls)

lemma close_socket_calls: "voyeur_close_socket fd s = Ok () s' \<Longrightarrow> calls s' = calls s"
  using close_socket_effect [of fd s] by auto

lemma close_each_calls: "io_each voyeur_close_socket fds s = Ok () t \<Longrightarrow> calls t = calls s"
  by (induction fds arbitrary: s) (auto simp: io_then_Ok_iff close_socket_calls)

text \<open>
  C8: for every behaviour of the clients and the kernel, each call the server makes is of a callback
  that is registered in the context, with the user data registered with it and well-typed arguments: those
  of the callback's event, with C strings, and with an optional pointer that is null exactly if the
  context did not ask for it.
\<close>

theorem run_server_registered:
  assumes "run_server ctx srv pipe s = Ok r s'"
  shows "\<exists>cs. calls s' = calls s @ cs \<and>
    (\<forall>k \<in> set cs. \<exists>E f args. event_cb ctx E = Some f \<and> args_typed ctx E args \<and> k = Call f args (event_userdata ctx E))"
  using registered_loop.run_server_R [OF assms] by (simp only: registered_def)

section \<open>Passes over a single descriptor\<close>

lemma serve_fds_none:
  "(\<And>fd. fd \<in> set fds \<Longrightarrow> fd \<notin> rd \<union> er) \<Longrightarrow> serve_fds ctx srv pipe rd er fds st s = Ok st s"
proof (induction fds)
  case Nil
  show ?case by simp
next
  case (Cons fd fds)
  obtain A x c where st: "st = (A, x, c)" by (cases st)
  from Cons.prems have "serve_fd ctx srv pipe rd er fd st s = Ok st s" by (simp add: serve_fd_def st)
  with Cons show ?case by simp
qed

lemma serve_fds_append:
  fixes s :: "'z host_scheme"
  shows "serve_fds ctx srv pipe rd er (xs @ ys) st s =
    io_bind (serve_fds ctx srv pipe rd er xs st) (serve_fds ctx srv pipe rd er ys) s"
proof (induction xs arbitrary: st s)
  case Nil
  show ?case by simp
next
  case (Cons x xs)
  then show ?case by (simp add: io_bind_def split: res.split)
qed

lemma serve_single:
  fixes s :: "'z host_scheme"
  assumes "fd \<in> set all_fds"
  shows "serve_fds ctx srv pipe {fd} {} all_fds st s = serve_fd ctx srv pipe {fd} {} fd st s"
proof -
  obtain xs ys where all: "all_fds = xs @ fd # ys" "fd \<notin> set xs" "fd \<notin> set ys"
    using assms distinct_all_fds by (metis distinct.simps(2) distinct_append split_list disjoint_iff list.set_intros(1))
  have "serve_fds ctx srv pipe {fd} {} xs st s = Ok st s" using all(2) by (intro serve_fds_none) auto
  moreover have "serve_fds ctx srv pipe {fd} {} ys st' t = Ok st' t" for st' and t :: "'z host_scheme"
    using all(3) by (intro serve_fds_none) auto
  ultimately show ?thesis
    unfolding all(1) serve_fds_append
    by (simp add: io_bind_def split: res.split)
qed

lemma run_loop_single:
  fixes s :: "'z host_scheme"
  assumes "fd \<in> A" and "fd \<in> set all_fds"
  shows "run_loop ctx srv pipe (Ready {fd} {} # sels) (A, False, c) s =
    io_bind (serve_fd ctx srv pipe {fd} {} fd (A, False, c)) (run_loop ctx srv pipe sels) s"
proof -
  have "{fd} \<inter> A = {fd}" "{} \<inter> A = {}" using assms(1) by auto
  then show ?thesis using serve_single [OF assms(2), of ctx srv pipe "(A, False, c)" s] by (simp add: io_bind_def)
qed

section \<open>A whole session\<close>

text \<open>What a client sends for an event under a context, and the calls the event makes.\<close>

definition ctx_msg :: "'c voyeur_context_scheme \<Rightarrow> event \<Rightarrow> byte list" where
  "ctx_msg ctx ev = enc_msg (event_opts ctx (event_type ev)) ev"

definition event_calls :: "'c voyeur_context_scheme \<Rightarrow> platform \<Rightarrow> event \<Rightarrow> call list" where
  "event_calls ctx p ev = calls_of (event_cb ctx (event_type ev))
     (event_args p (event_opts ctx (event_type ev)) ev) (event_userdata ctx (event_type ev))"

lemma message_step:
  assumes "event_wf ev" and "fdt s fd = Some d" and "inp d = ctx_msg ctx ev @ rest"
    and "soft_r (rsys s)" and "n + length (ctx_msg ctx ev) \<le> chunks (rsys s)" and "event_need ev \<le> mem_max s"
  obtains r l where "handle_message ctx fd s = Ok () (got_bytes fd (length (ctx_msg ctx ev))
      (s\<lparr>rsys := r, live := l, calls := calls s @ event_calls ctx (build_os s) ev\<rparr>))"
    "soft_r r" "n \<le> chunks r"
  using handlesE [OF handle_message_handles [OF assms(1)] assms(2) assms(3) [unfolded ctx_msg_def] assms(4)
      assms(5) [unfolded ctx_msg_def] assms(6)]
  unfolding event_calls_def ctx_msg_def by metis

lemma done_step:
  assumes "fdt s fd = Some d" and "inp d = enc_done @ rest"
    and "soft_r (rsys s)" and "n + 4 \<le> chunks (rsys s)"
  obtains r where "handle_message ctx fd s = Fail (got_bytes fd 4 (s\<lparr>rsys := r\<rparr>))" "soft_r r" "n \<le> chunks r"
proof -
  have "n + length (obj32 (msg_type_val VOYEUR_MSG_DONE)) \<le> chunks (rsys s)" using assms(4) by simp
  from parsesE [OF msg_type_codec.get_parses assms(1) assms(2) [unfolded enc_done_def] assms(3) this]
  obtain r where "voyeur_read_msg_type fd s = Ok (msg_type_val VOYEUR_MSG_DONE)
      (got_bytes fd 4 (s\<lparr>rsys := r, live := live s + 0\<rparr>))" "soft_r r" "n \<le> chunks r" by auto
  then show ?thesis using that by (simp add: handle_message_def)
qed

text \<open>
  The client's events are handled one per pass, in order; its last message closes the connection, and
  what comes after it is not read.
\<close>

lemma session_events:
  fixes s :: "'z host_scheme"
  assumes "cl \<in> A" "cl \<in> set all_fds" "cl \<noteq> srv" "cl \<noteq> pipe"
    and "\<And>ev. ev \<in> set evs \<Longrightarrow> event_wf ev \<and> event_need ev \<le> mem_max s"
    and "fdt s cl = Some d" and "inp d = concat (map (ctx_msg ctx) evs) @ enc_done @ rest"
    and "soft_r (rsys s)" and "n + length (concat (map (ctx_msg ctx) evs)) + 4 \<le> chunks (rsys s)" and "close_errs s = []"
  shows "\<exists>s'. run_loop ctx srv pipe (replicate (length evs) (Ready {cl} {}) @ Ready {cl} {} # sels) (A, False, c) s
      = run_loop ctx srv pipe sels (A - {cl}, False, c) s'
    \<and> calls s' = calls s @ concat (map (event_calls ctx (build_os s)) evs)
    \<and> fdt s' = (fdt s)(cl := None) \<and> soft_r (rsys s') \<and> n \<le> chunks (rsys s') \<and> close_errs s' = []
    \<and> incoming s' = incoming s \<and> mem_max s' = mem_max s \<and> build_os s' = build_os s"
  using assms(5-)
proof (induction evs arbitrary: s d)
  case Nil
  have "n + 4 \<le> chunks (rsys s)" using Nil.prems(3,5) by (simp add: enc_done_def)
  from done_step [OF Nil.prems(2) _ Nil.prems(4) this, of rest] Nil.prems(3) obtain r where
    r: "handle_message ctx cl s = Fail (got_bytes cl 4 (s\<lparr>rsys := r\<rparr>))" "soft_r r" "n \<le> chunks r" by auto
  let ?t = "got_bytes cl 4 (s\<lparr>rsys := r\<rparr>)"
  have q: "close_errs ?t = []" using Nil.prems(6) by simp
  have "serve_fd ctx srv pipe {cl} {} cl (A, False, c) s = Ok (A - {cl}, False, c) (close_fd cl ?t)"
    using assms(3,4) r(1) close_socket_quiet [OF q]
    by (simp add: serve_fd_def io_then_def io_bind_def io_on_fail_def)
  then have "run_loop ctx srv pipe (Ready {cl} {} # sels) (A, False, c) s
      = run_loop ctx srv pipe sels (A - {cl}, False, c) (close_fd cl ?t)"
    by (subst run_loop_single [OF assms(1,2)]) (rule io_bind_Ok)
  moreover have "fdt (close_fd cl ?t) = (fdt s)(cl := None)" by (simp add: got_bytes_def)
  moreover have "calls (close_fd cl ?t) = calls s" "incoming (close_fd cl ?t) = incoming s"
    "build_os (close_fd cl ?t) = build_os s" by (simp_all add: close_fd_def got_bytes_def)
  ultimately show ?case using r(2,3) Nil.prems(6) by (intro exI [of _ "close_fd cl ?t"]) simp
next
  case (Cons ev evs)
  let ?more = "concat (map (ctx_msg ctx) evs)"
  let ?rest = "?more @ enc_done @ rest"
  have d: "inp d = ctx_msg ctx ev @ ?rest" using Cons.prems(3) by simp
  have wf: "event_wf ev" "event_need ev \<le> mem_max s" using Cons.prems(1) by simp_all
  have "(n + length ?more + 4) + length (ctx_msg ctx ev) \<le> chunks (rsys s)" using Cons.prems(5) by simp
  from message_step [OF wf(1) Cons.prems(2) d Cons.prems(4) this wf(2)] obtain r l where
    r: "handle_message ctx cl s = Ok () (got_bytes cl (length (ctx_msg ctx ev))
      (s\<lparr>rsys := r, live := l, calls := calls s @ event_calls ctx (build_os s) ev\<rparr>))"
      "soft_r r" "n + length ?more + 4 \<le> chunks r" by blast
  let ?t = "got_bytes cl (length (ctx_msg ctx ev))
      (s\<lparr>rsys := r, live := l, calls := calls s @ event_calls ctx (build_os s) ev\<rparr>)"
  have "serve_fd ctx srv pipe {cl} {} cl (A, False, c) s = Ok (A, False, c) ?t"
    using assms(3,4) r(1) by (simp add: serve_fd_def io_then_def io_bind_def io_on_fail_def)
  then have step: "run_loop ctx srv pipe (Ready {cl} {} # sels') (A, False, c) s = run_loop ctx srv pipe sels' (A, False, c) ?t" for sels'
    by (subst run_loop_single [OF assms(1,2)]) (rule io_bind_Ok)
  have c: "\<And>ev. ev \<in> set evs \<Longrightarrow> event_wf ev \<and> event_need ev \<le> mem_max ?t"
    "fdt ?t cl = Some (d\<lparr>inp := ?rest\<rparr>)" "inp (d\<lparr>inp := ?rest\<rparr>) = ?rest"
    "soft_r (rsys ?t)" "n + length ?more + 4 \<le> chunks (rsys ?t)" "close_errs ?t = []"
    using Cons.prems(1,2,6) d r(2,3) by (simp_all add: fdt_got_bytes)
  from Cons.IH [OF c] obtain s' where
    s': "run_loop ctx srv pipe (replicate (length evs) (Ready {cl} {}) @ Ready {cl} {} # sels) (A, False, c) ?t
      = run_loop ctx srv pipe sels (A - {cl}, False, c) s'"
    "calls s' = calls ?t @ concat (map (event_calls ctx (build_os ?t)) evs)"
    "fdt s' = (fdt ?t)(cl := None)" "soft_r (rsys s')" "n \<le> chunks (rsys s')" "close_errs s' = []"
    "incoming s' = incoming ?t" "mem_max s' = mem_max ?t" "build_os s' = build_os ?t" by blast
  have "fdt s' = (fdt s)(cl := None)" "incoming ?t = incoming s" using s'(3) by (simp_all add: got_bytes_def)
  with s' step show ?case by (intro exI [of _ s']) simp
qed

lemma accept_step:
  assumes "incoming s = (cl, bs, op) # cs" and "cl \<in> set all_fds" and "fdt s cl = None"
  shows "serve_fd ctx srv pipe {srv} {} srv (A, False, c) s = Ok (insert cl A, False, c)
    (s\<lparr>incoming := cs, fdt := (fdt s)(cl \<mapsto>
       \<lparr>fd_kind = Sock (Some []), sent = [], inp = bs, peer_open = op\<rparr>)\<rparr>)"
proof -
  let ?t = "s\<lparr>incoming := cs, fdt := (fdt s)(cl \<mapsto>
       \<lparr>fd_kind = Sock (Some []), sent = [], inp = bs, peer_open = op\<rparr>)\<rparr>"
  have "sys_accept s = Ok cl ?t" using assms by (simp add: sys_accept_def Let_def)
  moreover have "WARN_ON_FAIL_VALUE cl ?t = Ok () ?t" using assms(2) by (simp add: WARN_ON_FAIL_VALUE_def)
  ultimately have "accept_connection s = Ok cl ?t" by (simp add: accept_connection_def)
  then show ?thesis using assms(2) by (simp add: serve_fd_def FD_SET_def)
qed

lemma pipe_step:
  assumes "fdt s pipe = Some d" and "inp d = obj32 st" and "pipe \<noteq> srv"
    and "soft_r (rsys s)" and "4 \<le> chunks (rsys s)" and "close_errs s = []"
  obtains t where "serve_fd ctx srv pipe {pipe} {} pipe (A, False, c) s = Ok (A - {pipe}, True, st) t"
    "calls t = calls s" "close_errs t = []"
proof -
  have "inp d = obj32 st @ []" "0 + length (obj32 st) \<le> chunks (rsys s)" "0 \<le> mem_max s"
    using assms(2,5) by simp_all
  from parsesE [OF int_codec.get_parses assms(1) this(1) assms(4) this(2,3)] obtain r where
    "voyeur_read_int pipe s = Ok st (got_bytes pipe 4 (s\<lparr>rsys := r, live := live s + 0\<rparr>))" by auto
  then have st: "read_status pipe c s = Ok st (got_bytes pipe 4 (s\<lparr>rsys := r\<rparr>))" by (simp add: read_status_def)
  let ?t = "got_bytes pipe 4 (s\<lparr>rsys := r\<rparr>)"
  have q: "close_errs ?t = []" using assms(6) by simp
  have "serve_fd ctx srv pipe {pipe} {} pipe (A, False, c) s = Ok (A - {pipe}, True, st) (close_fd pipe ?t)"
    using st close_socket_quiet [OF q] assms(3) by (simp add: serve_fd_def)
  moreover have "calls (close_fd pipe ?t) = calls s" by (simp add: close_fd_def)
  ultimately show ?thesis using q that by simp
qed

text \<open>With the pipe dry and closed at its other end, the read fails at once.\<close>

lemma dry_step:
  assumes "fdt s pipe = Some d" and "inp d = []" and "\<not> peer_open d" and "pipe \<noteq> srv"
    and "soft_r (rsys s)" and "1 \<le> chunks (rsys s)" and "close_errs s = []"
  obtains t where "serve_fd ctx srv pipe {pipe} {} pipe (A, False, c) s = Ok (A - {pipe}, True, c) t" "calls t = calls s" "close_errs t = []"
proof -
  have "0 + length (inp d) < unat (4 :: size_t)" "length (inp d) < chunks (rsys s)" "unat (4 :: size_t) < 2 ^ 63"
    using assms(2,6) by simp_all
  from do_read_loop_eof [OF this(3) assms(1,3) this(1) assms(5) this(2), of "[]"] obtain r where
    "do_read pipe 4 s = Fail (s\<lparr>rsys := r\<rparr>)" using assms(2) by (auto simp: do_read_def)
  then have st: "read_status pipe c s = Ok c (s\<lparr>rsys := r\<rparr>)"
    by (simp add: read_status_def voyeur_read_int_def Let_def)
  have q: "close_errs (s\<lparr>rsys := r\<rparr>) = []" using assms(7) by simp
  have "serve_fd ctx srv pipe {pipe} {} pipe (A, False, c) s = Ok (A - {pipe}, True, c) (close_fd pipe (s\<lparr>rsys := r\<rparr>))"
    using st close_socket_quiet [OF q] assms(4) by (simp add: serve_fd_def)
  moreover have "calls (close_fd pipe (s\<lparr>rsys := r\<rparr>)) = calls s" by (simp add: close_fd_def)
  ultimately show ?thesis using q that by simp
qed

text \<open>What the pipe says of the child: its status, or nothing, which the server takes for a status of 0.\<close>

definition tells :: "int \<Rightarrow> cint \<Rightarrow> 'z sys_scheme \<Rightarrow> bool" where
  "tells pipe status s \<longleftrightarrow>
     (\<exists>d. fdt s pipe = Some d \<and> (inp d = obj32 status \<or> inp d = [] \<and> \<not> peer_open d \<and> status = 0))"

lemma tells_step:
  assumes "tells pipe status s" and "pipe \<noteq> srv"
    and "soft_r (rsys s)" and "4 \<le> chunks (rsys s)" and "close_errs s = []"
  obtains t where "serve_fd ctx srv pipe {pipe} {} pipe (A, False, 0) s = Ok (A - {pipe}, True, status) t"
    "calls t = calls s" "close_errs t = []"
proof -
  from assms(1) obtain d where d: "fdt s pipe = Some d" "inp d = obj32 status \<or> inp d = [] \<and> \<not> peer_open d \<and> status = 0"
    by (auto simp: tells_def)
  from d(2) show ?thesis
  proof
    assume "inp d = obj32 status"
    then show ?thesis by (rule pipe_step [OF d(1) _ assms(2-5)]) (rule that)
  next
    assume n: "inp d = [] \<and> \<not> peer_open d \<and> status = 0"
    have "1 \<le> chunks (rsys s)" using assms(4) by simp
    with n show ?thesis using dry_step [OF d(1) _ _ assms(2,3) _ assms(5), of ctx A 0] that by auto
  qed
qed

lemma close_down:
  assumes "close_errs t = []"
  obtains u where "io_then (voyeur_close_socket srv) (io_then (io_each voyeur_close_socket fds) (io_ret r)) t = Ok r u"
    "calls u = calls t"
proof -
  from assms have "close_errs (close_fd srv t) = []" by simp
  from close_all [OF this, of fds] obtain u where
    u: "io_each voyeur_close_socket fds (close_fd srv t) = Ok () u" by blast
  have "calls u = calls t" using close_each_calls [OF u] by (simp add: close_fd_def)
  with u close_socket_quiet [OF assms, of srv] that show ?thesis by simp
qed

text \<open>
  One client after the other: a session is its descriptor, its events, and what it sends behind the end
  of its stream. A descriptor may be used again once its session has ended.
\<close>

type_synonym session = "int \<times> event list \<times> byte list"

definition session_bytes :: "'c voyeur_context_scheme \<Rightarrow> session \<Rightarrow> byte list" where
  "session_bytes ctx = (\<lambda>(cl, evs, rest). concat (map (ctx_msg ctx) evs) @ enc_done @ rest)"

definition session_passes :: "int \<Rightarrow> session \<Rightarrow> select_answer list" where
  "session_passes srv = (\<lambda>(cl, evs, rest). Ready {srv} {} # replicate (length evs) (Ready {cl} {}) @ [Ready {cl} {}])"

definition session_events_of :: "session list \<Rightarrow> event list" where
  "session_events_of ss = concat (map (\<lambda>(cl, evs, rest). evs) ss)"

lemma session_events_of_simps [simp]:
  "session_events_of [] = []" "session_events_of ((cl, evs, rest) # ss) = evs @ session_events_of ss"
  by (simp_all add: session_events_of_def)

lemma sessions_loop:
  fixes s :: "'z host_scheme"
  assumes "srv \<in> set all_fds" "pipe \<noteq> srv"
    and "\<And>cl. cl \<in> fst ` set ss \<Longrightarrow> cl \<in> set all_fds \<and> cl \<noteq> srv \<and> cl \<noteq> pipe \<and> fdt s cl = None"
    and "incoming s = map (\<lambda>x. (fst x, session_bytes ctx x, False)) ss"
    and "\<And>ev. ev \<in> set (session_events_of ss) \<Longrightarrow> event_wf ev \<and> event_need ev \<le> mem_max s"
    and "soft_r (rsys s)" "close_errs s = []"
    and "n + 4 * length ss + length (concat (map (ctx_msg ctx) (session_events_of ss))) \<le> chunks (rsys s)"
  shows "\<exists>s'. run_loop ctx srv pipe (concat (map (session_passes srv) ss) @ sels) ({srv, pipe}, False, c) s
      = run_loop ctx srv pipe sels ({srv, pipe}, False, c) s'
    \<and> calls s' = calls s @ concat (map (event_calls ctx (build_os s)) (session_events_of ss))
    \<and> fdt s' = fdt s \<and> soft_r (rsys s') \<and> n \<le> chunks (rsys s') \<and> close_errs s' = []"
  using assms(3-)
proof (induction ss arbitrary: s)
  case Nil
  then show ?case by auto
next
  case (Cons x ss)
  obtain cl evs rest where x: "x = (cl, evs, rest)" by (cases x)
  have cl: "cl \<in> set all_fds" "cl \<noteq> srv" "cl \<noteq> pipe" "fdt s cl = None" using Cons.prems(1) by (simp_all add: x)
  let ?bs = "concat (map (ctx_msg ctx) evs) @ enc_done @ rest"
  let ?cs = "map (\<lambda>x. (fst x, session_bytes ctx x, False)) ss"
  have inc: "incoming s = (cl, ?bs, False) # ?cs" using Cons.prems(2) by (simp add: x session_bytes_def)
  let ?d = "\<lparr>fd_kind = Sock (Some []), sent = [], inp = ?bs, peer_open = False\<rparr>"
  let ?s1 = "s\<lparr>incoming := ?cs, fdt := (fdt s)(cl \<mapsto> ?d)\<rparr>"
  let ?A = "insert cl {srv, pipe}"
  let ?n = "n + 4 * length ss + length (concat (map (ctx_msg ctx) (session_events_of ss)))"
  let ?sels = "concat (map (session_passes srv) ss) @ sels"
  have c: "cl \<in> ?A" "\<And>ev. ev \<in> set evs \<Longrightarrow> event_wf ev \<and> event_need ev \<le> mem_max ?s1"
    "fdt ?s1 cl = Some ?d" "inp ?d = ?bs" "soft_r (rsys ?s1)"
    "?n + length (concat (map (ctx_msg ctx) evs)) + 4 \<le> chunks (rsys ?s1)" "close_errs ?s1 = []"
    using Cons.prems(3-6) by (simp_all add: x)
  from session_events [where sels = ?sels and c = c and pipe = pipe and srv = srv, OF c(1) cl(1-3) c(2-7)]
  obtain s2 where
    s2: "run_loop ctx srv pipe (replicate (length evs) (Ready {cl} {}) @ Ready {cl} {} # ?sels) (?A, False, c) ?s1
      = run_loop ctx srv pipe ?sels (?A - {cl}, False, c) s2"
    "calls s2 = calls s @ concat (map (event_calls ctx (build_os s)) evs)"
    "fdt s2 = (fdt ?s1)(cl := None)" "soft_r (rsys s2)" "?n \<le> chunks (rsys s2)" "close_errs s2 = []" 
    "incoming s2 = ?cs" "mem_max s2 = mem_max s" "build_os s2 = build_os s"
    by auto
  have A: "?A - {cl} = {srv, pipe}" using cl(2,3) by auto
  have f: "fdt s2 = fdt s" using s2(3) cl(4) by auto
  have sels: "concat (map (session_passes srv) (x # ss)) @ sels
      = Ready {srv} {} # (replicate (length evs) (Ready {cl} {}) @ Ready {cl} {} # ?sels)"
    by (simp add: x session_passes_def)
  have run: "run_loop ctx srv pipe (concat (map (session_passes srv) (x # ss)) @ sels) ({srv, pipe}, False, c) s
      = run_loop ctx srv pipe ?sels ({srv, pipe}, False, c) s2"
    unfolding sels s2(1) [unfolded A, symmetric]
    by (subst run_loop_single [OF insertI1 assms(1)]) (rule io_bind_Ok, rule accept_step [OF inc cl(1,4)])
  have later: "\<And>cl. cl \<in> fst ` set ss \<Longrightarrow> cl \<in> set all_fds \<and> cl \<noteq> srv \<and> cl \<noteq> pipe \<and> fdt s2 cl = None"
    "\<And>ev. ev \<in> set (session_events_of ss) \<Longrightarrow> event_wf ev \<and> event_need ev \<le> mem_max s2"
    using Cons.prems(1,3) f s2(8) by (auto simp: x)
  from Cons.IH [OF later(1) s2(7) later(2) s2(4,6,5)] obtain s' where
    "run_loop ctx srv pipe ?sels ({srv, pipe}, False, c) s2 = run_loop ctx srv pipe sels ({srv, pipe}, False, c) s'"
    "calls s' = calls s2 @ concat (map (event_calls ctx (build_os s2)) (session_events_of ss))"
    "fdt s' = fdt s2" "soft_r (rsys s')" "n \<le> chunks (rsys s')" "close_errs s' = []" by blast
  with run f s2(2,9) show ?case by (intro exI [of _ s']) (simp add: x)
qed

lemma sessions_run:
  assumes "srv \<in> set all_fds" "pipe \<in> set all_fds" "pipe \<noteq> srv"
    and "\<And>cl. cl \<in> fst ` set ss \<Longrightarrow> cl \<in> set all_fds \<and> cl \<noteq> srv \<and> cl \<noteq> pipe \<and> fdt s cl = None"
    and "incoming s = map (\<lambda>x. (fst x, session_bytes ctx x, False)) ss"
    and "selects s = concat (map (session_passes srv) ss) @ [Ready {pipe} {}]"
    and "\<And>ev. ev \<in> set (session_events_of ss) \<Longrightarrow> event_wf ev \<and> event_need ev \<le> mem_max s"
    and "soft_r (rsys s)" "close_errs s = []"
    and "4 + 4 * length ss + length (concat (map (ctx_msg ctx) (session_events_of ss))) \<le> chunks (rsys s)"
    and "tells pipe status s"
  shows "\<exists>s'. run_server ctx srv pipe s = Ok (exit_code status) s'
    \<and> calls s' = calls s @ concat (map (event_calls ctx (build_os s)) (session_events_of ss))
    \<and> fdt s' = (fdt s)(srv := None, pipe := None)"
proof -
  let ?A = "{srv, pipe}"
  from sessions_loop [OF assms(1,3,4,5,7-10), of "[Ready {pipe} {}]" 0] obtain s2 where
    s2: "run_loop ctx srv pipe (selects s) (?A, False, 0) s = run_loop ctx srv pipe [Ready {pipe} {}] (?A, False, 0) s2"
    "calls s2 = calls s @ concat (map (event_calls ctx (build_os s)) (session_events_of ss))"
    "fdt s2 = fdt s" "soft_r (rsys s2)" "4 \<le> chunks (rsys s2)" "close_errs s2 = []"
    unfolding assms(6) by blast
  have p: "tells pipe status s2" using s2(3) assms(11) by (simp add: tells_def)
  obtain t where t: "serve_fd ctx srv pipe {pipe} {} pipe (?A, False, 0) s2 = Ok (?A - {pipe}, True, status) t"
    "calls t = calls s2" "close_errs t = []"
    by (rule tells_step [OF p assms(3) s2(4-6)])
  have in_A: "pipe \<in> ?A" by simp
  have "run_loop ctx srv pipe [Ready {pipe} {}] (?A, False, 0) s2 = run_loop ctx srv pipe [] (?A - {pipe}, True, status) t"
    by (subst run_loop_single [OF in_A assms(2)]) (rule io_bind_Ok, rule t(1))
  then have loop: "run_loop ctx srv pipe (selects s) (?A, False, 0) s = Ok (?A - {pipe}, True, status) t"
    using s2(1) by simp
  obtain u where u: "io_then (voyeur_close_socket srv) (io_then (io_each voyeur_close_socket
      (filter (\<lambda>fd. fd \<in> ?A - {pipe}) all_fds)) (io_ret (exit_code status))) t = Ok (exit_code status) u"
    "calls u = calls t"
    by (rule close_down [OF t(3)])
  have "run_server ctx srv pipe s = Ok (exit_code status) u"
    using assms(1,2) loop u(1)
    by (simp add: run_server_def FD_SET_def io_bind_def insert_commute [of pipe srv])
  moreover from run_server_fdt [OF this assms(9)] have "fdt u = (fdt s)(srv := None, pipe := None)" .
  ultimately show ?thesis using u(2) t(2) s2(2) by simp
qed

text \<open>A sample session: two events, and a child that exits with status 3.\<close>

definition ex_events :: "event list" where
  "ex_events = [ex_exec, Exit_Event 3 7 1]"

definition ex_session :: host where
  "ex_session = ex_host\<lparr>fdt := [4 \<mapsto> ex_desc [], 6 \<mapsto> ex_desc (obj32 0x300)],
     incoming := [(8, concat (map (ctx_msg ex_ctx) ex_events) @ enc_done, False)],
     selects := Ready {4} {} # replicate (length ex_events) (Ready {8} {}) @ [Ready {8} {}, Ready {6} {}],
     rsys := replicate 200 (Chunk 7)\<rparr>"

lemma ex_session_run:
  "\<exists>s'. run_server ex_ctx 4 6 ex_session = Ok (exit_code 0x300) s'
    \<and> calls s' = calls ex_session @ concat (map (event_calls ex_ctx (build_os ex_session)) ex_events)
    \<and> fdt s' = (fdt ex_session)(4 := None, 6 := None)"
proof -
  let ?ss = "[(8, ex_events, [])]"
  have "\<exists>s'. run_server ex_ctx 4 6 ex_session = Ok (exit_code 0x300) s'
    \<and> calls s' = calls ex_session @ concat (map (event_calls ex_ctx (build_os ex_session)) (session_events_of ?ss))
    \<and> fdt s' = (fdt ex_session)(4 := None, 6 := None)"
    by (rule sessions_run)
      (simp_all add: ex_session_def FD_SETSIZE_def tells_def session_bytes_def session_passes_def,
        auto simp: ex_events_def ctx_msg_def enc_msg_def)
  then show ?thesis by simp
qed

lemma ex_session_calls:
  "concat (map (event_calls ex_ctx p) ex_events)
    = [Call 10 (ExecArgs ''/bin/ls'' [''ls'', ''-l''] None None (Some ''/tmp'') 7 1) 1, Call 11 (ExitArgs 3 7 1) 2]"
  by (simp add: ex_events_def event_calls_def calls_of_def)

theorem run_server_registered_witness:
  "\<exists>r s' k E f args. run_server ex_ctx 4 6 ex_session = Ok r s' \<and> k \<in> set (calls s')
     \<and> event_cb ex_ctx E = Some f \<and> args_typed ex_ctx E args \<and> k = Call f args (event_userdata ex_ctx E)"
proof -
  obtain s' where s': "run_server ex_ctx 4 6 ex_session = Ok (exit_code 0x300) s'"
    "calls s' = calls ex_session @ concat (map (event_calls ex_ctx (build_os ex_session)) ex_events)"
    using ex_session_run by blast
  have "calls ex_session = []" by (simp add: ex_session_def)
  with s'(2) obtain k where "k \<in> set (calls s')" unfolding ex_session_calls by auto
  with run_server_registered [OF s'(1)] \<open>calls ex_session = []\<close> s'(1) show ?thesis by fastforce
qed

theorem run_server_closes_all_witness:
  "\<exists>r s'. run_server ex_ctx 4 6 ex_session = Ok r s' \<and> fdt s' = (fdt ex_session)(4 := None, 6 := None)"
proof -
  obtain s' where s': "run_server ex_ctx 4 6 ex_session = Ok (exit_code 0x300) s'"
    using ex_session_run by blast
  have "close_errs ex_session = []" by (simp add: ex_session_def)
  from run_server_closes_all [OF s' this] s' show ?thesis by blast
qed

section \<open>A child that just exits\<close>

lemma run_server_dry:
  assumes "srv \<in> set all_fds" "pipe \<in> set all_fds" "pipe \<noteq> srv" "selects s = [Ready {pipe} {}]"
    and "fdt s pipe = Some d" "inp d = []" "\<not> peer_open d"
    and "soft_r (rsys s)" "1 \<le> chunks (rsys s)" "close_errs s = []"
  obtains t where "run_server ctx srv pipe s = Ok 0 t"
proof -
  obtain t where t: "serve_fd ctx srv pipe {pipe} {} pipe ({srv, pipe}, False, 0) s = Ok ({srv, pipe} - {pipe}, True, 0) t"
    "close_errs t = []"
    by (rule dry_step [OF assms(5,6,7,3,8,9,10)])
  have "run_loop ctx srv pipe (selects s) ({srv, pipe}, False, 0) s = run_loop ctx srv pipe [] ({srv, pipe} - {pipe}, True, 0) t"
    unfolding assms(4) by (subst run_loop_single [OF insertI2 [OF singletonI] assms(2)]) (rule io_bind_Ok, rule t(1))
  then have loop: "run_loop ctx srv pipe (selects s) ({srv, pipe}, False, 0) s = Ok ({srv, pipe} - {pipe}, True, 0) t"
    by simp
  obtain u where u: "io_then (voyeur_close_socket srv) (io_then (io_each voyeur_close_socket
      (filter (\<lambda>fd. fd \<in> {srv, pipe} - {pipe}) all_fds)) (io_ret (0 :: int))) t = Ok 0 u"
    by (rule close_down [OF t(2)])
  have "run_server ctx srv pipe s = Ok 0 u"
    using assms(1,2) loop u
    by (simp add: run_server_def FD_SET_def io_bind_def insert_commute [of pipe srv] exit_code_def)
  then show ?thesis by (rule that)
qed

text \<open>Where the waiting thread leaves the server: with a pipe that is dry.\<close>

lemma start_waitpid_ready:
  assumes "new_pipes s = (r, w) # ps" and "0 \<le> r" and "0 \<le> w" and "r \<noteq> w" and "fdt s r = None" and "fdt s w = None"
    and "8 \<le> mem_max s" and "close_errs s = []"
  shows "start_waitpid_thread waits pid s = Ok r (s\<lparr>new_pipes := ps, closed := closed s @ [(w, [])],
    fdt := (fdt s)(r \<mapsto> \<lparr>fd_kind = Pipe, sent = [], inp = [], peer_open = False\<rparr>)\<rparr>)"
proof -
  let ?d = "\<lparr>fd_kind = Pipe, sent = [], inp = [], peer_open = False\<rparr> :: fdesc"
  let ?s = "s\<lparr>new_pipes := ps, fdt := (fdt s)(r \<mapsto> ?d, w \<mapsto> ?d), live := live s + 1\<rparr>"
  have wr: "voyeur_write_int w (waits pid) ?s = Fail ?s" by (rule write_int_pipe [where d = ?d]) simp_all
  have "pipe_deliver r w ?s = Ok () ?s"
    using assms(4) by (simp add: pipe_deliver_def written_def fun_upd_twist)
  moreover have "voyeur_close_socket w ?s = Ok () (close_fd w ?s)" using assms(8) by (intro close_socket_quiet) simp
  ultimately have "waitpid_thread waits r pid w ?s = Ok () ((close_fd w ?s)\<lparr>live := live s\<rparr>)"
    using wr by (simp add: waitpid_thread_def io_then_def io_bind_def io_ignore_def sys_free_def close_fd_def)
  moreover have "(close_fd w ?s)\<lparr>live := live s\<rparr> = s\<lparr>new_pipes := ps, closed := closed s @ [(w, [])], fdt := (fdt s)(r \<mapsto> ?d)\<rparr>"
    using assms(4,6) by (auto simp: close_fd_def written_def fun_upd_twist fun_upd_idem)
  ultimately show ?thesis
    using assms(1-7) by (simp add: start_waitpid_thread_def ABORT_ON_FAIL_def sys_pipe_def Let_def sys_malloc_def
        io_bind_def io_on_fail_def io_then_def)
qed

lemma warn_returns:
  "\<exists>t. WARN_ON_FAIL (sys_unlink p) s = Ok () t \<and> calls t = calls s \<and> launched t = launched s"
  "\<exists>t. WARN_ON_FAIL (sys_rmdir p) s = Ok () t \<and> calls t = calls s \<and> launched t = launched s"
  by (simp_all add: WARN_ON_FAIL_def io_ignore_def sys_unlink_def sys_rmdir_def)

definition ex_start :: host where
  "ex_start = ex_host\<lparr>selects := [Ready {6} {}], rsys := [Chunk 1], dirs := {''/tmp/v''},
     files := {''/tmp/v/socket''}\<rparr>"

definition ex_started :: voyeur_context where
  "ex_started = ex_ctx\<lparr>server_state := Some \<lparr>server_sock = 4, sun_path = ''/tmp/v/socket'', env_buf = True\<rparr>\<rparr>"

lemma ex_start_run: "\<exists>r ctx' s'. voyeur_start (\<lambda>_. 0x300) ex_started 99 ex_start = Ok (r, ctx') s'"
proof -
  let ?d = "\<lparr>fd_kind = Pipe, sent = [], inp = [], peer_open = False\<rparr> :: fdesc"
  have f: "new_pipes ex_start = [(6, 7)]" "fdt ex_start = fdt ex_sys" "mem_max ex_start = 65536" "live ex_start = 0"
    "close_errs ex_start = []" "rsys ex_start = [Chunk 1]" "selects ex_start = [Ready {6} {}]" "debug ex_start = False"
    by (simp_all add: ex_start_def)
  have n: "fdt ex_sys 6 = None" "fdt ex_sys 7 = None" by (simp_all add: ex_sys_def)
  have "\<exists>t. start_waitpid_thread (\<lambda>_. 0x300) 99 ex_start = Ok 6 t \<and> fdt t 6 = Some ?d
      \<and> selects t = [Ready {6} {}] \<and> rsys t = [Chunk 1] \<and> close_errs t = [] \<and> debug t = False"
    using start_waitpid_ready [of ex_start 6 7 "[]" "\<lambda>_. 0x300" 99] f n by simp
  then obtain t where t: "start_waitpid_thread (\<lambda>_. 0x300) 99 ex_start = Ok 6 t" "fdt t 6 = Some ?d"
    "selects t = [Ready {6} {}]" "rsys t = [Chunk 1]" "close_errs t = []" "debug t = False" by blast
  obtain u where u: "run_server ex_started 4 6 t = Ok 0 u"
    by (rule run_server_dry [where srv = 4 and pipe = 6 and d = ?d and s = t]) (use t in \<open>simp_all add: FD_SETSIZE_def\<close>)
  have ctx: "server_state ex_started = Some \<lparr>server_sock = 4, sun_path = ''/tmp/v/socket'', env_buf = True\<rparr>"
    by (simp add: ex_started_def)
  obtain v where v: "WARN_ON_FAIL (sys_unlink ''/tmp/v/socket'') u = Ok () v" using warn_returns(1) by blast
  obtain x where x: "WARN_ON_FAIL (sys_rmdir (take 6 ''/tmp/v/socket'')) v = Ok () x" using warn_returns(2) by blast
  have slash: "strrchr ''/tmp/v/socket'' (CHR ''/'') = Some 6" by simp
  show ?thesis
    using t(1) u v x slash ctx by (simp add: voyeur_start_def Let_def del: strrchr.simps take_Suc_Cons)
qed

text \<open>The child exits with status 3, and the result is 0.\<close>

theorem start_returns_zero_witness:
  "\<exists>r ctx' s'. voyeur_start (\<lambda>_. 0x300) ex_started 99 ex_start = Ok (r, ctx') s' \<and> r = 0"
proof -
  obtain r ctx' s' where run: "voyeur_start (\<lambda>_. 0x300) ex_started 99 ex_start = Ok (r, ctx') s'"
    using ex_start_run by blast
  have "\<And>rd er. Ready rd er \<in> set (selects ex_start) \<Longrightarrow> fst (hd (new_pipes ex_start)) \<notin> er"
    by (simp add: ex_start_def)
  with start_returns_zero [OF run] run show ?thesis by blast
qed

section \<open>The socket file\<close>

text \<open>The server itself leaves the file system alone.\<close>

definition same_files :: "'z host_scheme \<Rightarrow> 'z host_scheme \<Rightarrow> bool" where
  "same_files s s' \<longleftrightarrow> files s' = files s \<and> dirs s' = dirs s \<and> debug s' = debug s"

interpretation same_files: handler_frame same_files fd
  by unfold_locales (auto simp: same_files_def got_bytes_def)

interpretation same_files_loop: loop_frame same_files ctx
proof
  fix fd
  show "keeps same_files (handle_message ctx fd)"
    unfolding handle_message_def
    by (intro same_files.keeps_bind same_files.keeps_read_types)
      (auto intro!: same_files.keeps_rules same_files.keeps_read_types same_files.keeps_handle_event)
next
  fix fd c v and s t :: "'a host_scheme"
  assume "read_status fd c s = Ok v t"
  then show "same_files s t"
    using keepsD [OF same_files.keeps_read_int, of fd s]
    by (auto simp: read_status_def Let_def split: res.splits)
qed (auto simp: same_files_def)

text \<open>
  C31: after the child's end, \<open>voyeur_start\<close> removes the socket file and its directory in a debugging
  build only: in a release build the macro around \<open>unlink\<close> and \<open>rmdir\<close> drops the calls, and both stay
  behind at every run.
\<close>

theorem start_cleanup:
  assumes "voyeur_start waits ctx pid s = Ok (r, ctx') s'"
    and "server_state ctx = Some state" and "sun_path state = dir @ ''/socket''"
    and "dir \<in> dirs s" and "dir @ ''/socket'' \<in> files s"
    and "\<forall>f \<in> files s. strncmp_eq f (dir @ ''/'') (length dir + 1) \<longrightarrow> f = dir @ ''/socket''"
  shows "files s' = (if debug s then files s - {dir @ ''/socket''} else files s)
    \<and> dirs s' = (if debug s then dirs s - {dir} else dirs s)"
proof -
  from assms(1,2) obtain pipe s1 s2 where
    p: "start_waitpid_thread waits pid s = Ok pipe s1"
    and run: "run_server ctx (server_sock state) pipe s1 = Ok r s2"
    by (auto simp: voyeur_start_def io_bind_Ok_iff io_then_Ok_iff Let_def)
  have slash: "strrchr (dir @ ''/socket'') (CHR ''/'') = Some (length dir)"
    using strrchr_append [of "CHR ''/''" "''socket''" dir] by simp
  have fin: "io_then (WARN_ON_FAIL (sys_unlink (dir @ ''/socket'')))
      (io_then (WARN_ON_FAIL (sys_rmdir dir)) (io_ret (r, ctx'))) s2 = Ok (r, ctx') s'"
    using assms(1,2,3) p run slash
    by (auto simp: voyeur_start_def io_bind_Ok_iff io_then_Ok_iff Let_def)
  have same: "files s2 = files s" "dirs s2 = dirs s" "debug s2 = debug s"
    using start_waitpid_dry [OF p] same_files_loop.run_server_R [OF run] by (simp_all add: same_files_def)
  show ?thesis
  proof (cases "debug s")
    case False
    with fin same show ?thesis by (auto simp: io_then_Ok_iff WARN_ON_FAIL_release)
  next
    case True
    let ?t = "s2\<lparr>files := files s - {dir @ ''/socket''}\<rparr>"
    have "WARN_ON_FAIL (sys_unlink (dir @ ''/socket'')) s2 = Ok () ?t"
      using True same assms(5) by (simp add: WARN_ON_FAIL_debug sys_unlink_def)
    moreover have "WARN_ON_FAIL (sys_rmdir dir) ?t = Ok () (?t\<lparr>dirs := dirs s - {dir}\<rparr>)"
      using True same assms(4,6) by (auto simp: WARN_ON_FAIL_debug sys_rmdir_def io_ignore_def)
    ultimately show ?thesis using fin True by auto
  qed
qed

theorem start_cleanup_witness:
  "\<exists>r ctx' s'. voyeur_start (\<lambda>_. 0x300) ex_started 99 ex_start = Ok (r, ctx') s'
    \<and> files s' = {''/tmp/v/socket''} \<and> dirs s' = {''/tmp/v''}"
proof -
  obtain r ctx' s' where run: "voyeur_start (\<lambda>_. 0x300) ex_started 99 ex_start = Ok (r, ctx') s'"
    using ex_start_run by blast
  let ?st = "\<lparr>server_sock = 4, sun_path = ''/tmp/v/socket'', env_buf = True\<rparr>"
  have "files s' = (if debug ex_start then files ex_start - {''/tmp/v'' @ ''/socket''} else files ex_start)
    \<and> dirs s' = (if debug ex_start then dirs ex_start - {''/tmp/v''} else dirs ex_start)"
    by (rule start_cleanup [OF run, where state = ?st]) (simp_all add: ex_started_def ex_start_def)
  then show ?thesis using run by (simp add: ex_start_def)
qed

end
