(* ===== verification/Clients.thy ===== *)
theory Clients
  imports Session "HOL-Library.Sublist"
begin

text \<open>
  The server loop with any number of clients: an abstract server over lists of events, which knows
  nothing of bytes, buffers and partial reads, and the proof that the loop of \<open>src/voyeur.c\<close> makes the
  calls the abstract server delivers, for every sequence of answers of \<open>select\<close>.
\<close>

section \<open>The abstract server\<close>

text \<open>
  The connections being read, each with the client's number and the events yet to come, the clients that
  wait to be accepted, with the descriptors they will get, the number of the next client, the events
  delivered so far, and whether the child has exited.
\<close>

record view =
  reading :: "int \<Rightarrow> (nat \<times> event list) option"
  waiting :: "(int \<times> event list) list"
  accepted :: nat
  delivered :: "(nat \<times> event) list"
  over :: bool

definition view_shut :: "int \<Rightarrow> view \<Rightarrow> view" where
  "view_shut fd v = v\<lparr>reading := (reading v)(fd := None)\<rparr>"

text \<open>A client gets the descriptor the kernel chose, unless that is in use.\<close>

definition view_accept :: "view \<Rightarrow> view" where
  "view_accept v = (case waiting v of
       [] \<Rightarrow> v
     | (c, evs) # q \<Rightarrow>
         (if reading v c = None
          then v\<lparr>waiting := q, accepted := Suc (accepted v), reading := (reading v)(c \<mapsto> (accepted v, evs))\<rparr>
          else v\<lparr>waiting := q, accepted := Suc (accepted v)\<rparr>))"

text \<open>One message: the next event, or the end of the stream.\<close>

definition view_message :: "int \<Rightarrow> view \<Rightarrow> view" where
  "view_message fd v = (case reading v fd of
       None \<Rightarrow> v
     | Some (k, []) \<Rightarrow> view_shut fd v
     | Some (k, ev # evs) \<Rightarrow>
         v\<lparr>reading := (reading v)(fd \<mapsto> (k, evs)), delivered := delivered v @ [(k, ev)]\<rparr>)"

definition view_fd :: "int \<Rightarrow> int \<Rightarrow> int set \<Rightarrow> int set \<Rightarrow> int \<Rightarrow> view \<Rightarrow> view" where
  "view_fd srv pipe rd er fd v =
     (if fd \<in> er then view_shut fd v
      else if fd \<in> rd then
        (if fd = srv then view_accept v
         else if fd = pipe then v\<lparr>over := True\<rparr>
         else view_message fd v)
      else v)"

definition watched :: "int \<Rightarrow> int \<Rightarrow> view \<Rightarrow> int set" where
  "watched srv pipe v = insert srv (dom (reading v) \<union> (if over v then {} else {pipe}))"

definition view_pass :: "int \<Rightarrow> int \<Rightarrow> int set \<Rightarrow> int set \<Rightarrow> view \<Rightarrow> view" where
  "view_pass srv pipe rd er v =
     fold (view_fd srv pipe (rd \<inter> watched srv pipe v) (er \<inter> watched srv pipe v)) all_fds v"

text \<open>The answers of \<open>select\<close>, until the child has exited; \<open>None\<close> if the server goes on waiting.\<close>

fun view_run :: "int \<Rightarrow> int \<Rightarrow> select_answer list \<Rightarrow> view \<Rightarrow> view option" where
  "view_run srv pipe [] v = (if over v then Some v else None)"
| "view_run srv pipe (SelectErr e # sels) v =
     (if \<not> over v \<and> (e = EAGAIN \<or> e = EINTR) then view_run srv pipe sels v else Some v)"
| "view_run srv pipe (Ready rd er # sels) v =
     (if over v then Some v else view_run srv pipe sels (view_pass srv pipe rd er v))"

definition view0 :: "(int \<times> event list) list \<Rightarrow> view" where
  "view0 q = \<lparr>reading = Map.empty, waiting = q, accepted = 0, delivered = [], over = False\<rparr>"

section \<open>The relation to the loop\<close>

text \<open>
  What a client sends under the options of a context; the events the loop can take, with messages of at
  most \<open>B\<close> bytes; and what is in the pipe when the child has exited: its status, or, since the thread's
  write fails, nothing.
\<close>

definition stream_of :: "'c voyeur_context_scheme \<Rightarrow> event list \<Rightarrow> byte list" where
  "stream_of ctx evs = concat (map (ctx_msg ctx) evs) @ enc_done"

definition msg_ok :: "'c voyeur_context_scheme \<Rightarrow> nat \<Rightarrow> nat \<Rightarrow> event \<Rightarrow> bool" where
  "msg_ok ctx m B ev \<longleftrightarrow> event_wf ev \<and> event_need ev \<le> m \<and> length (ctx_msg ctx ev) \<le> B"

definition reads :: "'c voyeur_context_scheme \<Rightarrow> nat \<Rightarrow> 'z host_scheme \<Rightarrow> int \<Rightarrow> event list \<Rightarrow> bool" where
  "reads ctx B s fd evs \<longleftrightarrow>
     (\<exists>d. fdt s fd = Some d \<and> inp d = stream_of ctx evs) \<and> list_all (msg_ok ctx (mem_max s) B) evs"

definition pipe_holds :: "'z host_scheme \<Rightarrow> int \<Rightarrow> cint \<Rightarrow> bool" where
  "pipe_holds s pipe st \<longleftrightarrow>
     (\<exists>d. fdt s pipe = Some d \<and> (inp d = obj32 st \<or> inp d = [] \<and> \<not> peer_open d \<and> st = 0))"

definition client_fd :: "int \<Rightarrow> int \<Rightarrow> int \<Rightarrow> bool" where
  "client_fd srv pipe fd \<longleftrightarrow> fd \<in> set all_fds \<and> fd \<noteq> srv \<and> fd \<noteq> pipe"

definition waits_ok :: "'c voyeur_context_scheme \<Rightarrow> int \<Rightarrow> int \<Rightarrow> nat \<Rightarrow> view \<Rightarrow> 'z host_scheme \<Rightarrow> bool" where
  "waits_ok ctx srv pipe B v s \<longleftrightarrow>
     incoming s = map (\<lambda>(c, evs). (c, stream_of ctx evs, False)) (waiting v)
   \<and> list_all (\<lambda>(c, evs). client_fd srv pipe c \<and> list_all (msg_ok ctx (mem_max s) B) evs
        \<and> (fdt s c = None \<longleftrightarrow> reading v c = None)) (waiting v)"

definition reads_ok :: "'c voyeur_context_scheme \<Rightarrow> int \<Rightarrow> int \<Rightarrow> nat \<Rightarrow> view \<Rightarrow> 'z host_scheme \<Rightarrow> bool" where
  "reads_ok ctx srv pipe B v s \<longleftrightarrow>
     (\<forall>fd k evs. reading v fd = Some (k, evs) \<longrightarrow> client_fd srv pipe fd \<and> reads ctx B s fd evs)"

definition calm_host :: "nat \<Rightarrow> 'z host_scheme \<Rightarrow> bool" where
  "calm_host n s \<longleftrightarrow> soft_r (rsys s) \<and> n \<le> chunks (rsys s) \<and> close_errs s = [] \<and> \<not> debug s"

definition delivers :: "'c voyeur_context_scheme \<Rightarrow> platform \<Rightarrow> (nat \<times> event) list \<Rightarrow> call list" where
  "delivers ctx p L = concat (map (\<lambda>(k, ev). event_calls ctx p ev) L)"

lemma delivers_simps [simp]:
  "delivers ctx p [] = []" "delivers ctx p ((k, ev) # L) = event_calls ctx p ev @ delivers ctx p L"
  "delivers ctx p (L @ M) = delivers ctx p L @ delivers ctx p M"
  by (simp_all add: delivers_def)

definition matches :: "'c voyeur_context_scheme \<Rightarrow> int \<Rightarrow> int \<Rightarrow> cint \<Rightarrow> nat \<Rightarrow> platform \<Rightarrow> call list
    \<Rightarrow> view \<Rightarrow> 'z host_scheme \<Rightarrow> nat \<Rightarrow> bool" where
  "matches ctx srv pipe st B p C v s n \<longleftrightarrow>
     reads_ok ctx srv pipe B v s \<and> waits_ok ctx srv pipe B v s \<and> (over v \<or> pipe_holds s pipe st)
   \<and> calm_host n s \<and> build_os s = p \<and> calls s = C @ delivers ctx p (delivered v)"

definition loop_view :: "int \<Rightarrow> int \<Rightarrow> cint \<Rightarrow> view \<Rightarrow> loop_state" where
  "loop_view srv pipe st v = (watched srv pipe v, over v, if over v then st else 0)"

text \<open>A change of one connection: it is closed, or some of its events have been delivered.\<close>

lemma reads_other:
  "reads ctx B s fd evs \<Longrightarrow> fdt s' fd = fdt s fd \<Longrightarrow> mem_max s' = mem_max s \<Longrightarrow> reads ctx B s' fd evs"
  by (simp add: reads_def)

lemma reads_ok_change:
  assumes "reads_ok ctx srv pipe B v s" and "\<And>g. g \<noteq> fd \<Longrightarrow> fdt s' g = fdt s g" and "mem_max s' = mem_max s"
    and "client_fd srv pipe fd" and "\<And>k evs. x = Some (k, evs) \<Longrightarrow> reads ctx B s' fd evs"
  shows "reads_ok ctx srv pipe B (v\<lparr>reading := (reading v)(fd := x), delivered := L\<rparr>) s'"
  using assms reads_other [of ctx B s _ _ s'] unfolding reads_ok_def by (auto split: if_splits)

lemma waits_ok_change:
  assumes "waits_ok ctx srv pipe B v s" and "\<And>g. g \<noteq> fd \<Longrightarrow> fdt s' g = fdt s g" and "mem_max s' = mem_max s"
    and "incoming s' = incoming s" and "fdt s' fd = None \<longleftrightarrow> x = None"
  shows "waits_ok ctx srv pipe B (v\<lparr>reading := (reading v)(fd := x), delivered := L\<rparr>) s'"
proof -
  have "(fdt s' c = None \<longleftrightarrow> ((reading v)(fd := x)) c = None) \<longleftrightarrow> (c = fd \<or> (fdt s c = None \<longleftrightarrow> reading v c = None))" for c
    using assms(2) [of c] assms(5) by simp
  then show ?thesis using assms(1,3,4) unfolding waits_ok_def by (auto simp: list_all_iff)
qed

lemma matches_change:
  assumes "matches ctx srv pipe st B p C v s n'" and "client_fd srv pipe fd"
    and "\<And>g. g \<noteq> fd \<Longrightarrow> fdt s' g = fdt s g" and "mem_max s' = mem_max s" and "incoming s' = incoming s"
    and "fdt s' fd = None \<longleftrightarrow> x = None" and "\<And>k evs. x = Some (k, evs) \<Longrightarrow> reads ctx B s' fd evs"
    and "calm_host n s'" and "build_os s' = build_os s" and "calls s' = calls s @ delivers ctx p L"
  shows "matches ctx srv pipe st B p C (v\<lparr>reading := (reading v)(fd := x), delivered := delivered v @ L\<rparr>) s' n"
proof -
  have "pipe_holds s pipe st \<Longrightarrow> pipe_holds s' pipe st"
    using assms(2,3) by (simp add: pipe_holds_def client_fd_def)
  moreover have "reads_ok ctx srv pipe B v s" "waits_ok ctx srv pipe B v s"
    using assms(1) by (simp_all add: matches_def)
  note reads_ok_change [OF this(1) assms(3,4,2,7)] waits_ok_change [OF this(2) assms(3-6)]
  ultimately show ?thesis using assms(1,8-10) unfolding matches_def by auto
qed

section \<open>One descriptor\<close>

lemma view_shut_eq: "view_shut fd v = v\<lparr>reading := (reading v)(fd := None), delivered := delivered v @ []\<rparr>"
  by (simp add: view_shut_def)

lemma view_shut_fields [simp]:
  "reading (view_shut fd v) = (reading v)(fd := None)" "over (view_shut fd v) = over v"
  "waiting (view_shut fd v) = waiting v" "delivered (view_shut fd v) = delivered v"
  by (simp_all add: view_shut_def)

lemma watched_shut: "client_fd srv pipe fd \<Longrightarrow> watched srv pipe (view_shut fd v) = watched srv pipe v - {fd}"
  by (auto simp: watched_def client_fd_def)

lemma close_client:
  assumes "matches ctx srv pipe st B p C v s n" and "client_fd srv pipe fd"
  shows "matches ctx srv pipe st B p C (view_shut fd v) (close_fd fd s) n"
  unfolding view_shut_eq
  by (rule matches_change [OF assms])
    (use assms(1) in \<open>simp_all add: matches_def calm_host_def, simp_all add: close_fd_def\<close>)

lemma serve_error:
  assumes "matches ctx srv pipe st B p C v s n" and "client_fd srv pipe fd" and "fd \<in> er"
  shows "serve_fd ctx srv pipe rd er fd (loop_view srv pipe st v) s
    = Ok (loop_view srv pipe st (view_shut fd v)) (close_fd fd s)"
proof -
  have "close_errs s = []" using assms(1) by (simp add: matches_def calm_host_def)
  then show ?thesis using assms(3) by (simp add: serve_fd_def loop_view_def watched_shut [OF assms(2)])
qed

lemma serve_event:
  assumes "matches ctx srv pipe st B p C v s (n + B)" and "reading v fd = Some (k, ev # evs)"
    and "fd \<notin> er" "fd \<in> rd"
  obtains t where "serve_fd ctx srv pipe rd er fd (loop_view srv pipe st v) s
      = Ok (loop_view srv pipe st (view_message fd v)) t"
    "matches ctx srv pipe st B p C (view_message fd v) t n"
proof -
  have c: "client_fd srv pipe fd" "reads ctx B s fd (ev # evs)"
    using assms(1,2) by (auto simp: matches_def reads_ok_def)
  then obtain d where d: "fdt s fd = Some d" "inp d = ctx_msg ctx ev @ stream_of ctx evs"
    and ok: "msg_ok ctx (mem_max s) B ev" "list_all (msg_ok ctx (mem_max s) B) evs"
    by (auto simp: reads_def stream_of_def)
  have h: "soft_r (rsys s)" "n + length (ctx_msg ctx ev) \<le> chunks (rsys s)" "close_errs s = [] \<and> \<not> debug s"
    "build_os s = p" "event_wf ev" "event_need ev \<le> mem_max s"
    using assms(1) ok(1) by (auto simp: matches_def calm_host_def msg_ok_def)
  obtain r l where m: "handle_message ctx fd s = Ok () (got_bytes fd (length (ctx_msg ctx ev))
      (s\<lparr>rsys := r, live := l, calls := calls s @ event_calls ctx (build_os s) ev\<rparr>))"
    "soft_r r" "n \<le> chunks r"
    by (rule message_step [OF h(5) d h(1,2,6)])
  let ?t = "got_bytes fd (length (ctx_msg ctx ev))
      (s\<lparr>rsys := r, live := l, calls := calls s @ event_calls ctx (build_os s) ev\<rparr>)"
  have v: "view_message fd v = v\<lparr>reading := (reading v)(fd := Some (k, evs)), delivered := delivered v @ [(k, ev)]\<rparr>"
    using assms(2) by (simp add: view_message_def)
  have "watched srv pipe (view_message fd v) = watched srv pipe v" "over (view_message fd v) = over v"
    using assms(2) by (auto simp: v watched_def)
  then have run: "serve_fd ctx srv pipe rd er fd (loop_view srv pipe st v) s
      = Ok (loop_view srv pipe st (view_message fd v)) ?t"
    using assms(3,4) c(1) m(1)
    by (simp add: serve_fd_def loop_view_def client_fd_def io_then_def io_bind_def io_on_fail_def)
  have "fdt ?t fd = Some (d\<lparr>inp := stream_of ctx evs\<rparr>)" using d by (simp add: got_bytes_def)
  then have "reads ctx B ?t fd evs" using ok(2) by (simp add: reads_def)
  then have "matches ctx srv pipe st B p C (view_message fd v) ?t n"
    unfolding v
    by (intro matches_change [OF assms(1) c(1)])
      (use m(2,3) h(3,4) d(1) in \<open>simp_all add: calm_host_def, simp_all add: got_bytes_def\<close>)
  with run show ?thesis by (rule that)
qed

lemma serve_end:
  assumes "matches ctx srv pipe st B p C v s (n + B)" and "4 \<le> B" and "reading v fd = Some (k, [])"
    and "fd \<notin> er" "fd \<in> rd"
  obtains t where "serve_fd ctx srv pipe rd er fd (loop_view srv pipe st v) s
      = Ok (loop_view srv pipe st (view_message fd v)) t"
    "matches ctx srv pipe st B p C (view_message fd v) t n"
proof -
  have c: "client_fd srv pipe fd" "reads ctx B s fd []" using assms(1,3) by (auto simp: matches_def reads_ok_def)
  then obtain d where d: "fdt s fd = Some d" "inp d = enc_done @ []" by (auto simp: reads_def stream_of_def)
  have h: "soft_r (rsys s)" "n + 4 \<le> chunks (rsys s)" "close_errs s = [] \<and> \<not> debug s"
    using assms(1,2) by (auto simp: matches_def calm_host_def)
  obtain r where m: "handle_message ctx fd s = Fail (got_bytes fd 4 (s\<lparr>rsys := r\<rparr>))" "soft_r r" "n \<le> chunks r"
    by (rule done_step [OF d h(1,2)])
  let ?t = "got_bytes fd 4 (s\<lparr>rsys := r\<rparr>)"
  have v: "view_message fd v = view_shut fd v" using assms(3) by (simp add: view_message_def)
  have q: "close_errs ?t = []" using h(3) by simp
  have run: "serve_fd ctx srv pipe rd er fd (loop_view srv pipe st v) s
      = Ok (loop_view srv pipe st (view_message fd v)) (close_fd fd ?t)"
    using assms(4,5) c(1) m(1) close_socket_quiet [OF q]
    by (simp add: serve_fd_def loop_view_def v watched_shut [OF c(1)] client_fd_def io_then_def io_bind_def io_on_fail_def)
  have "matches ctx srv pipe st B p C (view_message fd v) (close_fd fd ?t) n"
    unfolding v view_shut_eq
    by (rule matches_change [OF assms(1) c(1)])
      (use m(2,3) h(3) in \<open>simp_all add: calm_host_def, simp_all add: close_fd_def got_bytes_def\<close>)
  with run show ?thesis by (rule that)
qed

lemma view_accept_cases:
  assumes "waiting v = (c, evs) # q"
  shows "view_accept v = v\<lparr>waiting := q, accepted := Suc (accepted v),
    reading := (if reading v c = None then (reading v)(c \<mapsto> (accepted v, evs)) else reading v)\<rparr>"
  using assms by (simp add: view_accept_def)

lemma serve_accept:
  assumes "matches ctx srv pipe st B p C v s n" and "srv \<notin> er" "srv \<in> rd"
  obtains t where "serve_fd ctx srv pipe rd er srv (loop_view srv pipe st v) s
      = Ok (loop_view srv pipe st (view_accept v)) t"
    "matches ctx srv pipe st B p C (view_accept v) t n"
proof (cases "waiting v")
  case Nil
  then have "incoming s = []" using assms(1) by (simp add: matches_def waits_ok_def)
  moreover have "\<not> debug s" using assms(1) by (simp add: matches_def calm_host_def)
  ultimately have "accept_connection s = Ok (-1) s"
    by (simp add: accept_connection_def sys_accept_def io_bind_def io_then_def WARN_ON_FAIL_VALUE_def)
  then have "serve_fd ctx srv pipe rd er srv (loop_view srv pipe st v) s = Ok (loop_view srv pipe st v) s"
    using assms(2,3) by (simp add: serve_fd_def loop_view_def)
  then show ?thesis using that [of s] assms(1) Nil by (simp add: view_accept_def)
next
  case (Cons cw q)
  obtain c evs where cw: "cw = (c, evs)" by (cases cw)
  let ?d = "\<lparr>fd_kind = Sock (Some []), sent = [], inp = stream_of ctx evs, peer_open = False\<rparr> :: fdesc"
  let ?q = "map (\<lambda>(c, evs). (c, stream_of ctx evs, False)) q"
  have w: "incoming s = (c, stream_of ctx evs, False) # ?q" "client_fd srv pipe c"
    "list_all (msg_ok ctx (mem_max s) B) evs" "fdt s c = None \<longleftrightarrow> reading v c = None"
    "list_all (\<lambda>(c, evs). client_fd srv pipe c \<and> list_all (msg_ok ctx (mem_max s) B) evs
        \<and> (fdt s c = None \<longleftrightarrow> reading v c = None)) q"
    using assms(1) Cons cw by (simp_all add: matches_def waits_ok_def)
  have c: "c \<in> set all_fds" "c \<noteq> srv" "c \<noteq> pipe" using w(2) by (simp_all add: client_fd_def)
  note va = view_accept_cases [OF Cons [unfolded cw]]
  show ?thesis
  proof (cases "reading v c = None")
    case True
    then have n: "fdt s c = None" using w(4) by simp
    let ?t = "s\<lparr>incoming := ?q, fdt := (fdt s)(c \<mapsto> ?d)\<rparr>"
    have A: "insert c (watched srv pipe v) = watched srv pipe (view_accept v)" "over (view_accept v) = over v"
      using True by (auto simp: va watched_def)
    have r: "0 \<le> c" "c < FD_SETSIZE" using c(1) by simp_all
    have "sys_accept s = Ok c ?t" using w(1) n r(1) by (simp add: sys_accept_def Let_def)
    then have "accept_connection s = Ok c ?t" using r(1) by (simp add: accept_connection_def WARN_ON_FAIL_VALUE_def)
    then have run: "serve_fd ctx srv pipe rd er srv (loop_view srv pipe st v) s = Ok (loop_view srv pipe st (view_accept v)) ?t"
      using assms(2,3) A r by (simp add: serve_fd_def loop_view_def FD_SET_def)
    have "reads_ok ctx srv pipe B (view_accept v) ?t"
      using assms(1) True w(2,3) by (auto simp: va matches_def reads_ok_def reads_def)
    moreover have "waits_ok ctx srv pipe B (view_accept v) ?t"
      using True w(5) unfolding waits_ok_def va by (auto simp: list_all_iff split_beta)
    moreover have "over v \<or> pipe_holds ?t pipe st" using assms(1) c(3) by (simp add: matches_def pipe_holds_def)
    ultimately have "matches ctx srv pipe st B p C (view_accept v) ?t n"
      using assms(1) by (simp add: matches_def calm_host_def va)
    with run show ?thesis by (rule that)
  next
    case False
    then have n: "fdt s c \<noteq> None" using w(4) by simp
    let ?t = "s\<lparr>incoming := ?q\<rparr>"
    have A: "watched srv pipe (view_accept v) = watched srv pipe v" "over (view_accept v) = over v"
      using False by (auto simp: va watched_def)
    have "sys_accept s = Ok (-1) ?t" using w(1) n by (simp add: sys_accept_def Let_def)
    moreover have "\<not> debug s" using assms(1) by (simp add: matches_def calm_host_def)
    ultimately have run: "serve_fd ctx srv pipe rd er srv (loop_view srv pipe st v) s = Ok (loop_view srv pipe st (view_accept v)) ?t"
      using assms(2,3) A by (simp add: serve_fd_def loop_view_def accept_connection_def WARN_ON_FAIL_VALUE_def)
    have "matches ctx srv pipe st B p C (view_accept v) ?t n"
      using assms(1) False w(5)
      by (auto simp: va matches_def calm_host_def reads_ok_def reads_def waits_ok_def pipe_holds_def list_all_iff)
    with run show ?thesis by (rule that)
  qed
qed

text \<open>The pipe, with a status or, as the thread leaves it, dry.\<close>

lemma do_read_loop_dry:
  assumes "0 < unat n" and "unat n < 2 ^ 63" and "fdt s fd = Some d" and "inp d = []" and "\<not> peer_open d"
    and "soft_r (rsys s)" and "k < chunks (rsys s)"
  shows "\<exists>r. do_read_loop fd n (int 0) buf s = Fail (got_bytes fd 0 (s\<lparr>rsys := r\<rparr>)) \<and> soft_r r \<and> k \<le> chunks r"
  using assms(3-)
proof (induction "rsys s" arbitrary: s)
  case Nil
  then show ?case by (cases "rsys s") auto
next
  case (Cons x r)
  have step: "do_read_loop fd n (int 0) buf t = (case sys_read fd (unat n - 0) t of
       Wait \<Rightarrow> Blocked
     | Err e s' \<Rightarrow> (if e = EAGAIN \<or> e = EINTR then do_read_loop fd n (int 0) buf s' else Fail s')
     | Ret got s' \<Rightarrow> (if got = [] then Fail s' else do_read_loop fd n (int 0 + int (length got)) (buf @ got) s'))" for t
    by (rule do_read_loop_step [OF assms(2,1)])
  show ?case
  proof (cases x)
    case (RdErr e)
    with Cons.hyps(2) have rs: "rsys s = RdErr e # r" by simp
    with Cons.prems have e: "e = EAGAIN \<or> e = EINTR" and sr: "soft_r r" "k < chunks r" by simp_all
    have "sys_read fd (unat n - 0) s = Err e (s\<lparr>rsys := r\<rparr>)" using rs Cons.prems(1) by (simp add: sys_read_def)
    then have "do_read_loop fd n (int 0) buf s = do_read_loop fd n (int 0) buf (s\<lparr>rsys := r\<rparr>)"
      using e by (subst step) simp
    with Cons.hyps(1) [of "s\<lparr>rsys := r\<rparr>"] Cons.prems(1-3) sr show ?thesis by simp
  next
    case (Chunk j)
    with Cons.hyps(2) have rs: "rsys s = Chunk j # r" by simp
    have "sys_read fd (unat n - 0) s = Ret [] (got_bytes fd 0 (s\<lparr>rsys := r\<rparr>))"
      using Cons.prems(1,2,3) rs by (simp add: sys_read_def Let_def fun_upd_idem)
    then have "do_read_loop fd n (int 0) buf s = Fail (got_bytes fd 0 (s\<lparr>rsys := r\<rparr>))"
      by (subst step) simp
    then show ?thesis using rs Cons.prems(4,5) by (intro exI [of _ r]) simp
  qed
qed

lemma read_status_holds:
  assumes "pipe_holds s pipe st" and "soft_r (rsys s)" and "n + 4 \<le> chunks (rsys s)"
  obtains r m where "read_status pipe 0 s = Ok st (got_bytes pipe m (s\<lparr>rsys := r\<rparr>))" "soft_r r" "n \<le> chunks r"
proof -
  from assms(1) obtain d where d: "fdt s pipe = Some d" "inp d = obj32 st \<or> inp d = [] \<and> \<not> peer_open d \<and> st = 0"
    by (auto simp: pipe_holds_def)
  from d(2) show ?thesis
  proof
    assume "inp d = obj32 st"
    then have "inp d = obj32 st @ []" "n + length (obj32 st) \<le> chunks (rsys s)" "0 \<le> mem_max s"
      using assms(3) by simp_all
    from parsesE [OF int_codec.get_parses d(1) this(1) assms(2) this(2,3)] obtain r where
      "voyeur_read_int pipe s = Ok st (got_bytes pipe 4 (s\<lparr>rsys := r, live := live s + 0\<rparr>))" "soft_r r" "n \<le> chunks r"
      by auto
    then show ?thesis by (intro that [of 4 r]) (simp_all add: read_status_def)
  next
    assume e: "inp d = [] \<and> \<not> peer_open d \<and> st = 0"
    have "0 < unat (4 :: size_t)" "unat (4 :: size_t) < 2 ^ 63" "n < chunks (rsys s)" using assms(3) by simp_all
    then obtain r where "do_read_loop pipe 4 (int 0) [] s = Fail (got_bytes pipe 0 (s\<lparr>rsys := r\<rparr>))" "soft_r r" "n \<le> chunks r"
      using do_read_loop_dry d(1) e assms(2) by metis
    then show ?thesis using e
      by (intro that [of 0 r]) (simp_all add: read_status_def voyeur_read_int_def do_read_def Let_def)
  qed
qed

lemma serve_pipe:
  assumes "matches ctx srv pipe st B p C v s (n + B)" and "4 \<le> B" and "\<not> over v" and "srv \<noteq> pipe"
    and "pipe \<notin> er" "pipe \<in> rd"
  obtains t where "serve_fd ctx srv pipe rd er pipe (loop_view srv pipe st v) s
      = Ok (loop_view srv pipe st (v\<lparr>over := True\<rparr>)) t"
    "matches ctx srv pipe st B p C (v\<lparr>over := True\<rparr>) t n"
proof -
  have h: "pipe_holds s pipe st" "soft_r (rsys s)" "n + 4 \<le> chunks (rsys s)" "close_errs s = []"
    "reads_ok ctx srv pipe B v s" "waits_ok ctx srv pipe B v s"
    using assms(1,2,3) by (auto simp: matches_def calm_host_def)
  obtain r m where r: "read_status pipe 0 s = Ok st (got_bytes pipe m (s\<lparr>rsys := r\<rparr>))" "soft_r r" "n \<le> chunks r"
    by (rule read_status_holds [OF h(1-3)])
  let ?t = "got_bytes pipe m (s\<lparr>rsys := r\<rparr>)"
  have q: "close_errs ?t = []" using h(4) by simp
  have np: "reading v pipe = None" using h(5) by (cases "reading v pipe") (auto simp: reads_ok_def client_fd_def)
  then have A: "watched srv pipe v - {pipe} = watched srv pipe (v\<lparr>over := True\<rparr>)"
    using assms(3,4) by (auto simp: watched_def)
  have run: "serve_fd ctx srv pipe rd er pipe (loop_view srv pipe st v) s
      = Ok (loop_view srv pipe st (v\<lparr>over := True\<rparr>)) (close_fd pipe ?t)"
    using assms(3-6) r(1) close_socket_quiet [OF q] A by (simp add: serve_fd_def loop_view_def)
  have other: "fdt (close_fd pipe ?t) g = fdt s g" if "g \<noteq> pipe" for g using that by (simp add: got_bytes_def)
  have "reads_ok ctx srv pipe B (v\<lparr>over := True\<rparr>) (close_fd pipe ?t)"
    using h(5) other by (auto simp: reads_ok_def client_fd_def reads_def)
  moreover have inc: "incoming (close_fd pipe ?t) = incoming s" "build_os (close_fd pipe ?t) = build_os s"
    "calls (close_fd pipe ?t) = calls s" "debug (close_fd pipe ?t) = debug s"
    by (simp_all add: close_fd_def got_bytes_def)
  moreover have "waits_ok ctx srv pipe B (v\<lparr>over := True\<rparr>) (close_fd pipe ?t)"
    using h(6) other inc(1) by (auto simp: waits_ok_def client_fd_def list_all_iff)
  ultimately have "matches ctx srv pipe st B p C (v\<lparr>over := True\<rparr>) (close_fd pipe ?t) n"
    using assms(1) r(2,3) h(4) by (simp add: matches_def calm_host_def)
  with run show ?thesis by (rule that)
qed

section \<open>A pass and the whole loop\<close>

lemma matches_weaken: "matches ctx srv pipe st B p C v s n \<Longrightarrow> m \<le> n \<Longrightarrow> matches ctx srv pipe st B p C v s m"
  by (auto simp: matches_def calm_host_def)

lemma watched_client:
  assumes "matches ctx srv pipe st B p C v s n" and "fd \<in> watched srv pipe v" and "fd \<noteq> srv" and "fd \<noteq> pipe"
  obtains k evs where "reading v fd = Some (k, evs)" "client_fd srv pipe fd"
  using assms by (auto simp: watched_def matches_def reads_ok_def split: if_splits)

lemma serve_fd_view:
  assumes "matches ctx srv pipe st B p C v s (n + B)" and "4 \<le> B" and "srv \<noteq> pipe"
    and "fd \<in> rd \<union> er \<Longrightarrow> fd \<in> watched srv pipe v" and "srv \<notin> er" and "pipe \<notin> er"
  obtains t where "serve_fd ctx srv pipe rd er fd (loop_view srv pipe st v) s
      = Ok (loop_view srv pipe st (view_fd srv pipe rd er fd v)) t"
    "matches ctx srv pipe st B p C (view_fd srv pipe rd er fd v) t n"
proof -
  have m: "matches ctx srv pipe st B p C v s n" by (rule matches_weaken [OF assms(1)]) simp
  consider "fd \<in> er" | "fd \<notin> er" "fd \<in> rd" "fd = srv" | "fd \<notin> er" "fd \<in> rd" "fd = pipe"
    | "fd \<notin> er" "fd \<in> rd" "fd \<noteq> srv" "fd \<noteq> pipe" | "fd \<notin> er" "fd \<notin> rd" by blast
  then show ?thesis
  proof cases
    case 1
    then have "client_fd srv pipe fd" using watched_client [OF m assms(4)] assms(5,6) by blast
    from serve_error [OF m this 1] close_client [OF m this] 1 show ?thesis by (intro that) (simp_all add: view_fd_def)
  next
    case 2
    obtain t where "serve_fd ctx srv pipe rd er srv (loop_view srv pipe st v) s = Ok (loop_view srv pipe st (view_accept v)) t"
      "matches ctx srv pipe st B p C (view_accept v) t n"
      by (rule serve_accept [OF m]) (use 2 in auto)
    with 2 show ?thesis by (intro that) (simp_all add: view_fd_def)
  next
    case 3
    then have no: "\<not> over v" using assms(1,3,4) by (auto simp: watched_def matches_def reads_ok_def client_fd_def)
    obtain t where "serve_fd ctx srv pipe rd er pipe (loop_view srv pipe st v) s = Ok (loop_view srv pipe st (v\<lparr>over := True\<rparr>)) t"
      "matches ctx srv pipe st B p C (v\<lparr>over := True\<rparr>) t n"
      by (rule serve_pipe [OF assms(1,2) no assms(3)]) (use 3 in auto)
    with 3 assms(3) show ?thesis by (intro that) (simp_all add: view_fd_def)
  next
    case 4
    obtain k evs where r: "reading v fd = Some (k, evs)" using watched_client [OF m assms(4)] 4 by blast
    obtain t where "serve_fd ctx srv pipe rd er fd (loop_view srv pipe st v) s = Ok (loop_view srv pipe st (view_message fd v)) t"
      "matches ctx srv pipe st B p C (view_message fd v) t n"
    proof (cases evs)
      case Nil
      from serve_end [OF assms(1,2) r [unfolded Nil] 4(1,2)] that show ?thesis by blast
    next
      case (Cons e es)
      from serve_event [OF assms(1) r [unfolded Cons] 4(1,2)] that show ?thesis by blast
    qed
    with 4 show ?thesis by (intro that) (simp_all add: view_fd_def)
  next
    case 5
    then have "serve_fd ctx srv pipe rd er fd (loop_view srv pipe st v) s = Ok (loop_view srv pipe st v) s"
      by (simp add: serve_fd_def loop_view_def)
    with 5 m show ?thesis by (intro that) (simp_all add: view_fd_def)
  qed
qed

text \<open>A descriptor that \<open>select\<close> reported is still watched when its turn comes.\<close>

lemma watched_view_fd:
  assumes "g \<in> watched srv pipe v" and "g \<noteq> fd"
  shows "g \<in> watched srv pipe (view_fd srv pipe rd er fd v)"
proof -
  have shut: "g \<in> watched srv pipe (view_shut fd v)" using assms by (auto simp: watched_def split: if_splits)
  then have "g \<in> watched srv pipe (view_message fd v)"
    using assms by (auto simp: view_message_def watched_def split: option.split list.split)
  moreover have "g \<in> watched srv pipe (view_accept v)"
    using assms by (auto simp: view_accept_def watched_def split: list.split)
  moreover have "fd = pipe \<Longrightarrow> g \<in> watched srv pipe (v\<lparr>over := True\<rparr>)"
    using assms by (auto simp: watched_def split: if_splits)
  ultimately show ?thesis using assms shut by (simp add: view_fd_def)
qed

lemma serve_fds_view:
  assumes "matches ctx srv pipe st B p C v s (n + length fds * B)" and "4 \<le> B" and "srv \<noteq> pipe"
    and "\<And>fd. fd \<in> set fds \<Longrightarrow> fd \<in> rd \<union> er \<Longrightarrow> fd \<in> watched srv pipe v" and "srv \<notin> er" and "pipe \<notin> er"
    and "distinct fds"
  shows "\<exists>t. serve_fds ctx srv pipe rd er fds (loop_view srv pipe st v) s
      = Ok (loop_view srv pipe st (fold (view_fd srv pipe rd er) fds v)) t
    \<and> matches ctx srv pipe st B p C (fold (view_fd srv pipe rd er) fds v) t n"
  using assms(1,4,7)
proof (induction fds arbitrary: v s)
  case Nil
  then show ?case by simp
next
  case (Cons fd fds)
  let ?v = "view_fd srv pipe rd er fd v"
  have "matches ctx srv pipe st B p C v s ((n + length fds * B) + B)"
    by (rule matches_weaken [OF Cons.prems(1)]) simp
  then obtain t where t: "serve_fd ctx srv pipe rd er fd (loop_view srv pipe st v) s = Ok (loop_view srv pipe st ?v) t"
    "matches ctx srv pipe st B p C ?v t (n + length fds * B)"
    using serve_fd_view [OF _ assms(2,3) _ assms(5,6), of ctx st p C v s "n + length fds * B" fd rd]
      Cons.prems(2) [of fd] by auto
  have "\<And>g. g \<in> set fds \<Longrightarrow> g \<in> rd \<union> er \<Longrightarrow> g \<in> watched srv pipe ?v"
    using Cons.prems(2,3) by (intro watched_view_fd) auto
  from Cons.IH [OF t(2) this] t(1) Cons.prems(3) show ?case by simp
qed

text \<open>The room a whole script of \<open>select\<close> answers can take.\<close>

definition passes_room :: "nat \<Rightarrow> select_answer list \<Rightarrow> nat" where
  "passes_room B sels = length sels * (1024 * B)"

text \<open>No error is reported on the listening socket or the pipe.\<close>

fun calm_answer :: "int \<Rightarrow> int \<Rightarrow> select_answer \<Rightarrow> bool" where
  "calm_answer srv pipe (Ready rd er) = (srv \<notin> er \<and> pipe \<notin> er)"
| "calm_answer srv pipe (SelectErr e) = True"

lemma length_all_fds: "length all_fds = 1024"
  by (simp add: all_fds_def FD_SETSIZE_def)

lemma run_loop_view:
  assumes "matches ctx srv pipe st B p C v s (n + passes_room B sels)" and "4 \<le> B" and "srv \<noteq> pipe"
    and "list_all (calm_answer srv pipe) sels"
  shows "case view_run srv pipe sels v of
      None \<Rightarrow> run_loop ctx srv pipe sels (loop_view srv pipe st v) s = Blocked
    | Some u \<Rightarrow> (\<exists>t. run_loop ctx srv pipe sels (loop_view srv pipe st v) s = Ok (loop_view srv pipe st u) t
        \<and> matches ctx srv pipe st B p C u t n)"
  using assms(1,4)
proof (induction sels arbitrary: v s)
  case Nil
  then show ?case by (simp add: loop_view_def passes_room_def)
next
  case (Cons a sels)
  have m: "matches ctx srv pipe st B p C v s n" by (rule matches_weaken [OF Cons.prems(1)]) simp
  show ?case
  proof (cases a)
    case (SelectErr e)
    have "matches ctx srv pipe st B p C v s (n + passes_room B sels)"
      by (rule matches_weaken [OF Cons.prems(1)]) (simp add: passes_room_def)
    from Cons.IH [OF this] Cons.prems(2) m SelectErr show ?thesis
      by (auto simp: loop_view_def split: option.splits)
  next
    case (Ready rd er)
    show ?thesis
    proof (cases "over v")
      case True
      with Ready m show ?thesis by (simp add: loop_view_def)
    next
      case False
      let ?W = "watched srv pipe v"
      let ?u = "view_pass srv pipe rd er v"
      have "matches ctx srv pipe st B p C v s ((n + passes_room B sels) + length all_fds * B)"
        by (rule matches_weaken [OF Cons.prems(1)]) (simp add: passes_room_def length_all_fds)
      from serve_fds_view [OF this assms(2,3), of "rd \<inter> ?W" "er \<inter> ?W"] obtain t where
        t: "serve_fds ctx srv pipe (rd \<inter> ?W) (er \<inter> ?W) all_fds (loop_view srv pipe st v) s = Ok (loop_view srv pipe st ?u) t"
          "matches ctx srv pipe st B p C ?u t (n + passes_room B sels)"
        using Cons.prems(2) Ready distinct_all_fds by (auto simp: view_pass_def)
      have "run_loop ctx srv pipe (a # sels) (loop_view srv pipe st v) s = run_loop ctx srv pipe sels (loop_view srv pipe st ?u) t"
        using False t(1) by (simp add: Ready loop_view_def io_bind_Ok)
      with Cons.IH [OF t(2)] Cons.prems(2) Ready False show ?thesis by (simp split: option.splits)
    qed
  qed
qed

text \<open>
  What a server finds: the clients that will connect, each with a descriptor and its stream, the pipe, and
  a kernel that answers every read and close.
\<close>

definition serves :: "'c voyeur_context_scheme \<Rightarrow> int \<Rightarrow> int \<Rightarrow> cint \<Rightarrow> nat \<Rightarrow> (int \<times> event list) list
    \<Rightarrow> 'z host_scheme \<Rightarrow> bool" where
  "serves ctx srv pipe st B q s \<longleftrightarrow>
     srv \<in> set all_fds \<and> pipe \<in> set all_fds \<and> srv \<noteq> pipe \<and> 4 \<le> B \<and> pipe_holds s pipe st
   \<and> incoming s = map (\<lambda>(c, evs). (c, stream_of ctx evs, False)) q
   \<and> list_all (\<lambda>(c, evs). client_fd srv pipe c \<and> fdt s c = None \<and> list_all (msg_ok ctx (mem_max s) B) evs) q
   \<and> calm_host (passes_room B (selects s)) s \<and> list_all (calm_answer srv pipe) (selects s)"

lemma serves_matches:
  assumes "serves ctx srv pipe st B q s"
  shows "matches ctx srv pipe st B (build_os s) (calls s) (view0 q) s (0 + passes_room B (selects s))"
proof -
  have "reads_ok ctx srv pipe B (view0 q) s" by (simp add: reads_ok_def view0_def)
  moreover have "waits_ok ctx srv pipe B (view0 q) s"
    using assms by (auto simp: serves_def waits_ok_def view0_def list_all_iff)
  ultimately show ?thesis using assms by (simp add: matches_def serves_def view0_def)
qed

text \<open>What running the server amounts to, given the abstract server's end.\<close>

definition served :: "'c voyeur_context_scheme \<Rightarrow> 'z host_scheme \<Rightarrow> cint \<Rightarrow> view option \<Rightarrow> (int, 'z host_scheme) res \<Rightarrow> bool" where
  "served ctx s st end r = (case end of
       None \<Rightarrow> r = Blocked
     | Some u \<Rightarrow> (\<exists>s'. r = Ok (exit_code (if over u then st else 0)) s'
         \<and> calls s' = calls s @ delivers ctx (build_os s) (delivered u)))"

lemma run_server_view:
  assumes "serves ctx srv pipe st B q s"
  shows "served ctx s st (view_run srv pipe (selects s) (view0 q)) (run_server ctx srv pipe s)"
proof -
  have h: "srv \<in> set all_fds" "pipe \<in> set all_fds" "srv \<noteq> pipe" "4 \<le> B" "list_all (calm_answer srv pipe) (selects s)"
    using assms by (simp_all add: serves_def)
  have start: "loop_view srv pipe st (view0 q) = ({pipe, srv}, False, 0)"
    by (auto simp: loop_view_def view0_def watched_def)
  note loop = run_loop_view [OF serves_matches [OF assms] h(4,3,5), unfolded start]
  have server: "run_server ctx srv pipe s = io_bind (run_loop ctx srv pipe (selects s) ({pipe, srv}, False, 0))
      (\<lambda>(active, _, child_status). io_then (voyeur_close_socket srv)
        (io_then (io_each voyeur_close_socket (filter (\<lambda>fd. fd \<in> active) all_fds)) (io_ret (exit_code child_status)))) s"
    using h(1,2) by (simp add: run_server_def FD_SET_def)
  show ?thesis
  proof (cases "view_run srv pipe (selects s) (view0 q)")
    case None
    with loop have "run_loop ctx srv pipe (selects s) ({pipe, srv}, False, 0) s = Blocked" by simp
    then show ?thesis using None server by (simp add: served_def io_bind_def)
  next
    case (Some u)
    with loop obtain t where t: "run_loop ctx srv pipe (selects s) ({pipe, srv}, False, 0) s = Ok (loop_view srv pipe st u) t"
      "matches ctx srv pipe st B (build_os s) (calls s) u t 0" by auto
    have c: "close_errs t = []" "calls t = calls s @ delivers ctx (build_os s) (delivered u)"
      using t(2) by (simp_all add: matches_def calm_host_def)
    obtain w where "io_then (voyeur_close_socket srv) (io_then (io_each voyeur_close_socket
        (filter (\<lambda>fd. fd \<in> watched srv pipe u) all_fds)) (io_ret (exit_code (if over u then st else 0)))) t
      = Ok (exit_code (if over u then st else 0)) w" "calls w = calls t"
      by (rule close_down [OF c(1)])
    then show ?thesis using Some server t(1) c(2) by (simp add: served_def loop_view_def io_bind_def)
  qed
qed

text \<open>
  C1: the server loop refines the abstract server: for any number of clients, any descriptors the kernel
  gives them, any way it splits the streams into reads, and any sequence of answers of \<open>select\<close> (several
  descriptors ready at once, interrupted calls, errors on clients' descriptors, a failure of \<open>select\<close>),
  the loop returns exactly when the abstract server does, and calls the registered callbacks for exactly
  the events it delivers, in its order; the result is the exit code of the status in the pipe.
\<close>

theorem server_refines:
  assumes "serves ctx srv pipe st B q s"
  shows "served ctx s st (view_run srv pipe (selects s) (view0 q)) (run_server ctx srv pipe s)"
  using assms by (rule run_server_view)

section \<open>Each client in order\<close>

text \<open>The events of client \<open>k\<close> in a log.\<close>

definition history :: "nat \<Rightarrow> (nat \<times> event) list \<Rightarrow> event list" where
  "history k L = map snd (filter (\<lambda>x. fst x = k) L)"

lemma history_simps [simp]:
  "history k [] = []" "history k (L @ [(j, ev)]) = history k L @ (if j = k then [ev] else [])"
  by (simp_all add: history_def)

text \<open>
  Of the clients accepted so far, what was delivered is a beginning of what they sent; a connection that
  is still read holds the rest, and no two connections belong to one client; nothing was delivered for
  the others.
\<close>

definition fair :: "(int \<times> event list) list \<Rightarrow> view \<Rightarrow> bool" where
  "fair q v \<longleftrightarrow>
     accepted v \<le> length q \<and> waiting v = drop (accepted v) q
   \<and> (\<forall>k < length q. prefix (history k (delivered v)) (snd (q ! k)))
   \<and> (\<forall>k \<ge> accepted v. history k (delivered v) = [])
   \<and> (\<forall>fd k evs. reading v fd = Some (k, evs) \<longrightarrow>
        k < accepted v \<and> history k (delivered v) @ evs = snd (q ! k)
        \<and> (\<forall>g. g \<noteq> fd \<longrightarrow> map_option fst (reading v g) \<noteq> Some k))"

lemma fair_view0: "fair q (view0 q)"
  by (simp add: fair_def view0_def)

lemma fair_shut: "fair q v \<Longrightarrow> fair q (view_shut fd v)"
  unfolding fair_def by (auto simp: view_shut_def)

lemma fair_accept:
  assumes "fair q v"
  shows "fair q (view_accept v)"
proof (cases "waiting v")
  case Nil
  with assms show ?thesis by (simp add: view_accept_def)
next
  case (Cons cw w)
  obtain c evs where cw: "cw = (c, evs)" by (cases cw)
  have "drop (accepted v) q = cw # w" using assms Cons by (simp add: fair_def)
  then have k: "accepted v < length q" by (metis drop_all list.distinct(1) not_le)
  then have w: "q ! accepted v = (c, evs)" "w = drop (Suc (accepted v)) q"
    using assms Cons cw by (simp_all add: fair_def Cons_nth_drop_Suc [symmetric])
  have fresh: "map_option fst (reading v g) \<noteq> Some (accepted v)" for g
  proof
    assume "map_option fst (reading v g) = Some (accepted v)"
    then obtain evs' where "reading v g = Some (accepted v, evs')" by auto
    then have "accepted v < accepted v" using assms unfolding fair_def by blast
    then show False by simp
  qed
  have old: "history (accepted v) (delivered v) = []" using assms by (simp add: fair_def)
  show ?thesis
  proof (cases "reading v c = None")
    case True
    then show ?thesis
      using assms k w fresh old Cons cw unfolding fair_def view_accept_cases [OF Cons [unfolded cw]]
      by (auto simp: less_Suc_eq)
  next
    case False
    then show ?thesis
      using assms k w Cons cw unfolding fair_def view_accept_cases [OF Cons [unfolded cw]]
      by (auto simp: less_Suc_eq)
  qed
qed

lemma fair_message:
  assumes "fair q v"
  shows "fair q (view_message fd v)"
proof (cases "reading v fd")
  case None
  with assms show ?thesis by (simp add: view_message_def)
next
  case (Some x)
  obtain k evs where x: "x = (k, evs)" by (cases x)
  show ?thesis
  proof (cases evs)
    case Nil
    with Some x fair_shut [OF assms] show ?thesis by (simp add: view_message_def)
  next
    case (Cons e es)
    have k: "k < accepted v" "history k (delivered v) @ e # es = snd (q ! k)"
      "\<And>g. g \<noteq> fd \<Longrightarrow> map_option fst (reading v g) \<noteq> Some k"
      using assms Some x Cons unfolding fair_def by blast+
    let ?v = "v\<lparr>reading := (reading v)(fd \<mapsto> (k, es)), delivered := delivered v @ [(k, e)]\<rparr>"
    have pre: "prefix (history k (delivered v) @ [e]) (snd (q ! k))" unfolding k(2) [symmetric] by simp
    have view: "view_message fd v = ?v" using Some x Cons by (simp add: view_message_def)
    have other: "j \<noteq> k" if "reading v g = Some (j, evs')" "g \<noteq> fd" for g j evs' using k(3) [of g] that by auto
    have f: "accepted v \<le> length q" "waiting v = drop (accepted v) q"
      "\<forall>k < length q. prefix (history k (delivered v)) (snd (q ! k))"
      "\<forall>k \<ge> accepted v. history k (delivered v) = []"
      "\<And>fd k evs. reading v fd = Some (k, evs) \<Longrightarrow> k < accepted v \<and> history k (delivered v) @ evs = snd (q ! k)
        \<and> (\<forall>g. g \<noteq> fd \<longrightarrow> map_option fst (reading v g) \<noteq> Some k)"
      using assms unfolding fair_def by blast+
    have "\<forall>j \<ge> accepted v. history j (delivered ?v) = []" using f(4) k(1) by auto
    moreover have "\<forall>j < length q. prefix (history j (delivered ?v)) (snd (q ! j))" using f(3) pre by simp
    moreover have "j < accepted ?v \<and> history j (delivered ?v) @ evs' = snd (q ! j)
        \<and> (\<forall>h. h \<noteq> g \<longrightarrow> map_option fst (reading ?v h) \<noteq> Some j)" if r: "reading ?v g = Some (j, evs')" for g j evs'
    proof (cases "g = fd")
      case True
      with r k show ?thesis by simp
    next
      case False
      then have r': "reading v g = Some (j, evs')" using r by simp
      from f(5) [OF this] other [OF this False] show ?thesis by simp
    qed
    ultimately show ?thesis unfolding view fair_def using f(1,2) by simp
  qed
qed

lemma fair_fd: "fair q v \<Longrightarrow> fair q (view_fd srv pipe rd er fd v)"
  by (simp add: view_fd_def fair_shut fair_accept fair_message) (simp add: fair_def)

lemma fair_pass: "fair q v \<Longrightarrow> fair q (view_pass srv pipe rd er v)"
proof -
  have "fair q v \<Longrightarrow> fair q (fold (view_fd srv pipe R E) fds v)" for R E fds
    by (induction fds arbitrary: v) (simp_all add: fair_fd)
  then show "fair q v \<Longrightarrow> fair q (view_pass srv pipe rd er v)" by (simp add: view_pass_def)
qed

lemma fair_run: "view_run srv pipe sels v = Some u \<Longrightarrow> fair q v \<Longrightarrow> fair q u"
  by (induction srv pipe sels v rule: view_run.induct) (auto simp: fair_pass split: if_splits)

text \<open>
  C4: with any number of clients at once, the calls the server has made when it returns are an
  interleaving of the clients' events in which each client's own are the first events it sent, in the
  order of sending, each once: none is repeated, reordered, or taken for another client's.
\<close>

theorem clients_in_order:
  assumes "serves ctx srv pipe st B q s" and "run_server ctx srv pipe s = Ok r s'"
  shows "\<exists>L. calls s' = calls s @ delivers ctx (build_os s) L
    \<and> (\<forall>k < length q. prefix (history k L) (snd (q ! k))) \<and> (\<forall>k \<ge> length q. history k L = [])"
proof -
  obtain u where u: "view_run srv pipe (selects s) (view0 q) = Some u"
    "calls s' = calls s @ delivers ctx (build_os s) (delivered u)"
    using run_server_view [OF assms(1)] assms(2)
    by (cases "view_run srv pipe (selects s) (view0 q)") (auto simp: served_def)
  have "fair q u" by (rule fair_run [OF u(1) fair_view0])
  with u(2) show ?thesis unfolding fair_def by (intro exI [of _ "delivered u"]) auto
qed

section \<open>What is lost when the child exits\<close>

lemma view_fd_skip: "fd \<notin> rd \<Longrightarrow> view_fd srv pipe rd {} fd v = v"
  by (simp add: view_fd_def)

lemma fold_view_fd: "fold (view_fd srv pipe R {}) fds v = fold (view_fd srv pipe R {}) (filter (\<lambda>fd. fd \<in> R) fds) v"
  by (induction fds arbitrary: v) (simp_all add: view_fd_skip)

lemma filter_one: "distinct xs \<Longrightarrow> x \<in> set xs \<Longrightarrow> filter (\<lambda>y. y = x) xs = [x]"
  by (induction xs) (auto simp: filter_empty_conv)

lemma filter_two:
  "distinct xs \<Longrightarrow> x \<in> set xs \<Longrightarrow> y \<in> set xs \<Longrightarrow> x \<noteq> y \<Longrightarrow> filter (\<lambda>z. z = x \<or> z = y) xs \<in> {[x, y], [y, x]}"
proof (induction xs)
  case (Cons a xs)
  have one: "b \<notin> set xs \<Longrightarrow> filter (\<lambda>z. z = b \<or> z = c) xs = filter (\<lambda>z. z = c) xs" for b c
    by (rule filter_cong) auto
  have other: "b \<notin> set xs \<Longrightarrow> filter (\<lambda>z. z = c \<or> z = b) xs = filter (\<lambda>z. z = c) xs" for b c
    by (rule filter_cong) auto
  consider "a = x" | "a = y" | "a \<noteq> x" "a \<noteq> y" by blast
  then show ?case
    using Cons one [of x y] other [of y x] filter_one [of xs x] filter_one [of xs y] by cases auto
qed simp

lemma pass_one:
  assumes "fd \<in> watched srv pipe v" and "fd \<in> set all_fds"
  shows "view_pass srv pipe {fd} {} v = view_fd srv pipe {fd} {} fd v"
proof -
  have "{fd} \<inter> watched srv pipe v = {fd}" using assms(1) by auto
  then show ?thesis
    using fold_view_fd [of srv pipe "{fd}" all_fds v] filter_one [OF distinct_all_fds assms(2)] by (simp add: view_pass_def)
qed

text \<open>The loop of one client that has the descriptor \<open>cl\<close> and still holds \<open>evs\<close>.\<close>

definition one_client :: "int \<Rightarrow> event list \<Rightarrow> event list \<Rightarrow> view \<Rightarrow> bool" where
  "one_client cl got evs v \<longleftrightarrow> reading v = [cl \<mapsto> (0, evs)] \<and> waiting v = [] \<and> \<not> over v
     \<and> delivered v = map (Pair 0) got"

lemma one_client_pass:
  assumes "one_client cl got (ev # evs) v" and "cl \<in> set all_fds" "cl \<noteq> srv" "cl \<noteq> pipe"
  shows "one_client cl (got @ [ev]) evs (view_pass srv pipe {cl} {} v)"
proof -
  have "cl \<in> watched srv pipe v" using assms(1) by (simp add: one_client_def watched_def)
  then show ?thesis
    using pass_one [OF _ assms(2)] assms(1,3,4) by (simp add: view_fd_def view_message_def one_client_def)
qed

lemma one_client_passes:
  assumes "one_client cl got (es @ evs) v" and "cl \<in> set all_fds" "cl \<noteq> srv" "cl \<noteq> pipe"
  shows "\<exists>u. view_run srv pipe (replicate (length es) (Ready {cl} {}) @ sels) v = view_run srv pipe sels u
    \<and> one_client cl (got @ es) evs u"
  using assms(1)
proof (induction es arbitrary: got v)
  case Nil
  then show ?case by auto
next
  case (Cons e es)
  then have "one_client cl (got @ [e]) (es @ evs) (view_pass srv pipe {cl} {} v)"
    using one_client_pass [OF _ assms(2-4)] by simp
  from Cons.IH [OF this] Cons.prems show ?case by (simp add: one_client_def)
qed

lemma one_client_last:
  assumes "one_client cl got (ev # evs) v" and "cl \<in> set all_fds" "cl \<noteq> srv" "cl \<noteq> pipe" "pipe \<in> set all_fds" "pipe \<noteq> srv"
  shows "over (view_pass srv pipe {cl, pipe} {} v)
    \<and> delivered (view_pass srv pipe {cl, pipe} {} v) = map (Pair 0) (got @ [ev])"
proof -
  have "{cl, pipe} \<inter> watched srv pipe v = {cl, pipe}" using assms(1) by (auto simp: one_client_def watched_def)
  then have "view_pass srv pipe {cl, pipe} {} v
      = fold (view_fd srv pipe {cl, pipe} {}) (filter (\<lambda>z. z = cl \<or> z = pipe) all_fds) v"
    using fold_view_fd [of srv pipe "{cl, pipe}" all_fds v] by (simp add: view_pass_def)
  moreover have "filter (\<lambda>z. z = cl \<or> z = pipe) all_fds \<in> {[cl, pipe], [pipe, cl]}"
    by (rule filter_two [OF distinct_all_fds assms(2,5,4)])
  ultimately show ?thesis
    using assms(1,3,4,6) by (auto simp: view_fd_def view_message_def one_client_def)
qed

text \<open>
  C5: events that are still unread when the child exits are lost: a client has sent its events, and
  \<open>length es\<close> of them have been handled when \<open>select\<close> finds the next message and the end of the child
  together; the server handles that one message, leaves the loop, closes the connection and returns, so
  that the callbacks for all the other events the client has sent are never called.
\<close>

theorem events_lost_at_exit:
  assumes "serves ctx srv pipe st B [(cl, es @ ev # lost)] s"
    and "selects s = Ready {srv} {} # replicate (length es) (Ready {cl} {}) @ Ready {cl, pipe} {} # sels"
  shows "\<exists>s'. run_server ctx srv pipe s = Ok (exit_code st) s'
    \<and> calls s' = calls s @ concat (map (event_calls ctx (build_os s)) (es @ [ev]))"
proof -
  have h: "srv \<in> set all_fds" "pipe \<in> set all_fds" "srv \<noteq> pipe" "client_fd srv pipe cl"
    using assms(1) by (simp_all add: serves_def)
  then have c: "cl \<in> set all_fds" "cl \<noteq> srv" "cl \<noteq> pipe" by (simp_all add: client_fd_def)
  let ?v0 = "view0 [(cl, es @ ev # lost)]"
  have "srv \<in> watched srv pipe ?v0" by (simp add: watched_def)
  then have "one_client cl [] (es @ ev # lost) (view_pass srv pipe {srv} {} ?v0)"
    using pass_one [OF _ h(1)] by (simp add: view_fd_def view_accept_def view0_def one_client_def)
  note passes = one_client_passes [OF this c, of "Ready {cl, pipe} {} # sels", unfolded append_Nil]
  obtain u where
    u: "view_run srv pipe (replicate (length es) (Ready {cl} {}) @ Ready {cl, pipe} {} # sels)
        (view_pass srv pipe {srv} {} ?v0) = view_run srv pipe (Ready {cl, pipe} {} # sels) u"
      "one_client cl es (ev # lost) u" using passes by blast
  let ?w = "view_pass srv pipe {cl, pipe} {} u"
  have w: "over ?w" "delivered ?w = map (Pair 0) (es @ [ev])"
    using one_client_last [OF u(2) c h(2)] h(3) by simp_all
  have "view_run srv pipe (Ready {cl, pipe} {} # sels) u = view_run srv pipe sels ?w"
    using u(2) by (simp add: one_client_def)
  also have "\<dots> = Some ?w" using w(1) by (cases "(srv, pipe, sels, ?w)" rule: view_run.cases) simp_all
  finally have "view_run srv pipe (selects s) ?v0 = Some ?w"
    unfolding assms(2) using u(1) by (simp add: view0_def)
  moreover have "delivers ctx p (map (Pair 0) L) = concat (map (event_calls ctx p) L)" for p L
    by (simp add: delivers_def comp_def)
  ultimately show ?thesis using run_server_view [OF assms(1)] w by (auto simp: served_def)
qed

section \<open>A sample\<close>

text \<open>
  Two clients, each with an event, whose messages arrive in turn; the second one's stream is not read to
  its end.
\<close>

definition ex_clients :: "(int \<times> event list) list" where
  "ex_clients = [(8, ex_events), (9, [Exit_Event 5 20 7])]"

definition ex_served :: host where
  "ex_served = ex_host\<lparr>fdt := [4 \<mapsto> ex_desc [], 6 \<mapsto> ex_desc (obj32 0x300)],
     incoming := map (\<lambda>(c, evs). (c, stream_of ex_ctx evs, False)) ex_clients,
     selects := [Ready {4} {}, SelectErr EINTR, Ready {4, 8} {}, Ready {8, 9} {}, Ready {6} {}],
     rsys := replicate 512000 (Chunk 7)\<rparr>"

lemma ex_msg_lengths:
  "list_all (msg_ok ex_ctx 65536 100) ex_events" "msg_ok ex_ctx 65536 100 (Exit_Event 5 20 7)"
  by (simp_all add: ex_events_def msg_ok_def ctx_msg_def enc_msg_def)

lemma ex_serves: "serves ex_ctx 4 6 0x300 100 ex_clients ex_served"
  using ex_msg_lengths
  by (simp add: serves_def ex_served_def ex_clients_def pipe_holds_def client_fd_def calm_host_def passes_room_def FD_SETSIZE_def)

lemma pass_sorted:
  assumes "rd \<subseteq> watched srv pipe v" and "rd \<subseteq> set all_fds"
  shows "view_pass srv pipe rd {} v = fold (view_fd srv pipe rd {}) (sorted_list_of_set rd) v"
proof -
  have "finite rd" using assms(2) finite_subset by blast
  moreover have "sorted all_fds" by (simp add: all_fds_def)
  ultimately have "filter (\<lambda>fd. fd \<in> rd) all_fds = sorted_list_of_set rd"
    using assms(2) distinct_all_fds by (intro sorted_distinct_set_unique) (auto simp: sorted_wrt_filter)
  moreover have "rd \<inter> watched srv pipe v = rd" using assms(1) by blast
  ultimately show ?thesis using fold_view_fd [of srv pipe rd all_fds v] by (simp add: view_pass_def)
qed

lemma ex_view:
  "view_run 4 6 (selects ex_served) (view0 ex_clients) = Some \<lparr>reading = [8 \<mapsto> (0, []), 9 \<mapsto> (Suc 0, [])],
     waiting = [], accepted = 2, delivered = [(0, ex_exec), (0, Exit_Event 3 7 1), (Suc 0, Exit_Event 5 20 7)], over = True\<rparr>"
proof -
  let ?d = "[(0, ex_exec), (0, Exit_Event 3 7 1), (Suc 0, Exit_Event 5 20 7)]"
  let ?e = "Exit_Event 3 7 1" and ?f = "Exit_Event 5 20 7"
  let ?v1 = "\<lparr>reading = [8 \<mapsto> (0, [ex_exec, ?e])], waiting = [(9, [?f])], accepted = Suc 0, delivered = [], over = False\<rparr>"
  let ?v2 = "\<lparr>reading = [8 \<mapsto> (0, [?e]), 9 \<mapsto> (Suc 0, [?f])], waiting = [], accepted = 2, delivered = [(0, ex_exec)], over = False\<rparr>"
  let ?v3 = "\<lparr>reading = [8 \<mapsto> (0, []), 9 \<mapsto> (Suc 0, [])], waiting = [], accepted = 2, delivered = ?d, over = False\<rparr>"
  note eval = view_fd_def view_accept_def view_message_def
  have 1: "view_pass 4 6 {4} {} (view0 ex_clients) = ?v1"
    by (subst pass_sorted) (simp_all add: watched_def FD_SETSIZE_def view0_def ex_clients_def ex_events_def eval)
  have 2: "view_pass 4 6 {4, 8} {} ?v1 = ?v2"
    by (subst pass_sorted) (simp_all add: watched_def FD_SETSIZE_def eval fun_upd_twist)
  have 3: "view_pass 4 6 {8, 9} {} ?v2 = ?v3"
    by (subst pass_sorted) (simp_all add: watched_def FD_SETSIZE_def eval fun_upd_twist)
  have 4: "view_pass 4 6 {6} {} ?v3 = ?v3\<lparr>over := True\<rparr>"
    by (subst pass_sorted) (simp_all add: watched_def FD_SETSIZE_def eval)
  have "\<not> over (view0 ex_clients)" by (simp add: view0_def)
  then show ?thesis by (simp add: ex_served_def 1 2 3 4)
qed

lemma ex_delivers:
  "delivers ex_ctx p [(0, ex_exec), (0, Exit_Event 3 7 1), (Suc 0, Exit_Event 5 20 7)]
    = [Call 10 (ExecArgs ''/bin/ls'' [''ls'', ''-l''] None None (Some ''/tmp'') 7 1) 1, Call 11 (ExitArgs 3 7 1) 2,
       Call 11 (ExitArgs 5 20 7) 2]"
  by (simp add: event_calls_def calls_of_def)

lemma ex_served_start: "calls ex_served = []"
  by (simp add: ex_served_def)

theorem server_refines_witness:
  "\<exists>s'. run_server ex_ctx 4 6 ex_served = Ok 3 s'
    \<and> calls s' = [Call 10 (ExecArgs ''/bin/ls'' [''ls'', ''-l''] None None (Some ''/tmp'') 7 1) 1,
         Call 11 (ExitArgs 3 7 1) 2, Call 11 (ExitArgs 5 20 7) 2]"
proof -
  have "exit_code 0x300 = 3" by (simp add: exit_code_def)
  then show ?thesis
    using server_refines [OF ex_serves] ex_delivers ex_served_start by (simp add: served_def ex_view)
qed

lemma ex_served_run: "\<exists>s'. run_server ex_ctx 4 6 ex_served = Ok (exit_code 0x300) s'"
  using run_server_view [OF ex_serves] by (auto simp: served_def ex_view)

theorem clients_in_order_witness:
  "\<exists>s' L. run_server ex_ctx 4 6 ex_served = Ok (exit_code 0x300) s' \<and> calls s' = delivers ex_ctx (build_os ex_served) L
    \<and> prefix (history 1 L) [Exit_Event 5 20 7] \<and> history 2 L = []"
proof -
  obtain s' where s': "run_server ex_ctx 4 6 ex_served = Ok (exit_code 0x300) s'" using ex_served_run by blast
  from clients_in_order [OF ex_serves s'] obtain L where
    L: "calls s' = calls ex_served @ delivers ex_ctx (build_os ex_served) L"
      "\<forall>k < length ex_clients. prefix (history k L) (snd (ex_clients ! k))" "\<forall>k \<ge> length ex_clients. history k L = []"
    by blast
  have "1 < length ex_clients" by (simp add: ex_clients_def)
  with L(2) have "prefix (history 1 L) (snd (ex_clients ! 1))" by blast
  moreover have "history 2 L = []" using L(3) by (simp add: ex_clients_def)
  ultimately show ?thesis using s' L(1) ex_served_start
    by (intro exI [of _ s'] exI [of _ L]) (simp add: ex_clients_def)
qed

text \<open>A child that sends two events and exits, with both messages and the end there when the server looks.\<close>

definition ex_hasty :: host where
  "ex_hasty = ex_host\<lparr>fdt := [4 \<mapsto> ex_desc [], 6 \<mapsto> ex_desc (obj32 0x300)],
     incoming := [(8, stream_of ex_ctx ex_events, False)], selects := [Ready {4} {}, Ready {8, 6} {}],
     rsys := replicate 204800 (Chunk 7)\<rparr>"

theorem events_lost_at_exit_witness:
  "\<exists>s'. run_server ex_ctx 4 6 ex_hasty = Ok 3 s'
    \<and> calls s' = [Call 10 (ExecArgs ''/bin/ls'' [''ls'', ''-l''] None None (Some ''/tmp'') 7 1) 1]"
proof -
  have "serves ex_ctx 4 6 0x300 100 [(8, [] @ ex_exec # [Exit_Event 3 7 1])] ex_hasty"
    using ex_msg_lengths
    by (simp add: serves_def ex_hasty_def pipe_holds_def client_fd_def calm_host_def passes_room_def FD_SETSIZE_def ex_events_def)
  moreover have "selects ex_hasty = Ready {4} {} # replicate (length ([] :: event list)) (Ready {8} {}) @ Ready {8, 6} {} # []"
    by (simp add: ex_hasty_def)
  moreover have "exit_code 0x300 = 3" by (simp add: exit_code_def)
  moreover have "calls ex_hasty = []" by (simp add: ex_hasty_def)
  ultimately show ?thesis
    using events_lost_at_exit [where s = ex_hasty and sels = "[]" and es = "[]" and ev = ex_exec and lost = "[Exit_Event 3 7 1]"
        and cl = 8 and srv = 4 and pipe = 6 and ctx = ex_ctx and st = "0x300" and B = 100]
    by (auto simp: event_calls_def calls_of_def)
qed

end
