(* ===== verification/Process.thy ===== *)
theory Process
  imports Env Messages Frame
begin

unbundle bit_operations_syntax

text \<open>
  The observed process, as the interposing libraries \<open>src/voyeur-*.c\<close> see it: its environment and
  identity, the functions they pass calls on to, the mutexes, and the libraries' static variables.
  Each library is considered with the C library's own \<open>close\<close> under it; \<open>Own_Close\<close> has the interposed one.
\<close>

section \<open>The process\<close>

datatype mutex = Open_Mutex | Close_Mutex | Spawn_Mutex

text \<open>
  The static variables that \<open>open\<close>, \<open>close\<close> and \<open>posix_spawn\<close> each have: \<open>initialized\<close>, \<open>opts\<close>
  (\<open>options\<close>), \<open>sock\<close>, and whether the pointer to the next definition of the function was looked up.
\<close>

record statics =
  lib_initialized :: bool
  lib_opts :: u8
  lib_sock :: int
  lib_next :: bool

definition statics0 :: statics where
  "statics0 = \<lparr>lib_initialized = False, lib_opts = 0, lib_sock = 0, lib_next = False\<rparr>"

text \<open>
  A call that is passed on to the real function. A null pointer is \<open>None\<close>; an array of strings is
  the list of its elements up to the final null.
\<close>

datatype next_call =
    Next_Open "string option" cint "cint option"
  | Next_Exit string cint
  | Next_Execve "string option" "string list option" "string list"
  | Next_Execvpe "string option" "string list option" "string list"
  | Next_Spawn "string option" "string list option" "string list"
  | Next_Spawnp "string option" "string list option" "string list"

text \<open>
  \<open>cur_dir\<close> is what \<open>getcwd\<close> returns, \<open>executable\<close> what \<open>access(path, X_OK)\<close> tests. \<open>answers\<close> holds
  what the real functions return, in order, and \<open>child_pids\<close> the identifiers of the children;
  \<open>passed\<close> logs the calls passed on. \<open>stack_pid\<close> is what the stack holds where \<open>child_pid\<close> is
  declared. \<open>locked\<close> are the mutexes that are held. The rest are the libraries' static variables.
\<close>

record process = sys +
  environ :: "string list"
  cur_dir :: "string option"
  self_pid :: pid_t
  parent_pid :: pid_t
  executable :: "string \<Rightarrow> bool"
  answers :: "cint list"
  child_pids :: "pid_t list"
  stack_pid :: pid_t
  passed :: "next_call list"
  locked :: "mutex set"
  open_vars :: statics
  close_vars :: statics
  voyeur_close_finalized :: bool
  spawn_vars :: statics
  voyeur_posix_spawn_libs :: "string option"
  voyeur_posix_spawn_opts :: "string option"
  voyeur_posix_spawn_sockpath :: "string option"
  did_exit_already :: bool
  exit_handlers :: "string list"

section \<open>Calls of the C library\<close>

text \<open>A default mutex: locking one that is held waits, for ever when the holder is the caller.\<close>

definition pthread_mutex_lock :: "mutex \<Rightarrow> (unit, 'z process_scheme) io" where
  "pthread_mutex_lock m s = (if m \<in> locked s then Blocked else Ok () (s\<lparr>locked := insert m (locked s)\<rparr>))"

definition pthread_mutex_unlock :: "mutex \<Rightarrow> (unit, 'z process_scheme) io" where
  "pthread_mutex_unlock m s = Ok () (s\<lparr>locked := locked s - {m}\<rparr>)"

definition sys_getenv :: "string \<Rightarrow> (string option, 'z process_scheme) io" where
  "sys_getenv name = io_get (\<lambda>s. getenv (environ s) name)"

text \<open>\<open>getcwd(NULL, 0)\<close> allocates the result; \<open>free\<close> of a null pointer does nothing.\<close>

definition sys_getcwd :: "(string option, 'z process_scheme) io" where
  "sys_getcwd s = (case cur_dir s of
       None \<Rightarrow> Ok None s
     | Some d \<Rightarrow> Ok (Some d) (s\<lparr>live := live s + 1\<rparr>))"

definition free_ptr :: "'a option \<Rightarrow> (unit, 'z sys_scheme) io" where
  "free_ptr ptr = (case ptr of None \<Rightarrow> io_ret () | Some _ \<Rightarrow> sys_free)"

text \<open>\<open>access(path, X_OK) >= 0\<close>; a null path is an error of the call.\<close>

definition sys_access :: "string option \<Rightarrow> (bool, 'z process_scheme) io" where
  "sys_access path = io_get (\<lambda>s. case path of None \<Rightarrow> False | Some p \<Rightarrow> executable s p)"

section \<open>Passing a call on\<close>

text \<open>
  \<open>VOYEUR_CALL_NEXT\<close>: on Linux a call through the pointer that \<open>VOYEUR_LOOKUP_NEXT\<close> sets, on OS X
  a call by name.
\<close>

definition VOYEUR_CALL_NEXT :: "bool \<Rightarrow> ('a, 'z process_scheme) io \<Rightarrow> ('a, 'z process_scheme) io" where
  "VOYEUR_CALL_NEXT found f =
     io_bind (io_get build_os) (\<lambda>plat. if plat = Linux \<and> \<not> found then io_fault else f)"

definition real_call :: "next_call \<Rightarrow> (cint, 'z process_scheme) io" where
  "real_call c s = (case answers s of
       [] \<Rightarrow> Blocked
     | r # rs \<Rightarrow> Ok r (s\<lparr>answers := rs, passed := passed s @ [c]\<rparr>))"

text \<open>A new descriptor is never one that is open.\<close>

definition real_open :: "string option \<Rightarrow> cint \<Rightarrow> cint option \<Rightarrow> (cint, 'z process_scheme) io" where
  "real_open path oflag mode =
     io_bind (real_call (Next_Open path oflag mode)) (\<lambda>r s.
       if sint r < 0 \<or> fdt s (sint r) \<noteq> None then Ok (-1) s
       else Ok r (s\<lparr>fdt := (fdt s)(sint r \<mapsto> \<lparr>fd_kind = File, sent = [], inp = [], peer_open = False\<rparr>)\<rparr>))"

definition real_close :: "cint \<Rightarrow> (cint, 'z process_scheme) io" where
  "real_close fildes s = (case sys_close (sint fildes) s of
       Ret _ s' \<Rightarrow> Ok 0 s'
     | Err _ s' \<Rightarrow> Ok (-1) s'
     | Wait \<Rightarrow> Blocked)"

text \<open>The image of the process is replaced when the call succeeds.\<close>

definition real_exec :: "next_call \<Rightarrow> (cint, 'z process_scheme) io" where
  "real_exec c = io_bind (real_call c) (\<lambda>r. if sint r < 0 then io_ret r else Exited)"

text \<open>\<open>posix_spawn\<close> writes the child's identifier when it succeeds only.\<close>

definition real_spawn :: "next_call \<Rightarrow> (cint \<times> pid_t, 'z process_scheme) io" where
  "real_spawn c = io_bind (real_call c) (\<lambda>r s.
     if r \<noteq> 0 then Ok (r, stack_pid s) s
     else case child_pids s of
       [] \<Rightarrow> Blocked
     | p # ps \<Rightarrow> Ok (r, p) (s\<lparr>child_pids := ps\<rparr>))"

definition real_exit :: "string \<Rightarrow> cint \<Rightarrow> ('a, 'z process_scheme) io" where
  "real_exit name status s = Exited (s\<lparr>passed := passed s @ [Next_Exit name status]\<rparr>)"

section \<open>The effect of the calls\<close>

lemma VOYEUR_CALL_NEXT_found [simp]: "VOYEUR_CALL_NEXT True f = f"
  by (rule ext) (simp add: VOYEUR_CALL_NEXT_def)

lemma VOYEUR_CALL_NEXT_null: "build_os s = Linux \<Longrightarrow> VOYEUR_CALL_NEXT False f s = Fault"
  by (simp add: VOYEUR_CALL_NEXT_def)

lemma mutex_lock_free [simp]:
  "m \<notin> locked s \<Longrightarrow> pthread_mutex_lock m s = Ok () (s\<lparr>locked := insert m (locked s)\<rparr>)"
  by (simp add: pthread_mutex_lock_def)

lemma mutex_lock_held: "m \<in> locked s \<Longrightarrow> pthread_mutex_lock m s = Blocked"
  by (simp add: pthread_mutex_lock_def)

lemma mutex_unlock [simp]: "pthread_mutex_unlock m s = Ok () (s\<lparr>locked := locked s - {m}\<rparr>)"
  by (simp add: pthread_mutex_unlock_def)

lemma real_open_effect:
  assumes "answers s = a # as"
  obtains r tab where "real_open path oflag mode s
      = Ok r (s\<lparr>answers := as, passed := passed s @ [Next_Open path oflag mode], fdt := tab\<rparr>)"
    "\<And>g. fdt s g \<noteq> None \<Longrightarrow> tab g = fdt s g"
    "r = (if sint a < 0 \<or> fdt s (sint a) \<noteq> None then -1 else a)"
    "\<And>g. g \<noteq> sint r \<Longrightarrow> tab g = fdt s g" "0 \<le> sint r \<Longrightarrow> tab (sint r) \<noteq> None"
proof (cases "sint a < 0 \<or> fdt s (sint a) \<noteq> None")
  case True
  show ?thesis
    by (rule that [of "-1" "fdt s"]) (use assms True in \<open>auto simp: real_open_def real_call_def io_bind_def\<close>)
next
  case False
  show ?thesis
    by (rule that [of a "(fdt s)(sint a \<mapsto> \<lparr>fd_kind = File, sent = [], inp = [], peer_open = False\<rparr>)"])
      (use assms False in \<open>auto simp: real_open_def real_call_def io_bind_def\<close>)
qed

end
