(* ===== verification/Interpose.thy ===== *)
theory Interpose
  imports Process
begin

text \<open>
  What the interposing libraries share: the block that the first call of a library runs, the end of
  its stream, and two views of the code that reports an event. \<open>quiet\<close> says that, whatever the kernel
  answers, the report does not disturb the program; \<open>emits\<close> says which bytes it puts on the wire
  when the connection works.
\<close>

section \<open>The first call, and the end of the stream\<close>

text \<open>
  The block under \<open>if (!voyeur_..._initialized)\<close> of \<open>open\<close> and \<open>close\<close>, on the static variables that
  \<open>vars\<close> and \<open>upd\<close> access.
\<close>

definition lazy_init :: "('z process_scheme \<Rightarrow> statics) \<Rightarrow> ((statics \<Rightarrow> statics) \<Rightarrow> 'z process_scheme \<Rightarrow> 'z process_scheme)
    \<Rightarrow> voyeur_event_type \<Rightarrow> (unit, 'z process_scheme) io" where
  "lazy_init vars upd E =
     io_bind (io_get vars) (\<lambda>v.
     io_when (\<not> lib_initialized v)
       (io_bind (sys_getenv ''LIBVOYEUR_SOCKET'') (\<lambda>sockpath.
        io_bind (sys_getenv ''LIBVOYEUR_OPTS'') (\<lambda>options.
        io_then (io_modify (upd (\<lambda>v. v\<lparr>lib_opts :=
            voyeur_decode_options options (unat (event_type_val E))\<rparr>)))
        (io_bind (voyeur_create_client_socket sockpath) (\<lambda>fd.
         io_then (io_modify (upd (\<lambda>v. v\<lparr>lib_sock := fd\<rparr>)))
         (io_then (io_modify (upd (\<lambda>v. v\<lparr>lib_next := True\<rparr>)))
         (io_modify (upd (\<lambda>v. v\<lparr>lib_initialized := True\<rparr>))))))))))"

text \<open>The block under \<open>if (voyeur_..._initialized)\<close> of the libraries' destructors.\<close>

definition finish_stream :: "('z process_scheme \<Rightarrow> statics) \<Rightarrow> ((statics \<Rightarrow> statics) \<Rightarrow> 'z process_scheme \<Rightarrow> 'z process_scheme)
    \<Rightarrow> (unit, 'z process_scheme) io" where
  "finish_stream vars upd =
     io_bind (io_get vars) (\<lambda>v.
     io_when (lib_initialized v)
       (io_then
         (io_when (0 \<le> lib_sock v)
           (io_then (io_ignore (voyeur_write_msg_type (lib_sock v) VOYEUR_MSG_DONE))
           (io_then (voyeur_close_socket (lib_sock v))
           (io_modify (upd (\<lambda>v. v\<lparr>lib_sock := -1\<rparr>))))))
         (io_modify (upd (\<lambda>v. v\<lparr>lib_initialized := False\<rparr>)))))"

section \<open>Reports do not disturb the program\<close>

definition quiet :: "('s \<Rightarrow> 's \<Rightarrow> bool) \<Rightarrow> ('a, 's) io \<Rightarrow> bool" where
  "quiet R m \<longleftrightarrow> (\<forall>s. m s = Blocked \<or> (\<exists>v t. m s = Ok v t \<and> R s t))"

lemma quietE:
  assumes "quiet R m"
  obtains "m s = Blocked" | v t where "m s = Ok v t" "R s t"
  using assms unfolding quiet_def by blast

context io_frame
begin

lemma quiet_ret: "quiet R (io_ret v)"
  by (simp add: quiet_def R_refl)

lemma quiet_get: "quiet R (io_get f)"
  by (simp add: quiet_def R_refl)

lemma quiet_bind:
  assumes "quiet R m" and "\<And>v. quiet R (f v)"
  shows "quiet R (io_bind m f)"
  unfolding quiet_def
proof
  fix s
  from assms(1) show "io_bind m f s = Blocked \<or> (\<exists>v t. io_bind m f s = Ok v t \<and> R s t)"
  proof (cases rule: quietE [of R m s])
    case (2 v t)
    from assms(2) [of v] show ?thesis
      by (rule quietE [of _ _ t]) (use 2 R_trans in auto)
  qed simp
qed

lemma quiet_then: "quiet R m \<Longrightarrow> quiet R m' \<Longrightarrow> quiet R (io_then m m')"
  unfolding io_then_def by (rule quiet_bind)

lemma quiet_when: "quiet R m \<Longrightarrow> quiet R (io_when b m)"
  by (cases b) (simp_all add: quiet_ret)

lemma quiet_each: "(\<And>x. quiet R (f x)) \<Longrightarrow> quiet R (io_each f xs)"
  by (induction xs) (simp_all add: quiet_ret quiet_then)

lemmas quiet_rules = quiet_ret quiet_get quiet_bind quiet_then quiet_when quiet_each

end

text \<open>A report touches its connection, the kernel's answers to \<open>send\<close>, and the heap.\<close>

definition report_frame :: "int \<Rightarrow> 'z sys_scheme \<Rightarrow> 'z sys_scheme \<Rightarrow> bool" where
  "report_frame fd s t \<longleftrightarrow> (\<exists>f w l. t = s\<lparr>fdt := f, wsys := w, live := l\<rparr>
     \<and> (\<forall>g. g \<noteq> fd \<longrightarrow> f g = fdt s g) \<and> (f fd = None \<longleftrightarrow> fdt s fd = None))"

lemma report_frameI:
  "(\<And>g. g \<noteq> fd \<Longrightarrow> f g = fdt s g) \<Longrightarrow> f fd = None \<longleftrightarrow> fdt s fd = None
   \<Longrightarrow> report_frame fd s (s\<lparr>fdt := f, wsys := w, live := l\<rparr>)"
  unfolding report_frame_def by (intro exI conjI, rule refl) auto

interpretation report: io_frame "report_frame fd"
proof
  fix s t u :: "'a sys_scheme"
  show "report_frame fd s s"
    using report_frameI [where f = "fdt s" and w = "wsys s" and l = "live s" and s = s and fd = fd] by simp
  assume "report_frame fd s t" and "report_frame fd t u"
  then obtain f w l f' w' l' where
    "t = s\<lparr>fdt := f, wsys := w, live := l\<rparr>" "\<And>g. g \<noteq> fd \<Longrightarrow> f g = fdt s g" "f fd = None \<longleftrightarrow> fdt s fd = None"
    "u = t\<lparr>fdt := f', wsys := w', live := l'\<rparr>" "\<And>g. g \<noteq> fd \<Longrightarrow> f' g = fdt t g" "f' fd = None \<longleftrightarrow> fdt t fd = None"
    unfolding report_frame_def by auto
  then show "report_frame fd s u"
    using report_frameI [where f = f' and w = w' and l = l' and s = s and fd = fd] by simp
qed

lemma report_frame_process:
  fixes s t :: "'z process_scheme"
  assumes "report_frame fd s t"
  shows "answers t = answers s" "passed t = passed s" "locked t = locked s" "environ t = environ s"
    "cur_dir t = cur_dir s" "self_pid t = self_pid s" "parent_pid t = parent_pid s" "executable t = executable s"
    "build_os t = build_os s" "closed t = closed s" "close_errs t = close_errs s"
    "open_vars t = open_vars s" "close_vars t = close_vars s" "spawn_vars t = spawn_vars s"
    "mem_max t = mem_max s" "stack_pid t = stack_pid s" "child_pids t = child_pids s"
  using assms by (auto simp: report_frame_def)

lemma report_frame_table:
  assumes "report_frame fd s t"
  shows "g \<noteq> fd \<Longrightarrow> fdt t g = fdt s g" "(fdt t g = None) = (fdt s g = None)"
  using assms by (auto simp: report_frame_def) (cases "g = fd"; simp)+

text \<open>A call that may also report an error, which the caller drops.\<close>

definition calm :: "('s \<Rightarrow> 's \<Rightarrow> bool) \<Rightarrow> ('a, 's) io \<Rightarrow> bool" where
  "calm R m \<longleftrightarrow> (\<forall>s. m s = Blocked \<or> (\<exists>v t. m s = Ok v t \<and> R s t) \<or> (\<exists>t. m s = Fail t \<and> R s t))"

lemma calmE:
  assumes "calm R m"
  obtains "m s = Blocked" | v t where "m s = Ok v t" "R s t" | t where "m s = Fail t" "R s t"
  using assms unfolding calm_def by blast

lemma quiet_ignore:
  assumes "calm R m"
  shows "quiet R (io_ignore m)"
  unfolding quiet_def
proof
  fix s
  from assms show "io_ignore m s = Blocked \<or> (\<exists>v t. io_ignore m s = Ok v t \<and> R s t)"
    by (cases rule: calmE [of R m s]) (auto simp: io_ignore_def)
qed

lemma calm_then:
  assumes "calm (report_frame fd) m" and "calm (report_frame fd) m'"
  shows "calm (report_frame fd) (io_then m m')"
  unfolding calm_def
proof
  fix s
  from assms(1) show "io_then m m' s = Blocked \<or> (\<exists>v t. io_then m m' s = Ok v t \<and> report_frame fd s t)
      \<or> (\<exists>t. io_then m m' s = Fail t \<and> report_frame fd s t)"
  proof (cases rule: calmE [of _ m s])
    case (2 v t)
    from assms(2) show ?thesis
      by (cases rule: calmE [of _ m' t]) (use 2 report.R_trans in auto)
  qed (simp_all add: io_then_def)
qed

lemma report_frame_put: "report_frame fd s (put_bytes fd bs (s\<lparr>wsys := w\<rparr>))"
proof -
  have "put_bytes fd bs (s\<lparr>wsys := w\<rparr>)
      = s\<lparr>fdt := (fdt s)(fd := map_option (\<lambda>d. d\<lparr>sent := sent d @ bs\<rparr>) (fdt s fd)), wsys := w, live := live s\<rparr>"
    by (simp add: put_bytes_def)
  then show ?thesis by (simp only:, intro report_frameI) simp_all
qed

lemma calm_do_write:
  assumes "unat n < 2 ^ 63" and "unat n \<le> length buf"
  shows "calm (report_frame fd) (do_write fd buf n)"
  unfolding calm_def
proof
  fix s :: "'a sys_scheme"
  show "do_write fd buf n s = Blocked \<or> (\<exists>v t. do_write fd buf n s = Ok v t \<and> report_frame fd s t)
      \<or> (\<exists>t. do_write fd buf n s = Fail t \<and> report_frame fd s t)"
    using do_write_loop_outcome [OF assms(1) le0, where fd = fd and buf = buf and s = s] assms(2) report_frame_put
    by (auto simp: do_write_def split: res.splits)
qed

lemma calm_write_string: "calm (report_frame fd) (voyeur_write_string fd val 0)"
proof (cases val)
  case None
  show ?thesis unfolding voyeur_write_string_def Let_def None voyeur_write_size_def
    by (intro calm_then calm_do_write) simp_all
next
  case (Some cs)
  have le: "strnlen cs VOYEUR_MAX_STRLEN \<le> 4096" "strnlen cs VOYEUR_MAX_STRLEN \<le> length cs"
    by (simp_all add: strnlen_def VOYEUR_MAX_STRLEN_def)
  then have "unat (word_of_nat (strnlen cs VOYEUR_MAX_STRLEN) :: size_t) = strnlen cs VOYEUR_MAX_STRLEN"
    by (intro unat_small) simp
  then show ?thesis unfolding voyeur_write_string_def Let_def Some voyeur_write_size_def
    by (intro calm_then calm_do_write) (use le in simp_all)
qed

lemma quiet_writers:
  "quiet (report_frame fd) (io_ignore (voyeur_write_msg_type fd mt))"
  "quiet (report_frame fd) (io_ignore (voyeur_write_event_type fd ty))"
  "quiet (report_frame fd) (io_ignore (voyeur_write_int fd v))"
  "quiet (report_frame fd) (io_ignore (voyeur_write_pid fd v))"
  "quiet (report_frame fd) (io_ignore (voyeur_write_string fd str 0))"
  unfolding voyeur_write_msg_type_def voyeur_write_event_type_def voyeur_write_int_def voyeur_write_pid_def
  by (intro quiet_ignore calm_do_write calm_write_string; simp)+

lemma report_frame_live: "report_frame fd s (s\<lparr>live := l\<rparr>)"
  using report_frameI [where f = "fdt s" and w = "wsys s" and l = l and s = s and fd = fd] by simp

lemma quiet_env:
  "quiet (report_frame fd) sys_getcwd" "quiet (report_frame fd) (sys_getenv name)"
  "quiet (report_frame fd) (sys_access path)" "quiet (report_frame fd) (free_ptr ptr)"
  using report_frame_live
  by (auto simp: quiet_def sys_getcwd_def sys_getenv_def sys_access_def free_ptr_def sys_free_def report.R_refl
      split: option.splits)

lemmas quiet_reports = report.quiet_rules quiet_writers quiet_env

section \<open>Reports on a working connection\<close>

text \<open>The values that a report reads from the process, which no report changes.\<close>

definition same_proc :: "'z process_scheme \<Rightarrow> 'z process_scheme \<Rightarrow> bool" where
  "same_proc p s \<longleftrightarrow> environ s = environ p \<and> cur_dir s = cur_dir p \<and> self_pid s = self_pid p
     \<and> parent_pid s = parent_pid p \<and> executable s = executable p"

lemma same_proc_refl [simp]: "same_proc s s"
  by (simp add: same_proc_def)

lemma same_proc_updates [simp]:
  "same_proc p (put_bytes fd bs s) = same_proc p s" "same_proc p (s\<lparr>wsys := w\<rparr>) = same_proc p s"
  "same_proc p (s\<lparr>live := l\<rparr>) = same_proc p s"
  by (simp_all add: same_proc_def put_bytes_def)

lemma put_bytes_live [simp]: "(put_bytes fd bs s)\<lparr>live := l\<rparr> = put_bytes fd bs (s\<lparr>live := l\<rparr>)"
  by (simp add: put_bytes_def)

lemma connected_live [simp]: "connected fd (s\<lparr>live := l\<rparr>) = connected fd s"
  by (simp add: connected_def)

text \<open>
  \<open>emits p m fd bs k\<close>: in the process that \<open>p\<close> describes, on a connected descriptor and whatever soft
  answers the kernel gives, \<open>m\<close> returns after putting exactly \<open>bs\<close> on the wire, having lost \<open>k\<close>
  heap blocks.
\<close>

definition emits :: "'z process_scheme \<Rightarrow> (unit, 'z process_scheme) io \<Rightarrow> int \<Rightarrow> byte list \<Rightarrow> nat \<Rightarrow> bool" where
  "emits p m fd bs k \<longleftrightarrow>
     (\<forall>s n. same_proc p s \<and> connected fd s \<and> soft_w (wsys s) \<and> n + length bs \<le> takes (wsys s) \<longrightarrow>
        (\<exists>w. m s = Ok () (put_bytes fd bs (s\<lparr>wsys := w, live := live s + k\<rparr>)) \<and> soft_w w \<and> n \<le> takes w))"

lemma emitsE:
  assumes "emits p m fd bs k" and "same_proc p s" and "connected fd s" and "soft_w (wsys s)"
    and "n + length bs \<le> takes (wsys s)"
  obtains w where "m s = Ok () (put_bytes fd bs (s\<lparr>wsys := w, live := live s + k\<rparr>))" "soft_w w" "n \<le> takes w"
  using assms unfolding emits_def by blast

lemma emits_sends:
  assumes "sends m fd bs"
  shows "emits p (io_ignore m) fd bs 0"
  unfolding emits_def
proof (intro allI impI)
  fix s :: "'a process_scheme" and n
  assume "same_proc p s \<and> connected fd s \<and> soft_w (wsys s) \<and> n + length bs \<le> takes (wsys s)"
  with sendsE [OF assms, of s n] obtain w where "m s = Ok () (put_bytes fd bs (s\<lparr>wsys := w\<rparr>))" "soft_w w" "n \<le> takes w"
    by blast
  then show "\<exists>w. io_ignore m s = Ok () (put_bytes fd bs (s\<lparr>wsys := w, live := live s + 0\<rparr>)) \<and> soft_w w \<and> n \<le> takes w"
    by (intro exI [of _ w]) simp
qed

lemma emits_ret: "emits p (io_ret ()) fd [] 0"
  unfolding emits_def
proof (intro allI impI)
  fix s :: "'a process_scheme" and n
  assume "same_proc p s \<and> connected fd s \<and> soft_w (wsys s) \<and> n + length [] \<le> takes (wsys s)"
  then show "\<exists>w. io_ret () s = Ok () (put_bytes fd [] (s\<lparr>wsys := w, live := live s + 0\<rparr>)) \<and> soft_w w \<and> n \<le> takes w"
    by (intro exI [of _ "wsys s"]) simp
qed

lemma emits_then:
  assumes "emits p m fd bs k" and "emits p m' fd bs' k'"
  shows "emits p (io_then m m') fd (bs @ bs') (k + k')"
  unfolding emits_def
proof (intro allI impI)
  fix s :: "'a process_scheme" and n
  assume h: "same_proc p s \<and> connected fd s \<and> soft_w (wsys s) \<and> n + length (bs @ bs') \<le> takes (wsys s)"
  then have c: "same_proc p s" "connected fd s" "soft_w (wsys s)" "(n + length bs') + length bs \<le> takes (wsys s)"
    by simp_all
  from emitsE [OF assms(1) c] obtain w where
    w: "m s = Ok () (put_bytes fd bs (s\<lparr>wsys := w, live := live s + k\<rparr>))" "soft_w w" "n + length bs' \<le> takes w"
    by blast
  let ?s = "put_bytes fd bs (s\<lparr>wsys := w, live := live s + k\<rparr>)"
  have c': "same_proc p ?s" "connected fd ?s" "soft_w (wsys ?s)" "n + length bs' \<le> takes (wsys ?s)"
    using h w by simp_all
  from emitsE [OF assms(2) c'] obtain w' where
    "m' ?s = Ok () (put_bytes fd bs' (?s\<lparr>wsys := w', live := live ?s + k'\<rparr>))" "soft_w w'" "n \<le> takes w'"
    by blast
  with w show "\<exists>w. io_then m m' s = Ok () (put_bytes fd (bs @ bs') (s\<lparr>wsys := w, live := live s + (k + k')\<rparr>))
      \<and> soft_w w \<and> n \<le> takes w"
    by (auto simp: add.assoc)
qed

lemma emits_when:
  assumes "b \<Longrightarrow> emits p m fd bs k"
  shows "emits p (io_when b m) fd (if b then bs else []) (if b then k else 0)"
  using assms by (cases b) (simp_all add: emits_ret)

lemma emits_get:
  assumes "emits p (f (g p)) fd bs k" and "\<And>s. same_proc p s \<Longrightarrow> g s = g p"
  shows "emits p (io_bind (io_get g) f) fd bs k"
  unfolding emits_def
proof (intro allI impI)
  fix s :: "'a process_scheme" and n
  assume h: "same_proc p s \<and> connected fd s \<and> soft_w (wsys s) \<and> n + length bs \<le> takes (wsys s)"
  then have "io_bind (io_get g) f s = f (g p) s" using assms(2) [of s] by (simp add: io_bind_def)
  with h show "\<exists>w. io_bind (io_get g) f s = Ok () (put_bytes fd bs (s\<lparr>wsys := w, live := live s + k\<rparr>))
      \<and> soft_w w \<and> n \<le> takes w"
    using assms(1) unfolding emits_def by simp
qed

lemma emits_each:
  assumes "\<And>x. x \<in> set xs \<Longrightarrow> emits p (f x) fd (e x) 0"
  shows "emits p (io_each f xs) fd (concat (map e xs)) 0"
  using assms
proof (induction xs)
  case Nil
  show ?case by (simp add: emits_ret)
next
  case (Cons x xs)
  then have "emits p (io_then (f x) (io_each f xs)) fd (e x @ concat (map e xs)) (0 + 0)"
    by (intro emits_then) simp_all
  then show ?case by simp
qed

text \<open>A call of \<open>getcwd\<close> whose result is not freed, and one whose result is.\<close>

lemma emits_getcwd:
  assumes "emits p (f (cur_dir p)) fd bs k"
  shows "emits p (io_bind sys_getcwd f) fd bs ((if cur_dir p = None then 0 else 1) + k)"
  unfolding emits_def
proof (intro allI impI)
  fix s :: "'a process_scheme" and n
  assume h: "same_proc p s \<and> connected fd s \<and> soft_w (wsys s) \<and> n + length bs \<le> takes (wsys s)"
  let ?s = "s\<lparr>live := live s + (if cur_dir p = None then 0 else 1)\<rparr>"
  have "sys_getcwd s = Ok (cur_dir p) ?s"
    using h by (simp add: sys_getcwd_def same_proc_def split: option.split)
  moreover obtain w where "f (cur_dir p) ?s = Ok () (put_bytes fd bs (?s\<lparr>wsys := w, live := live ?s + k\<rparr>))" "soft_w w" "n \<le> takes w"
    by (rule emitsE [OF assms, of ?s n]) (use h in simp_all)
  ultimately show "\<exists>w. io_bind sys_getcwd f s = Ok () (put_bytes fd bs
      (s\<lparr>wsys := w, live := live s + ((if cur_dir p = None then 0 else 1) + k)\<rparr>)) \<and> soft_w w \<and> n \<le> takes w"
    by (intro exI [of _ w]) (simp add: add.assoc)
qed

lemma emits_getcwd_free:
  assumes "emits p (f (cur_dir p)) fd bs 0"
  shows "emits p (io_bind sys_getcwd (\<lambda>d. io_then (f d) (free_ptr d))) fd bs 0"
  unfolding emits_def
proof (intro allI impI)
  fix s :: "'a process_scheme" and n
  assume h: "same_proc p s \<and> connected fd s \<and> soft_w (wsys s) \<and> n + length bs \<le> takes (wsys s)"
  let ?k = "if cur_dir p = None then 0 else 1 :: nat"
  let ?s = "s\<lparr>live := live s + ?k\<rparr>"
  have "sys_getcwd s = Ok (cur_dir p) ?s"
    using h by (simp add: sys_getcwd_def same_proc_def split: option.split)
  moreover obtain w where "f (cur_dir p) ?s = Ok () (put_bytes fd bs (?s\<lparr>wsys := w, live := live ?s + 0\<rparr>))" "soft_w w" "n \<le> takes w"
    by (rule emitsE [OF assms, of ?s n]) (use h in simp_all)
  ultimately show "\<exists>w. io_bind sys_getcwd (\<lambda>d. io_then (f d) (free_ptr d)) s
      = Ok () (put_bytes fd bs (s\<lparr>wsys := w, live := live s + 0\<rparr>)) \<and> soft_w w \<and> n \<le> takes w"
    by (intro exI [of _ w]) (cases "cur_dir p"; simp add: free_ptr_def sys_free_def)
qed

lemmas emits_msg_type = emits_sends [OF msg_type_codec.put_sends]
lemmas emits_event_type = emits_sends [OF event_type_codec.put_sends]
lemmas emits_int = emits_sends [OF int_codec.put_sends]
lemmas emits_pid = emits_sends [OF pid_codec.put_sends]
lemmas emits_string = emits_sends [OF string_codec.put_sends]

section \<open>The interface of a library's static variables\<close>

text \<open>What the bookkeeping of a library leaves alone.\<close>

definition bookkeeping :: "'z process_scheme \<Rightarrow> 'z process_scheme \<Rightarrow> bool" where
  "bookkeeping s t \<longleftrightarrow> wsys t = wsys s \<and> live t = live s \<and> mem_max t = mem_max s \<and> build_os t = build_os s
     \<and> close_errs t = close_errs s \<and> closed t = closed s \<and> same_proc s t
     \<and> answers t = answers s \<and> child_pids t = child_pids s \<and> stack_pid t = stack_pid s
     \<and> passed t = passed s \<and> locked t = locked s \<and> did_exit_already t = did_exit_already s
     \<and> voyeur_close_finalized t = voyeur_close_finalized s
     \<and> voyeur_posix_spawn_libs t = voyeur_posix_spawn_libs s \<and> voyeur_posix_spawn_opts t = voyeur_posix_spawn_opts s
     \<and> voyeur_posix_spawn_sockpath t = voyeur_posix_spawn_sockpath s"

interpretation bookkeeping: io_frame bookkeeping
  by unfold_locales (auto simp: bookkeeping_def same_proc_def)

lemma bookkeeping_connect: "connect_effect fd s t \<Longrightarrow> bookkeeping s t"
  by (auto simp: connect_effect_def bookkeeping_def same_proc_def)

text \<open>A library that has connected: its socket can be written to and its pointer can be called.\<close>

definition attached :: "statics \<Rightarrow> int \<Rightarrow> 'z sys_scheme \<Rightarrow> bool" where
  "attached v fd s \<longleftrightarrow> lib_initialized v \<and> lib_sock v = fd \<and> lib_next v \<and> 0 \<le> fd \<and> connected fd s"

text \<open>The observer can be reached: the next socket is \<open>fd\<close>, and an attempt to connect succeeds.\<close>

definition reachable_observer :: "int \<Rightarrow> 'z process_scheme \<Rightarrow> bool" where
  "reachable_observer fd s \<longleftrightarrow> 0 \<le> fd \<and> (\<exists>fds. new_socks s = fd # fds) \<and> True \<in> set (take 20 (conn_sys s))
     \<and> getenv (environ s) ''LIBVOYEUR_SOCKET'' \<noteq> None"

locale library =
  fixes vars :: "'z process_scheme \<Rightarrow> statics"
    and upd :: "(statics \<Rightarrow> statics) \<Rightarrow> 'z process_scheme \<Rightarrow> 'z process_scheme"
  assumes vars_upd: "vars (upd f s) = f (vars s)"
    and upd_frame: "bookkeeping s (upd f s)"
    and upd_net: "fdt (upd f s) = fdt s" "new_socks (upd f s) = new_socks s" "conn_sys (upd f s) = conn_sys s"
    and vars_connect: "connect_effect fd s t \<Longrightarrow> vars t = vars s"
    and vars_report: "report_frame fd s t \<Longrightarrow> vars t = vars s"
    and vars_close: "vars (s\<lparr>close_errs := es, closed := cl, fdt := tab\<rparr>) = vars s"
    and vars_locked: "vars (s\<lparr>locked := L\<rparr>) = vars s"
begin

lemma connected_upd: "connected fd (upd f s) = connected fd s"
  by (simp add: connected_def upd_net)

lemma written_upd: "written fd (upd f s) = written fd s"
  by (simp add: written_def upd_net)

lemma init_done: "lib_initialized (vars s) \<Longrightarrow> lazy_init vars upd E s = Ok () s"
  by (simp add: lazy_init_def)

lemma init_run:
  assumes "\<not> lib_initialized (vars s)" and "getenv (environ s) ''LIBVOYEUR_SOCKET'' = Some p"
    and "s1 = upd (\<lambda>v. v\<lparr>lib_opts := voyeur_decode_options (getenv (environ s) ''LIBVOYEUR_OPTS'')
          (unat (event_type_val E))\<rparr>) s"
    and "voyeur_create_client_socket (Some p) s1 = Ok fd s2"
  shows "lazy_init vars upd E s = Ok () (upd (\<lambda>v. v\<lparr>lib_initialized := True\<rparr>)
    (upd (\<lambda>v. v\<lparr>lib_next := True\<rparr>) (upd (\<lambda>v. v\<lparr>lib_sock := fd\<rparr>) s2)))"
  using assms by (simp add: lazy_init_def sys_getenv_def)

text \<open>The first call finds the observer: the library is attached, with the options of its event.\<close>

lemma init_connects:
  assumes "\<not> lib_initialized (vars s)" and "reachable_observer fd s"
  obtains t where "lazy_init vars upd E s = Ok () t" "attached (vars t) fd t" "bookkeeping s t"
    "lib_opts (vars t) = voyeur_decode_options (getenv (environ s) ''LIBVOYEUR_OPTS'') (unat (event_type_val E))"
    "written fd t = []" "\<forall>g. g \<noteq> fd \<longrightarrow> fdt t g = fdt s g"
proof -
  define o' where "o' = voyeur_decode_options (getenv (environ s) ''LIBVOYEUR_OPTS'') (unat (event_type_val E))"
  define s1 where "s1 = upd (\<lambda>v. v\<lparr>lib_opts := o'\<rparr>) s"
  from assms(2) obtain fds p where h: "0 \<le> fd" "new_socks s = fd # fds" "True \<in> set (take 20 (conn_sys s))"
    "getenv (environ s) ''LIBVOYEUR_SOCKET'' = Some p" unfolding reachable_observer_def by auto
  from h(2,3) have n: "new_socks s1 = fd # fds" "True \<in> set (take 20 (conn_sys s1))"
    by (simp_all add: s1_def upd_net)
  obtain s2 where s2: "voyeur_create_client_socket (Some p) s1 = Ok fd s2" "connect_effect fd s1 s2"
    "connected fd s2" "written fd s2 = []"
    using client_socket_connects [OF n(1) h(1) n(2)] by blast
  let ?s3 = "upd (\<lambda>v. v\<lparr>lib_sock := fd\<rparr>) s2"
  let ?s4 = "upd (\<lambda>v. v\<lparr>lib_next := True\<rparr>) ?s3"
  let ?t = "upd (\<lambda>v. v\<lparr>lib_initialized := True\<rparr>) ?s4"
  have run: "lazy_init vars upd E s = Ok () ?t"
    by (rule init_run [OF assms(1) h(4) _ s2(1)]) (simp add: s1_def o'_def)
  have v2: "vars s2 = (vars s)\<lparr>lib_opts := o'\<rparr>"
    using vars_connect [OF s2(2)] by (simp add: s1_def vars_upd)
  have fr: "bookkeeping s ?t"
    using upd_frame bookkeeping_connect [OF s2(2)] unfolding s1_def by (blast intro: bookkeeping.R_trans)
  have other: "\<forall>g. g \<noteq> fd \<longrightarrow> fdt ?t g = fdt s g"
    using s2(2) by (auto simp: upd_net s1_def connect_effect_def)
  show ?thesis
    by (rule that [OF run]) (use fr other s2(3,4) h(1) v2 in
        \<open>simp_all add: attached_def vars_upd connected_upd written_upd o'_def\<close>)
qed

text \<open>Whether or not the observer is there, the first call goes through.\<close>

lemma init_returns:
  assumes "getenv (environ s) ''LIBVOYEUR_SOCKET'' \<noteq> None" and "lib_initialized (vars s) \<Longrightarrow> lib_next (vars s)"
  obtains t where "lazy_init vars upd E s = Ok () t" "bookkeeping s t"
    "lib_initialized (vars t)" "lib_next (vars t)"
    "\<And>g. g \<noteq> lib_sock (vars t) \<Longrightarrow> fdt t g = fdt s g"
    "lib_sock (vars t) \<in> insert (lib_sock (vars s)) ({..<0} \<union> set (new_socks s))"
    "\<And>g. 0 \<le> g \<Longrightarrow> g \<notin> set (new_socks s) \<Longrightarrow> fdt t g = fdt s g"
proof (cases "lib_initialized (vars s)")
  case True
  show ?thesis
    by (rule that [OF init_done [OF True] bookkeeping.R_refl]) (use True assms(2) in simp_all)
next
  case False
  define s1 where "s1 = upd (\<lambda>v. v\<lparr>lib_opts := voyeur_decode_options (getenv (environ s) ''LIBVOYEUR_OPTS'')
          (unat (event_type_val E))\<rparr>) s"
  from assms(1) obtain p where p: "getenv (environ s) ''LIBVOYEUR_SOCKET'' = Some p" by blast
  obtain fd s2 where s2: "voyeur_create_client_socket (Some p) s1 = Ok fd s2" "connect_effect fd s1 s2"
    "fd < 0 \<or> fd \<in> set (new_socks s)"
    using client_socket_effect [of p s1] by (auto simp: s1_def upd_net)
  let ?s3 = "upd (\<lambda>v. v\<lparr>lib_sock := fd\<rparr>) s2"
  let ?s4 = "upd (\<lambda>v. v\<lparr>lib_next := True\<rparr>) ?s3"
  let ?t = "upd (\<lambda>v. v\<lparr>lib_initialized := True\<rparr>) ?s4"
  have run: "lazy_init vars upd E s = Ok () ?t"
    by (rule init_run [OF False p s1_def s2(1)])
  have "bookkeeping s ?t"
    using upd_frame bookkeeping_connect [OF s2(2)] unfolding s1_def by (blast intro: bookkeeping.R_trans)
  moreover have "\<And>g. g \<noteq> fd \<Longrightarrow> fdt ?t g = fdt s g"
    using s2(2) by (auto simp: upd_net s1_def connect_effect_def)
  moreover have "\<And>g. 0 \<le> g \<Longrightarrow> g \<notin> set (new_socks s) \<Longrightarrow> fdt ?t g = fdt s g"
    using s2(2,3) by (auto simp: upd_net s1_def connect_effect_def)
  ultimately show ?thesis using s2(3) by (intro that [OF run]) (simp_all add: vars_upd)
qed

text \<open>The destructor ends the stream of an attached library, and does nothing when called again.\<close>

lemma finish_attached:
  assumes "attached (vars s) fd s" and "soft_w (wsys s)" and "length enc_done \<le> takes (wsys s)"
    and "close_errs s = []"
  obtains t where "finish_stream vars upd s = Ok () t" "\<not> lib_initialized (vars t)" "lib_sock (vars t) = -1"
    "lib_next (vars t)"
    "closed t = closed s @ [(fd, written fd s @ enc_done)]" "fdt t = (fdt s)(fd := None)"
    "passed t = passed s" "locked t = locked s" "voyeur_close_finalized t = voyeur_close_finalized s"
proof -
  have s: "sends (voyeur_write_msg_type fd VOYEUR_MSG_DONE) fd enc_done"
    unfolding enc_done_def by (rule msg_type_codec.put_sends)
  have h: "connected fd s" "lib_sock (vars s) = fd" "0 \<le> fd" "lib_initialized (vars s)" "lib_next (vars s)"
    using assms(1) by (simp_all add: attached_def)
  obtain w where w: "voyeur_write_msg_type fd VOYEUR_MSG_DONE s = Ok () (put_bytes fd enc_done (s\<lparr>wsys := w\<rparr>))"
    using sendsE [OF s h(1) assms(2), of 0] assms(3) by auto
  let ?s1 = "put_bytes fd enc_done (s\<lparr>wsys := w\<rparr>)"
  let ?s2 = "close_fd fd ?s1"
  let ?t = "upd (\<lambda>v. v\<lparr>lib_initialized := False\<rparr>) (upd (\<lambda>v. v\<lparr>lib_sock := -1\<rparr>) ?s2)"
  have run: "finish_stream vars upd s = Ok () ?t"
    using h w assms(4) by (simp add: finish_stream_def)
  have wr: "written fd ?s1 = written fd s @ enc_done" using h(1) by (simp add: written_put_bytes)
  have b: "bookkeeping ?s2 ?t" using upd_frame by (blast intro: bookkeeping.R_trans)
  have f: "fdt ?t = (fdt s)(fd := None)" by (simp add: upd_net put_bytes_def)
  have "closed ?t = closed s @ [(fd, written fd s @ enc_done)]" "passed ?t = passed s" "locked ?t = locked s"
    "voyeur_close_finalized ?t = voyeur_close_finalized s"
    using b wr by (simp_all add: bookkeeping_def close_fd_def put_bytes_def)
  moreover have "lib_next (vars ?t)"
  proof -
    have "report_frame fd s ?s1" by (rule report_frame_put)
    then have "vars ?s1 = vars s" by (rule vars_report)
    moreover have "?s2 = ?s1\<lparr>close_errs := close_errs ?s1, closed := closed ?s2, fdt := fdt ?s2\<rparr>"
      by (simp add: close_fd_def del: put_bytes_fields)
    then have "vars ?s2 = vars ?s1" by (metis vars_close)
    ultimately show ?thesis using h(5) by (simp add: vars_upd)
  qed
  ultimately show ?thesis by (intro that [OF run]) (simp_all add: vars_upd f)
qed

lemma finish_again: "\<not> lib_initialized (vars s) \<Longrightarrow> finish_stream vars upd s = Ok () s"
  by (simp add: finish_stream_def)

end

interpretation open_library: library open_vars open_vars_update
  by unfold_locales
    (auto simp: bookkeeping_def same_proc_def connect_effect_def report_frame_def)

interpretation close_library: library close_vars close_vars_update
  by unfold_locales
    (auto simp: bookkeeping_def same_proc_def connect_effect_def report_frame_def)

interpretation spawn_library: library spawn_vars spawn_vars_update
  by unfold_locales
    (auto simp: bookkeeping_def same_proc_def connect_effect_def report_frame_def)

end
