(* ===== verification/Open_Interposer.thy ===== *)
theory Open_Interposer
  imports Interpose
begin

unbundle bit_operations_syntax

text \<open>
  \<open>src/voyeur-open.c\<close>: the interposed \<open>open\<close>, which passes each call on and reports it over a
  connection that the first call makes, and the destructor that ends the stream.
\<close>

section \<open>The code\<close>

definition O_CREAT :: "platform \<Rightarrow> cint" where
  "O_CREAT p = (case p of Linux \<Rightarrow> 0x40 | Apple \<Rightarrow> 0x200)"

definition voyeur_cleanup_open :: "(unit, 'z process_scheme) io" where
  "voyeur_cleanup_open =
     io_then (pthread_mutex_lock Open_Mutex)
     (io_then (finish_stream open_vars open_vars_update)
     (pthread_mutex_unlock Open_Mutex))"

text \<open>
  The mode argument: it is read when \<open>O_CREAT\<close> is set, and reading an argument that the caller did
  not pass is undefined. It is an \<open>int\<close> stored in a \<open>mode_t\<close>.
\<close>

definition mode_argument :: "cint \<Rightarrow> cint option \<Rightarrow> (cint option, 'z process_scheme) io" where
  "mode_argument oflag arg =
     io_bind (io_get build_os) (\<lambda>plat.
     if oflag AND O_CREAT plat \<noteq> 0 then
       (case arg of None \<Rightarrow> io_fault | Some m \<Rightarrow> io_ret (Some (mode_cast plat m)))
     else io_ret None)"

definition report_open :: "int \<Rightarrow> u8 \<Rightarrow> string option \<Rightarrow> cint \<Rightarrow> cint option \<Rightarrow> cint \<Rightarrow> (unit, 'z process_scheme) io" where
  "report_open fd options path oflag mode retval =
     io_then (io_ignore (voyeur_write_msg_type fd VOYEUR_MSG_EVENT))
     (io_then (io_ignore (voyeur_write_event_type fd VOYEUR_EVENT_OPEN))
     (io_then (io_ignore (voyeur_write_string fd path 0))
     (io_then (io_ignore (voyeur_write_int fd oflag))
     (io_then (io_ignore (voyeur_write_int fd (case mode of Some m \<Rightarrow> m | None \<Rightarrow> 0)))
     (io_then (io_ignore (voyeur_write_int fd retval))
     (io_then (io_when (has_flag options OBSERVE_OPEN_CWD)
        (io_bind sys_getcwd (\<lambda>cwd.
         io_then (io_ignore (voyeur_write_string fd cwd 0)) (free_ptr cwd))))
     (io_bind (io_get self_pid) (\<lambda>pid. io_ignore (voyeur_write_pid fd pid)))))))))"

definition voyeur_open :: "string option \<Rightarrow> cint \<Rightarrow> cint option \<Rightarrow> (cint, 'z process_scheme) io" where
  "voyeur_open path oflag arg =
     io_then (pthread_mutex_lock Open_Mutex)
     (io_then (lazy_init open_vars open_vars_update VOYEUR_EVENT_OPEN)
     (io_bind (mode_argument oflag arg) (\<lambda>mode.
     io_bind (io_get open_vars) (\<lambda>v.
     io_bind (VOYEUR_CALL_NEXT (lib_next v) (real_open path oflag mode)) (\<lambda>retval.
     io_then (io_when (0 \<le> lib_sock v) (report_open (lib_sock v) (lib_opts v) path oflag mode retval))
     (io_then (pthread_mutex_unlock Open_Mutex)
     (io_ret retval)))))))"

section \<open>What is reported\<close>

text \<open>The mode the real function gets, if any, and the event of a call that returned \<open>r\<close>.\<close>

definition open_mode :: "platform \<Rightarrow> cint \<Rightarrow> cint option \<Rightarrow> cint option" where
  "open_mode p oflag arg = (if oflag AND O_CREAT p \<noteq> 0 then map_option (mode_cast p) arg else None)"

definition ptr_str :: "string option \<Rightarrow> string" where
  "ptr_str p = (case p of None \<Rightarrow> [] | Some s \<Rightarrow> s)"

definition open_event :: "'z process_scheme \<Rightarrow> string option \<Rightarrow> cint \<Rightarrow> cint option \<Rightarrow> cint \<Rightarrow> event" where
  "open_event s path oflag arg r =
     Open_Event (ptr_str path) oflag (case open_mode (build_os s) oflag arg of Some m \<Rightarrow> m | None \<Rightarrow> 0) r
       (cur_dir s) (self_pid s)"

text \<open>A call that passes \<open>O_CREAT\<close> has a mode argument.\<close>

definition mode_given :: "platform \<Rightarrow> cint \<Rightarrow> cint option \<Rightarrow> bool" where
  "mode_given p oflag arg = (oflag AND O_CREAT p = 0 \<or> arg \<noteq> None)"

lemma mode_argument_given:
  "mode_given (build_os s) oflag arg \<Longrightarrow> mode_argument oflag arg s = Ok (open_mode (build_os s) oflag arg) s"
  by (auto simp: mode_given_def mode_argument_def open_mode_def split: option.split)

lemma enc_str_ptr [simp]: "enc_str (Some (ptr_str p)) = enc_str p"
  by (cases p) (simp_all add: ptr_str_def enc_str_def str_sent_eq)

lemma emits_report_open:
  "emits s (report_open fd options path oflag mode r) fd
     (enc_msg options (Open_Event (ptr_str path) oflag (case mode of Some m \<Rightarrow> m | None \<Rightarrow> 0) r
        (cur_dir s) (self_pid s))) 0"
proof -
  have pid: "emits s (io_bind (io_get self_pid) (\<lambda>pid. io_ignore (voyeur_write_pid fd pid))) fd (obj32 (self_pid s)) 0"
    by (rule emits_get) (rule emits_pid, simp add: same_proc_def)
  have cwd: "emits s (io_when (has_flag options OBSERVE_OPEN_CWD)
        (io_bind sys_getcwd (\<lambda>cwd. io_then (io_ignore (voyeur_write_string fd cwd 0)) (free_ptr cwd)))) fd
      (if has_flag options OBSERVE_OPEN_CWD then enc_str (cur_dir s) else [])
      (if has_flag options OBSERVE_OPEN_CWD then 0 else 0)"
    by (rule emits_when) (rule emits_getcwd_free, rule emits_string)
  have "emits s (report_open fd options path oflag mode r) fd
      (obj32 (msg_type_val VOYEUR_MSG_EVENT) @ obj32 (event_type_val VOYEUR_EVENT_OPEN) @ enc_str path @ obj32 oflag
        @ obj32 (case mode of Some m \<Rightarrow> m | None \<Rightarrow> 0) @ obj32 r
        @ (if has_flag options OBSERVE_OPEN_CWD then enc_str (cur_dir s) else []) @ obj32 (self_pid s))
      (0 + (0 + (0 + (0 + (0 + (0 + ((if has_flag options OBSERVE_OPEN_CWD then 0 else 0) + 0)))))))"
    unfolding report_open_def
    by (intro emits_then emits_msg_type emits_event_type emits_string emits_int cwd pid)
  then show ?thesis by (simp add: enc_msg_def)
qed

section \<open>One call\<close>

text \<open>A call runs the block of the first call, then passes on and reports.\<close>

lemma open_after_init:
  assumes "Open_Mutex \<notin> locked s"
    and "lazy_init open_vars open_vars_update VOYEUR_EVENT_OPEN (s\<lparr>locked := insert Open_Mutex (locked s)\<rparr>) = Ok () t"
    and "mode_given (build_os t) oflag arg" and "lib_next (open_vars t)"
  shows "voyeur_open path oflag arg s =
    io_bind (real_open path oflag (open_mode (build_os t) oflag arg)) (\<lambda>r.
      io_then (io_when (0 \<le> lib_sock (open_vars t))
        (report_open (lib_sock (open_vars t)) (lib_opts (open_vars t)) path oflag (open_mode (build_os t) oflag arg) r))
      (io_then (pthread_mutex_unlock Open_Mutex) (io_ret r))) t"
  using assms by (simp add: voyeur_open_def mode_argument_given)

lemma connected_table: "(\<And>g. fdt s g \<noteq> None \<Longrightarrow> tab g = fdt s g) \<Longrightarrow> connected fd s \<Longrightarrow> connected fd (s\<lparr>fdt := tab\<rparr>)"
  by (force simp: connected_def)

lemma open_attached:
  assumes "attached (open_vars s) fd s" and "Open_Mutex \<notin> locked s"
    and "mode_given (build_os s) oflag arg" and "answers s = a # as" and "soft_w (wsys s)"
    and "n + length (enc_msg (lib_opts (open_vars s)) (open_event s path oflag arg 0)) \<le> takes (wsys s)"
  obtains r t where "voyeur_open path oflag arg s = Ok r t" "attached (open_vars t) fd t"
    "open_vars t = open_vars s"
    "written fd t = written fd s @ enc_msg (lib_opts (open_vars s)) (open_event s path oflag arg r)"
    "soft_w (wsys t)" "n \<le> takes (wsys t)" "locked t = locked s" "answers t = as"
    "passed t = passed s @ [Next_Open path oflag (open_mode (build_os s) oflag arg)]"
    "same_proc s t" "close_errs t = close_errs s" "closed t = closed s" "build_os t = build_os s"
    "child_pids t = child_pids s"
proof -
  let ?mode = "open_mode (build_os s) oflag arg"
  let ?o = "lib_opts (open_vars s)"
  let ?s0 = "s\<lparr>locked := insert Open_Mutex (locked s)\<rparr>"
  have a: "lib_initialized (open_vars s)" "lib_sock (open_vars s) = fd" "lib_next (open_vars s)" "0 \<le> fd" "connected fd s"
    using assms(1) by (simp_all add: attached_def)
  obtain r tab where
    r: "real_open path oflag ?mode ?s0 = Ok r (?s0\<lparr>answers := as, passed := passed s @ [Next_Open path oflag ?mode], fdt := tab\<rparr>)"
      "\<And>g. fdt s g \<noteq> None \<Longrightarrow> tab g = fdt s g"
    by (rule real_open_effect [of ?s0 a as path oflag ?mode]) (use assms(4) in auto)
  let ?s1 = "?s0\<lparr>answers := as, passed := passed s @ [Next_Open path oflag ?mode], fdt := tab\<rparr>"
  let ?bs = "enc_msg ?o (open_event s path oflag arg r)"
  have e: "emits s (report_open fd ?o path oflag ?mode r) fd ?bs 0"
    unfolding open_event_def by (rule emits_report_open)
  have len: "length ?bs = length (enc_msg ?o (open_event s path oflag arg 0))"
    by (simp add: enc_msg_def open_event_def)
  have c: "connected fd ?s1" using connected_table [OF r(2) a(5)] by (simp add: connected_def)
  obtain w where w: "report_open fd ?o path oflag ?mode r ?s1 = Ok () (put_bytes fd ?bs (?s1\<lparr>wsys := w, live := live ?s1 + 0\<rparr>))"
    "soft_w w" "n \<le> takes w"
    by (rule emitsE [OF e, of ?s1 n]) (use assms(5,6) c len in \<open>simp_all add: same_proc_def\<close>)
  let ?s2 = "put_bytes fd ?bs (?s1\<lparr>wsys := w\<rparr>)"
  let ?t = "?s2\<lparr>locked := locked s\<rparr>"
  have run: "voyeur_open path oflag arg s = Ok r ?t"
    using assms(2,3) a r(1) w(1)
    by (subst open_after_init [where t = ?s0]) (simp_all add: open_library.init_done put_bytes_def)
  have wr: "written fd ?s1 = written fd s"
    using r(2) [of fd] a(5) by (auto simp: written_def connected_def)
  have "written fd ?t = written fd s @ ?bs"
    using written_put_bytes [of fd "?s1\<lparr>wsys := w\<rparr>" ?bs] c wr by (simp add: written_def)
  moreover have "attached (open_vars ?t) fd ?t"
    using a c by (auto simp: attached_def connected_def put_bytes_def)
  ultimately show ?thesis
    by (intro that [OF run]) (use w in \<open>simp_all add: put_bytes_def same_proc_def\<close>)
qed

text \<open>The first call connects and then runs like any other.\<close>

lemma open_first:
  assumes "Open_Mutex \<notin> locked s"
    and "lazy_init open_vars open_vars_update VOYEUR_EVENT_OPEN (s\<lparr>locked := insert Open_Mutex (locked s)\<rparr>) = Ok () t"
    and "lib_initialized (open_vars t)" and "locked t = insert Open_Mutex (locked s)"
  shows "voyeur_open path oflag arg s = voyeur_open path oflag arg (t\<lparr>locked := locked s\<rparr>)"
proof -
  have "t\<lparr>locked := insert Open_Mutex (locked s)\<rparr> = t" using assms(4) by simp
  then show ?thesis using assms(1,2,3) by (simp add: voyeur_open_def open_library.init_done)
qed

section \<open>A process that opens files\<close>

type_synonym open_call = "string option \<times> cint \<times> cint option"

fun open_calls :: "open_call list \<Rightarrow> (cint list, 'z process_scheme) io" where
  "open_calls [] = io_ret []"
| "open_calls ((path, oflag, arg) # cs) =
     io_bind (voyeur_open path oflag arg) (\<lambda>r.
     io_bind (open_calls cs) (\<lambda>rs. io_ret (r # rs)))"

fun open_events :: "'z process_scheme \<Rightarrow> open_call list \<Rightarrow> cint list \<Rightarrow> event list" where
  "open_events s ((path, oflag, arg) # cs) (r # rs) = open_event s path oflag arg r # open_events s cs rs"
| "open_events s _ _ = []"

fun next_opens :: "platform \<Rightarrow> open_call list \<Rightarrow> next_call list" where
  "next_opens p [] = []"
| "next_opens p ((path, oflag, arg) # cs) = Next_Open path oflag (open_mode p oflag arg) # next_opens p cs"

definition calls_given :: "platform \<Rightarrow> open_call list \<Rightarrow> bool" where
  "calls_given p cs = list_all (\<lambda>(path, oflag, arg). mode_given p oflag arg) cs"

definition enc_msgs :: "u8 \<Rightarrow> event list \<Rightarrow> byte list" where
  "enc_msgs options evs = concat (map (enc_msg options) evs)"

lemma enc_msgs_simps [simp]: "enc_msgs o' [] = []" "enc_msgs o' (e # es) = enc_msg o' e @ enc_msgs o' es"
  by (simp_all add: enc_msgs_def)

text \<open>The room the messages need does not depend on the results.\<close>

definition open_room :: "'z process_scheme \<Rightarrow> u8 \<Rightarrow> open_call list \<Rightarrow> nat" where
  "open_room s options cs = length (enc_msgs options (open_events s cs (replicate (length cs) 0)))"

lemma open_event_same:
  "same_proc s t \<Longrightarrow> build_os t = build_os s \<Longrightarrow> open_event t path oflag arg r = open_event s path oflag arg r"
  by (simp add: open_event_def same_proc_def)

lemma open_events_same:
  "same_proc s t \<Longrightarrow> build_os t = build_os s \<Longrightarrow> open_events t cs rs = open_events s cs rs"
  by (induction s cs rs rule: open_events.induct) (simp_all add: open_event_same)

lemma same_proc_trans: "same_proc p s \<Longrightarrow> same_proc s t \<Longrightarrow> same_proc p t"
  by (simp add: same_proc_def)

lemma open_calls_attached:
  assumes "attached (open_vars s) fd s" and "Open_Mutex \<notin> locked s" and "calls_given (build_os s) cs"
    and "length cs \<le> length (answers s)" and "soft_w (wsys s)"
    and "n + open_room s (lib_opts (open_vars s)) cs \<le> takes (wsys s)"
  shows "\<exists>rs t. open_calls cs s = Ok rs t \<and> length rs = length cs \<and> attached (open_vars t) fd t
    \<and> written fd t = written fd s @ enc_msgs (lib_opts (open_vars s)) (open_events s cs rs)
    \<and> soft_w (wsys t) \<and> n \<le> takes (wsys t) \<and> locked t = locked s
    \<and> passed t = passed s @ next_opens (build_os s) cs \<and> close_errs t = close_errs s \<and> closed t = closed s
    \<and> open_vars t = open_vars s \<and> same_proc s t \<and> build_os t = build_os s \<and> child_pids t = child_pids s
    \<and> answers t = drop (length cs) (answers s)"
  using assms
proof (induction cs arbitrary: s)
  case Nil
  then show ?case by simp
next
  case (Cons c cs)
  obtain path oflag arg where c: "c = (path, oflag, arg)" by (cases c)
  obtain a as where a: "answers s = a # as" using Cons.prems(4) by (cases "answers s") auto
  let ?o = "lib_opts (open_vars s)"
  have room: "(n + open_room s ?o cs) + length (enc_msg ?o (open_event s path oflag arg 0)) \<le> takes (wsys s)"
    using Cons.prems(6) by (simp add: c open_room_def)
  have given: "mode_given (build_os s) oflag arg" "calls_given (build_os s) cs"
    using Cons.prems(3) by (simp_all add: c calls_given_def)
  from open_attached [OF Cons.prems(1,2) given(1) a Cons.prems(5) room] obtain r t where
    t: "voyeur_open path oflag arg s = Ok r t" "attached (open_vars t) fd t" "open_vars t = open_vars s"
      "written fd t = written fd s @ enc_msg ?o (open_event s path oflag arg r)" "soft_w (wsys t)"
      "n + open_room s ?o cs \<le> takes (wsys t)" "locked t = locked s" "answers t = as"
      "passed t = passed s @ [Next_Open path oflag (open_mode (build_os s) oflag arg)]"
      "same_proc s t" "close_errs t = close_errs s" "closed t = closed s" "build_os t = build_os s"
      "child_pids t = child_pids s"
    by blast
  have "open_room t ?o cs = open_room s ?o cs" using t(10,13) by (simp add: open_room_def open_events_same)
  then obtain rs u where u: "open_calls cs t = Ok rs u" "length rs = length cs" "attached (open_vars u) fd u"
    "written fd u = written fd t @ enc_msgs ?o (open_events t cs rs)" "soft_w (wsys u)" "n \<le> takes (wsys u)"
    "locked u = locked t" "passed u = passed t @ next_opens (build_os t) cs" "close_errs u = close_errs t" "closed u = closed t"
    "open_vars u = open_vars t" "same_proc t u" "build_os u = build_os t" "child_pids u = child_pids t"
    "answers u = drop (length cs) (answers t)"
    using Cons.IH [of t] t Cons.prems(2,4) a given(2) by auto
  from u t a same_proc_trans [OF t(10) u(12)] show ?case by (auto simp: c open_events_same)
qed

text \<open>The whole life of the library: calls, and the destructor.\<close>

definition open_run :: "open_call list \<Rightarrow> (cint list, 'z process_scheme) io" where
  "open_run cs = io_bind (open_calls cs) (\<lambda>rs. io_then voyeur_cleanup_open (io_ret rs))"

lemma open_run_attached:
  assumes "attached (open_vars s) fd s" and "Open_Mutex \<notin> locked s" and "calls_given (build_os s) cs"
    and "length cs \<le> length (answers s)" and "soft_w (wsys s)"
    and "4 + open_room s (lib_opts (open_vars s)) cs \<le> takes (wsys s)" and "close_errs s = []"
  obtains rs t where "open_run cs s = Ok rs t" "length rs = length cs"
    "closed t = closed s @ [(fd, written fd s @ enc_msgs (lib_opts (open_vars s)) (open_events s cs rs) @ enc_done)]"
    "passed t = passed s @ next_opens (build_os s) cs" "fdt t fd = None" "locked t = locked s"
proof -
  let ?o = "lib_opts (open_vars s)"
  obtain rs u where u: "open_calls cs s = Ok rs u" "length rs = length cs" "attached (open_vars u) fd u"
    "written fd u = written fd s @ enc_msgs ?o (open_events s cs rs)" "soft_w (wsys u)" "4 \<le> takes (wsys u)"
    "locked u = locked s" "passed u = passed s @ next_opens (build_os s) cs" "close_errs u = []" "closed u = closed s"
    using open_calls_attached [OF assms(1-5), of 4] assms(6,7) by auto
  let ?u0 = "u\<lparr>locked := insert Open_Mutex (locked s)\<rparr>"
  have at': "attached (open_vars ?u0) fd ?u0" using u(3) by (auto simp: attached_def connected_def)
  have u0: "soft_w (wsys ?u0)" "length enc_done \<le> takes (wsys ?u0)" "close_errs ?u0 = []"
    "closed ?u0 = closed s" "written fd ?u0 = written fd s @ enc_msgs ?o (open_events s cs rs)"
    using u(4-10) by (simp_all add: written_def)
  obtain v where
    v: "finish_stream open_vars open_vars_update ?u0 = Ok () v"
      "closed v = closed s @ [(fd, (written fd s @ enc_msgs ?o (open_events s cs rs)) @ enc_done)]"
      "fdt v = (fdt u)(fd := None)" "passed v = passed s @ next_opens (build_os s) cs"
      "locked v = insert Open_Mutex (locked s)"
    by (rule open_library.finish_attached [OF at' u0(1-3)]) (use u(7,8) u0(4,5) in simp)
  have "voyeur_cleanup_open u = Ok () (v\<lparr>locked := locked s\<rparr>)"
    using assms(2) u(7) v(1,5) by (simp add: voyeur_cleanup_open_def)
  then have run: "open_run cs s = Ok rs (v\<lparr>locked := locked s\<rparr>)"
    using u(1) by (simp add: open_run_def)
  show ?thesis by (rule that [OF run]) (use u(2) v in simp_all)
qed

text \<open>The first call attaches the library; everything after it runs as if it had been attached before.\<close>

lemma open_attaches:
  assumes "\<not> lib_initialized (open_vars s)" and "Open_Mutex \<notin> locked s" and "reachable_observer fd s"
    and "cs \<noteq> []" and "options = voyeur_decode_options (getenv (environ s) ''LIBVOYEUR_OPTS'') 2"
  obtains t where "open_calls cs s = open_calls cs t" "attached (open_vars t) fd t" "lib_opts (open_vars t) = options"
    "written fd t = []" "wsys t = wsys s" "answers t = answers s" "passed t = passed s" "build_os t = build_os s"
    "locked t = locked s" "close_errs t = close_errs s" "closed t = closed s" "same_proc s t" "child_pids t = child_pids s"
proof -
  let ?s0 = "s\<lparr>locked := insert Open_Mutex (locked s)\<rparr>"
  have "\<not> lib_initialized (open_vars ?s0)" "reachable_observer fd ?s0"
    using assms(1,3) by (simp_all add: reachable_observer_def)
  from open_library.init_connects [OF this, of VOYEUR_EVENT_OPEN] obtain t where
    t: "lazy_init open_vars open_vars_update VOYEUR_EVENT_OPEN ?s0 = Ok () t" "attached (open_vars t) fd t"
      "bookkeeping ?s0 t" "lib_opts (open_vars t) = options" "written fd t = []"
    using assms(5) by auto
  have b: "wsys t = wsys s" "answers t = answers s" "passed t = passed s" "build_os t = build_os s"
    "locked t = insert Open_Mutex (locked s)" "close_errs t = close_errs s" "closed t = closed s" "same_proc s t"
    "child_pids t = child_pids s"
    using t(3) by (simp_all add: bookkeeping_def same_proc_def)
  obtain path oflag arg cs' where cs: "cs = (path, oflag, arg) # cs'" using assms(4) by (cases cs) auto
  have "lib_initialized (open_vars t)" using t(2) by (simp add: attached_def)
  from open_first [OF assms(2) t(1) this b(5)] have first: "open_calls cs s = open_calls cs (t\<lparr>locked := locked s\<rparr>)"
    by (simp add: cs io_bind_def)
  show ?thesis
    by (rule that [OF first]) (use t(2,4,5) b in \<open>auto simp: attached_def connected_def written_def same_proc_def\<close>)
qed

lemma open_run_stream:
  assumes "\<not> lib_initialized (open_vars s)" and "Open_Mutex \<notin> locked s" and "reachable_observer fd s"
    and "cs \<noteq> []" and "calls_given (build_os s) cs" and "length cs \<le> length (answers s)"
    and "options = voyeur_decode_options (getenv (environ s) ''LIBVOYEUR_OPTS'') 2"
    and "soft_w (wsys s)" and "4 + open_room s options cs \<le> takes (wsys s)" and "close_errs s = []"
  shows "\<exists>rs t. open_run cs s = Ok rs t \<and> length rs = length cs
    \<and> closed t = closed s @ [(fd, enc_msgs options (open_events s cs rs) @ enc_done)]
    \<and> passed t = passed s @ next_opens (build_os s) cs \<and> fdt t fd = None \<and> locked t = locked s"
proof -
  obtain t where t: "open_calls cs s = open_calls cs t" "attached (open_vars t) fd t" "lib_opts (open_vars t) = options"
    "written fd t = []" "wsys t = wsys s" "answers t = answers s" "passed t = passed s" "build_os t = build_os s"
    "locked t = locked s" "close_errs t = close_errs s" "closed t = closed s" "same_proc s t"
    by (rule open_attaches [OF assms(1-4,7)])
  have room: "open_room t options cs = open_room s options cs"
    using t(8,12) by (simp add: open_room_def open_events_same)
  obtain rs u where "open_run cs t = Ok rs u" "length rs = length cs"
    "closed u = closed t @ [(fd, written fd t @ enc_msgs (lib_opts (open_vars t)) (open_events t cs rs) @ enc_done)]"
    "passed u = passed t @ next_opens (build_os t) cs" "fdt u fd = None" "locked u = locked t"
    by (rule open_run_attached [OF t(2), of cs]) (use assms t room in simp_all)
  moreover have "open_run cs s = open_run cs t" using t(1) by (simp add: open_run_def io_bind_def)
  ultimately show ?thesis using t open_events_same [OF t(12,8)] by auto
qed

definition ex_proc :: process where
  "ex_proc = \<lparr>fdt = Map.empty, rsys = [], wsys = replicate 400 (Take 2), close_errs = [], closed = [],
     live = 0, mem_max = 65536, new_socks = [5], conn_sys = [False, True], rand = [], slept = 0,
     build_os = Linux, debug = False,
     environ = [''PATH=/bin'', ''LIBVOYEUR_LIBS=/v.so'', ''LIBVOYEUR_OPTS=@@A@'', ''LIBVOYEUR_SOCKET=/tmp/s''],
     cur_dir = Some ''/r'', self_pid = 7, parent_pid = 1, executable = (\<lambda>p. p = ''/bin/x''),
     answers = [8, -1], child_pids = [9], stack_pid = 77, passed = [], locked = {},
     open_vars = statics0, close_vars = statics0, voyeur_close_finalized = False,
     spawn_vars = statics0, voyeur_posix_spawn_libs = None, voyeur_posix_spawn_opts = None,
     voyeur_posix_spawn_sockpath = None, did_exit_already = False, exit_handlers = []\<rparr>"

lemma length_enc_open:
  "length (enc_msg options (Open_Event path oflag mode r cwd pid)) =
    32 + length (str_sent (Some path)) + (if has_flag options OBSERVE_OPEN_CWD then 8 + length (str_sent cwd) else 0)"
  by (simp add: enc_msg_def enc_str_def)

definition ex_calls :: "open_call list" where
  "ex_calls = [(Some ''/tmp/f'', 0x41, Some 0x1A4), (None, 0, None)]"

definition ex_environ :: "string list" where
  "ex_environ = [''PATH=/bin'', ''LIBVOYEUR_LIBS=/v.so'', ''LIBVOYEUR_OPTS=@@A@'', ''LIBVOYEUR_SOCKET=/tmp/s'']"

lemma ex_environ_vars [simp]:
  "getenv ex_environ ''LIBVOYEUR_LIBS'' = Some ''/v.so''"
  "getenv ex_environ ''LIBVOYEUR_OPTS'' = Some ''@@A@''"
  "getenv ex_environ ''LIBVOYEUR_SOCKET'' = Some ''/tmp/s''"
  "getenv ex_environ ''PATH'' = Some ''/bin''"
  by code_simp+

lemma ex_opts [simp]: "voyeur_decode_options (Some ''@@A@'') 2 = 1"
  by code_simp

lemma ex_proc_fields [simp]:
  "environ ex_proc = ex_environ" "build_os ex_proc = Linux" "closed ex_proc = []" "passed ex_proc = []"
  "wsys ex_proc = replicate 400 (Take 2)" "locked ex_proc = {}" "answers ex_proc = [8, -1]"
  "fdt ex_proc = Map.empty" "new_socks ex_proc = [5]" "conn_sys ex_proc = [False, True]"
  "close_errs ex_proc = []" "open_vars ex_proc = statics0" "close_vars ex_proc = statics0"
  "cur_dir ex_proc = Some ''/r''" "self_pid ex_proc = 7" "parent_pid ex_proc = 1"
  by (simp_all add: ex_proc_def ex_environ_def)

lemma statics0_fields [simp]: "\<not> lib_initialized statics0" "\<not> lib_next statics0" "lib_sock statics0 = 0"
  by (simp_all add: statics0_def)

lemma ex_calls_facts [simp]:
  "next_opens Linux ex_calls = [Next_Open (Some ''/tmp/f'') 0x41 (Some 0x1A4), Next_Open None 0 None]"
  "calls_given Linux ex_calls" "length ex_calls = 2" "ex_calls \<noteq> []"
  by (simp_all add: ex_calls_def open_mode_def O_CREAT_def mode_cast_def calls_given_def mode_given_def)

lemma ex_proc_reachable: "reachable_observer 5 ex_proc"
  by (simp add: reachable_observer_def)

lemma ex_calls_room: "4 + open_room ex_proc 1 ex_calls \<le> takes (wsys ex_proc)"
proof -
  have "length (str_sent (Some ''/tmp/f'')) = 6" "length (str_sent (Some [])) = 0"
    "length (str_sent (Some ''/r'')) = 2"
    by (simp_all add: str_sent_eq)
  then have "open_room ex_proc 1 ex_calls \<le> 200"
    unfolding open_room_def ex_calls_def by (simp add: open_event_def length_enc_open ptr_str_def)
  then show ?thesis by simp
qed

text \<open>
  C18: the interposed \<open>open\<close> is transparent, whatever the kernel answers to the library's own calls: it
  returns what the real function returned, after one call of it with the caller's arguments, changes no
  descriptor but the new one and the one in the library's own variable (which is the number it had
  before, a new socket's, or negative), and releases the mutex; a report that cannot be sent is dropped.
\<close>

theorem open_transparent:
  assumes "Open_Mutex \<notin> locked s" and "getenv (environ s) ''LIBVOYEUR_SOCKET'' \<noteq> None"
    and "lib_initialized (open_vars s) \<Longrightarrow> lib_next (open_vars s)"
    and "mode_given (build_os s) oflag arg" and "answers s = a # as"
    and "0 \<le> sint a \<Longrightarrow> fdt s (sint a) = None \<and> sint a \<notin> set (new_socks s)"
  shows "case voyeur_open path oflag arg s of
      Ok r t \<Rightarrow> r = (if sint a < 0 then -1 else a)
        \<and> passed t = passed s @ [Next_Open path oflag (open_mode (build_os s) oflag arg)]
        \<and> (0 \<le> sint r \<longrightarrow> fdt t (sint r) \<noteq> None)
        \<and> fdt t |` (- {sint r, lib_sock (open_vars t)}) = fdt s |` (- {sint r, lib_sock (open_vars t)})
        \<and> lib_sock (open_vars t) \<in> insert (lib_sock (open_vars s)) ({..<0} \<union> set (new_socks s))
        \<and> answers t = as \<and> locked t = locked s \<and> same_proc s t
    | Blocked \<Rightarrow> True
    | _ \<Rightarrow> False"
proof -
  let ?s0 = "s\<lparr>locked := insert Open_Mutex (locked s)\<rparr>"
  obtain t where t: "lazy_init open_vars open_vars_update VOYEUR_EVENT_OPEN ?s0 = Ok () t" "bookkeeping ?s0 t"
      "lib_initialized (open_vars t)" "lib_next (open_vars t)"
      "\<And>g. g \<noteq> lib_sock (open_vars t) \<Longrightarrow> fdt t g = fdt ?s0 g"
      "lib_sock (open_vars t) \<in> insert (lib_sock (open_vars ?s0)) ({..<0} \<union> set (new_socks ?s0))"
      "\<And>g. 0 \<le> g \<Longrightarrow> g \<notin> set (new_socks ?s0) \<Longrightarrow> fdt t g = fdt ?s0 g"
    by (rule open_library.init_returns [of ?s0 VOYEUR_EVENT_OPEN]) (use assms(2,3) in auto)
  have b: "build_os t = build_os s" "answers t = a # as" "passed t = passed s" "locked t = insert Open_Mutex (locked s)"
    "same_proc s t"
    using t(2) assms(5) by (simp_all add: bookkeeping_def same_proc_def)
  let ?mode = "open_mode (build_os s) oflag arg"
  obtain r tab where r: "real_open path oflag ?mode t
      = Ok r (t\<lparr>answers := as, passed := passed t @ [Next_Open path oflag ?mode], fdt := tab\<rparr>)"
    "r = (if sint a < 0 \<or> fdt t (sint a) \<noteq> None then -1 else a)"
    "\<And>g. g \<noteq> sint r \<Longrightarrow> tab g = fdt t g" "0 \<le> sint r \<Longrightarrow> tab (sint r) \<noteq> None"
    by (rule real_open_effect [OF b(2), where path = path and oflag = oflag and mode = ?mode]) blast
  have r_eq: "r = (if sint a < 0 then -1 else a)"
    using r(2) t(7) [of "sint a"] assms(6) by auto
  let ?t = "t\<lparr>answers := as, passed := passed t @ [Next_Open path oflag ?mode], fdt := tab\<rparr>"
  let ?fd = "lib_sock (open_vars t)"
  let ?rep = "io_when (0 \<le> ?fd) (report_open ?fd (lib_opts (open_vars t)) path oflag ?mode r)"
  have eq: "voyeur_open path oflag arg s = io_then ?rep (io_then (pthread_mutex_unlock Open_Mutex) (io_ret r)) ?t"
    using open_after_init [OF assms(1) t(1) _ t(4), of oflag arg path] assms(4) r(1) by (simp add: b(1))
  have "quiet (report_frame ?fd) ?rep"
    unfolding report_open_def by (intro quiet_reports)
  then show ?thesis
  proof (cases rule: quietE [of _ ?rep ?t])
    case 1
    then show ?thesis by (simp add: eq io_then_def)
  next
    case (2 v u)
    have run: "voyeur_open path oflag arg s = Ok r (u\<lparr>locked := locked u - {Open_Mutex}\<rparr>)"
      using 2(1) by (simp add: eq)
    have u: "locked u - {Open_Mutex} = locked s" "answers u = as" "lib_sock (open_vars u) = ?fd"
      "passed u = passed s @ [Next_Open path oflag ?mode]" "same_proc s u"
      using report_frame_process [OF 2(2)] b assms(1) by (simp_all add: same_proc_def)
    have g: "fdt u g = tab g" if "g \<noteq> ?fd" for g
      using report_frame_table(1) [OF 2(2) that] by simp
    have "fdt u |` (- {sint r, ?fd}) = fdt s |` (- {sint r, ?fd})"
      using g r(3) t(5) by (auto simp: restrict_map_def)
    moreover have "0 \<le> sint r \<longrightarrow> fdt u (sint r) \<noteq> None"
      using report_frame_table(2) [OF 2(2), of "sint r"] r(4) by simp
    moreover have "?fd \<in> insert (lib_sock (open_vars s)) ({..<0} \<union> set (new_socks s))" using t(6) by simp
    ultimately show ?thesis using u r_eq by (simp add: run same_proc_def)
  qed
qed

theorem open_transparent_witness:
  "case voyeur_open (Some ''/tmp/f'') 0x41 (Some 0x1A4) (ex_proc\<lparr>wsys := [WrErr EPIPE], conn_sys := []\<rparr>) of
      Ok r t \<Rightarrow> r = 8 \<and> passed t = [Next_Open (Some ''/tmp/f'') 0x41 (Some 0x1A4)] \<and> answers t = [-1]
        \<and> fdt t 8 \<noteq> None \<and> locked t = {} \<and> same_proc ex_proc t
    | Blocked \<Rightarrow> True
    | _ \<Rightarrow> False"
proof -
  let ?s = "ex_proc\<lparr>wsys := [WrErr EPIPE], conn_sys := []\<rparr>"
  have f: "mode_given Linux 0x41 (Some 0x1A4)" "open_mode Linux 0x41 (Some 0x1A4) = Some 0x1A4"
    by (simp_all add: mode_given_def open_mode_def O_CREAT_def mode_cast_def)
  have same: "same_proc ?s t = same_proc ex_proc t" for t by (simp add: same_proc_def)
  have "sint (8 :: cint) = 8" by simp
  with open_transparent [where s = ?s and oflag = "0x41" and arg = "Some 0x1A4" and a = 8 and as = "[-1]" and path = "Some ''/tmp/f''"] f show ?thesis
    by (simp add: same split: res.splits)
qed

end
