(* ===== verification/Close_Interposer.thy ===== *)
theory Close_Interposer
  imports Open_Interposer
begin

text \<open>
  \<open>src/voyeur-close.c\<close>: the interposed \<open>close\<close>, with the flag that lets it forward calls while the
  process shuts down, and the destructor. The destructor's own call of \<open>close\<close> reaches the interposed
  function with the flag set and is forwarded, so it is the real \<open>close\<close> (\<open>Own_Close\<close>).
\<close>

section \<open>The code\<close>

definition voyeur_cleanup_close :: "(unit, 'z process_scheme) io" where
  "voyeur_cleanup_close =
     io_then (pthread_mutex_lock Close_Mutex)
     (io_then (io_modify (\<lambda>s. s\<lparr>voyeur_close_finalized := True\<rparr>))
     (io_then (finish_stream close_vars close_vars_update)
     (pthread_mutex_unlock Close_Mutex)))"

definition report_close :: "int \<Rightarrow> cint \<Rightarrow> cint \<Rightarrow> (unit, 'z process_scheme) io" where
  "report_close fd fildes retval =
     io_then (io_ignore (voyeur_write_msg_type fd VOYEUR_MSG_EVENT))
     (io_then (io_ignore (voyeur_write_event_type fd VOYEUR_EVENT_CLOSE))
     (io_then (io_ignore (voyeur_write_int fd fildes))
     (io_then (io_ignore (voyeur_write_int fd retval))
     (io_bind (io_get self_pid) (\<lambda>pid. io_ignore (voyeur_write_pid fd pid))))))"

definition voyeur_close :: "cint \<Rightarrow> (cint, 'z process_scheme) io" where
  "voyeur_close fildes =
     io_bind (io_get voyeur_close_finalized) (\<lambda>finalized.
     if finalized then
       io_bind (io_get close_vars) (\<lambda>v. VOYEUR_CALL_NEXT (lib_next v) (real_close fildes))
     else
       io_then (pthread_mutex_lock Close_Mutex)
       (io_then (lazy_init close_vars close_vars_update VOYEUR_EVENT_CLOSE)
       (io_bind (io_get close_vars) (\<lambda>v.
       io_bind (VOYEUR_CALL_NEXT (lib_next v) (real_close fildes)) (\<lambda>retval.
       io_then (io_when (0 \<le> lib_sock v) (report_close (lib_sock v) fildes retval))
       (io_then (pthread_mutex_unlock Close_Mutex)
       (io_ret retval)))))))"

section \<open>One call\<close>

definition close_event :: "'z process_scheme \<Rightarrow> cint \<Rightarrow> cint \<Rightarrow> event" where
  "close_event s fildes r = Close_Event fildes r (self_pid s)"

lemma emits_report_close:
  "emits s (report_close fd fildes r) fd (enc_msg options (close_event s fildes r)) 0"
proof -
  have pid: "emits s (io_bind (io_get self_pid) (\<lambda>pid. io_ignore (voyeur_write_pid fd pid))) fd (obj32 (self_pid s)) 0"
    by (rule emits_get) (rule emits_pid, simp add: same_proc_def)
  have "emits s (report_close fd fildes r) fd
      (obj32 (msg_type_val VOYEUR_MSG_EVENT) @ obj32 (event_type_val VOYEUR_EVENT_CLOSE) @ obj32 fildes
        @ obj32 r @ obj32 (self_pid s)) (0 + (0 + (0 + (0 + 0))))"
    unfolding report_close_def by (intro emits_then emits_msg_type emits_event_type emits_int pid)
  then show ?thesis by (simp add: enc_msg_def close_event_def)
qed

lemma length_close_msg [simp]: "length (enc_msg options (close_event s fildes r)) = 20"
  by (simp add: enc_msg_def close_event_def)

text \<open>Writing to a descriptor that is not open reports an error and changes nothing.\<close>

lemma do_write_closed:
  assumes "fdt s fd = None" and "0 < sint n" and "unat n \<le> length buf"
  shows "do_write fd buf n s = Fail s"
  using assms by (simp add: do_write_def do_write_loop.simps [of fd buf n 0 s] sys_send_def)

lemma write_closed:
  assumes "fdt s fd = None"
  shows "io_ignore (voyeur_write_msg_type fd mt) s = Ok () s" "io_ignore (voyeur_write_event_type fd ty) s = Ok () s"
    "io_ignore (voyeur_write_int fd v) s = Ok () s" "io_ignore (voyeur_write_pid fd v) s = Ok () s"
  using assms by (simp_all add: io_ignore_def voyeur_write_msg_type_def voyeur_write_event_type_def
      voyeur_write_int_def voyeur_write_pid_def do_write_closed)

lemma close_after_init:
  assumes "\<not> voyeur_close_finalized s" and "Close_Mutex \<notin> locked s"
    and "lazy_init close_vars close_vars_update VOYEUR_EVENT_CLOSE (s\<lparr>locked := insert Close_Mutex (locked s)\<rparr>) = Ok () t"
    and "lib_next (close_vars t)"
  shows "voyeur_close fildes s =
    io_bind (real_close fildes) (\<lambda>r.
      io_then (io_when (0 \<le> lib_sock (close_vars t)) (report_close (lib_sock (close_vars t)) fildes r))
      (io_then (pthread_mutex_unlock Close_Mutex) (io_ret r))) t"
  using assms by (simp add: voyeur_close_def)

lemma close_first:
  assumes "\<not> voyeur_close_finalized s" and "\<not> voyeur_close_finalized t" and "Close_Mutex \<notin> locked s"
    and "lazy_init close_vars close_vars_update VOYEUR_EVENT_CLOSE (s\<lparr>locked := insert Close_Mutex (locked s)\<rparr>) = Ok () t"
    and "lib_initialized (close_vars t)" and "locked t = insert Close_Mutex (locked s)"
  shows "voyeur_close fildes s = voyeur_close fildes (t\<lparr>locked := locked s\<rparr>)"
proof -
  have "t\<lparr>locked := insert Close_Mutex (locked s)\<rparr> = t" using assms(6) by simp
  then show ?thesis using assms(1-5) by (simp add: voyeur_close_def close_library.init_done)
qed

text \<open>What the real \<open>close\<close> answers when the kernel does not interrupt it.\<close>

definition close_result :: "'z sys_scheme \<Rightarrow> cint \<Rightarrow> cint" where
  "close_result s fildes = (if fdt s (sint fildes) = None then -1 else 0)"

lemma real_close_quiet:
  "close_errs s = [] \<Longrightarrow> real_close fildes s = Ok (close_result s fildes) (close_fd (sint fildes) s)"
  by (cases "fdt s (sint fildes)")
    (simp_all add: real_close_def sys_close_def close_fd_def close_result_def fun_upd_idem)

lemma real_close_effect:
  obtains r es tab where "real_close fildes s
      = Ok r (s\<lparr>closed := closed s @ [(sint fildes, written (sint fildes) s)], close_errs := es, fdt := tab\<rparr>)"
    "\<And>g. g \<noteq> sint fildes \<Longrightarrow> tab g = fdt s g" "r = 0 \<longleftrightarrow> close_errs s = [] \<and> fdt s (sint fildes) \<noteq> None"
    "r = 0 \<or> r = -1" "tab (sint fildes) = None \<longleftrightarrow> r = 0 \<or> fdt s (sint fildes) = None"
proof (cases "close_errs s")
  case Nil
  show ?thesis
    by (rule that [where r = "close_result s fildes" and es = "close_errs s" and tab = "(fdt s)(sint fildes := None)"])
      (use Nil in \<open>auto simp: real_close_quiet close_fd_def close_result_def\<close>)
next
  case (Cons e es)
  show ?thesis
    by (rule that [where r = "-1" and es = es and tab = "fdt s"]) (use Cons in \<open>auto simp: real_close_def sys_close_def\<close>)
qed

lemma close_attached:
  assumes "attached (close_vars s) fd s" and "Close_Mutex \<notin> locked s" and "\<not> voyeur_close_finalized s"
    and "sint fildes \<noteq> fd" and "close_errs s = []" and "soft_w (wsys s)" and "n + 20 \<le> takes (wsys s)"
  obtains t where "voyeur_close fildes s = Ok (close_result s fildes) t" "attached (close_vars t) fd t"
    "close_vars t = close_vars s"
    "written fd t = written fd s @ enc_msg options (close_event s fildes (close_result s fildes))"
    "soft_w (wsys t)" "n \<le> takes (wsys t)" "locked t = locked s" "\<not> voyeur_close_finalized t"
    "same_proc s t" "close_errs t = []" "closed t = closed s @ [(sint fildes, written (sint fildes) s)]"
    "\<forall>g. g \<noteq> fd \<longrightarrow> fdt t g = (if g = sint fildes then None else fdt s g)"
proof -
  let ?r = "close_result s fildes"
  let ?s0 = "s\<lparr>locked := insert Close_Mutex (locked s)\<rparr>"
  let ?s1 = "close_fd (sint fildes) ?s0"
  let ?bs = "enc_msg options (close_event s fildes ?r)"
  have a: "lib_initialized (close_vars s)" "lib_sock (close_vars s) = fd" "lib_next (close_vars s)" "0 \<le> fd" "connected fd s"
    using assms(1) by (simp_all add: attached_def)
  have real: "real_close fildes ?s0 = Ok ?r ?s1" using real_close_quiet [of ?s0 fildes] assms(5) by (simp add: close_result_def)
  have c: "connected fd ?s1" "same_proc s ?s1" "written fd ?s1 = written fd s"
    using a(5) assms(4) by (auto simp: connected_def same_proc_def close_fd_def written_def)
  obtain w where w: "report_close fd fildes ?r ?s1 = Ok () (put_bytes fd ?bs (?s1\<lparr>wsys := w, live := live ?s1 + 0\<rparr>))"
    "soft_w w" "n \<le> takes w"
    by (rule emitsE [OF emits_report_close [of s fd fildes ?r options], of ?s1 n]) (use assms(6,7) c in simp_all)
  let ?t = "(put_bytes fd ?bs (?s1\<lparr>wsys := w\<rparr>))\<lparr>locked := locked s\<rparr>"
  have run: "voyeur_close fildes s = Ok ?r ?t"
    using assms(2,3) a real w(1)
    by (subst close_after_init [where t = ?s0]) (simp_all add: close_library.init_done put_bytes_def close_fd_def)
  have "written fd ?t = written fd s @ ?bs"
    using written_put_bytes [of fd "?s1\<lparr>wsys := w\<rparr>" ?bs] c by (simp add: written_def)
  moreover have "attached (close_vars ?t) fd ?t"
    using a c(1) by (auto simp: attached_def connected_def put_bytes_def close_fd_def)
  ultimately show ?thesis
    by (intro that [OF run]) (use w assms in \<open>simp_all add: put_bytes_def same_proc_def close_fd_def written_def\<close>)
qed

section \<open>A process that closes descriptors\<close>

fun close_calls :: "cint list \<Rightarrow> (cint list, 'z process_scheme) io" where
  "close_calls [] = io_ret []"
| "close_calls (c # cs) =
     io_bind (voyeur_close c) (\<lambda>r. io_bind (close_calls cs) (\<lambda>rs. io_ret (r # rs)))"

definition close_run :: "cint list \<Rightarrow> (cint list, 'z process_scheme) io" where
  "close_run cs = io_bind (close_calls cs) (\<lambda>rs. io_then voyeur_cleanup_close (io_ret rs))"

text \<open>What closing descriptors one after the other returns, if those in \<open>D\<close> are open.\<close>

fun close_results :: "int set \<Rightarrow> cint list \<Rightarrow> cint list" where
  "close_results D [] = []"
| "close_results D (c # cs) = (if sint c \<in> D then 0 else -1) # close_results (D - {sint c}) cs"

definition close_events :: "'z process_scheme \<Rightarrow> int set \<Rightarrow> cint list \<Rightarrow> event list" where
  "close_events s D cs = map2 (close_event s) cs (close_results D cs)"

lemma close_events_Cons [simp]:
  "close_events s D (c # cs) = close_event s c (if sint c \<in> D then 0 else -1) # close_events s (D - {sint c}) cs"
  by (simp add: close_events_def)

lemma close_events_Nil [simp]: "close_events s D [] = []"
  by (simp add: close_events_def)

lemma close_events_same: "same_proc s t \<Longrightarrow> close_events t D cs = close_events s D cs"
  by (simp add: close_events_def close_event_def same_proc_def)

lemma close_calls_attached:
  assumes "attached (close_vars s) fd s" and "Close_Mutex \<notin> locked s" and "\<not> voyeur_close_finalized s"
    and "fd \<notin> sint ` set cs" and "close_errs s = []" and "soft_w (wsys s)" and "n + 20 * length cs \<le> takes (wsys s)"
    and "\<And>g. g \<noteq> fd \<Longrightarrow> g \<in> D \<longleftrightarrow> fdt s g \<noteq> None"
  shows "\<exists>t. close_calls cs s = Ok (close_results D cs) t \<and> attached (close_vars t) fd t
    \<and> written fd t = written fd s @ enc_msgs options (close_events s D cs)
    \<and> soft_w (wsys t) \<and> n \<le> takes (wsys t) \<and> locked t = locked s \<and> \<not> voyeur_close_finalized t
    \<and> close_errs t = [] \<and> map fst (closed t) = map fst (closed s) @ map sint cs"
  using assms
proof (induction cs arbitrary: s D)
  case Nil
  then show ?case by simp
next
  case (Cons c cs)
  have ne: "sint c \<noteq> fd" and notin: "fd \<notin> sint ` set cs" using Cons.prems(4) by auto
  have room: "(n + 20 * length cs) + 20 \<le> takes (wsys s)" using Cons.prems(7) by simp
  obtain t where
    t: "voyeur_close c s = Ok (close_result s c) t" "attached (close_vars t) fd t" "close_vars t = close_vars s"
      "written fd t = written fd s @ enc_msg options (close_event s c (close_result s c))" "soft_w (wsys t)"
      "n + 20 * length cs \<le> takes (wsys t)" "locked t = locked s" "\<not> voyeur_close_finalized t" "same_proc s t"
      "close_errs t = []" "closed t = closed s @ [(sint c, written (sint c) s)]"
      "\<forall>g. g \<noteq> fd \<longrightarrow> fdt t g = (if g = sint c then None else fdt s g)"
    by (rule close_attached [OF Cons.prems(1-3) ne Cons.prems(5,6) room, of options])
  have r: "close_result s c = (if sint c \<in> D then 0 else -1)"
    using Cons.prems(8) [of "sint c"] ne by (simp add: close_result_def)
  have free: "Close_Mutex \<notin> locked t" using Cons.prems(2) t(7) by simp
  have dom: "\<And>g. g \<noteq> fd \<Longrightarrow> g \<in> D - {sint c} \<longleftrightarrow> fdt t g \<noteq> None"
    using Cons.prems(8) t(12) by auto
  from Cons.IH [OF t(2) free t(8) notin t(10,5,6) dom] obtain u where
    u: "close_calls cs t = Ok (close_results (D - {sint c}) cs) u" "attached (close_vars u) fd u"
    "written fd u = written fd t @ enc_msgs options (close_events t (D - {sint c}) cs)" "soft_w (wsys u)"
    "n \<le> takes (wsys u)" "locked u = locked t" "\<not> voyeur_close_finalized u" "close_errs u = []"
    "map fst (closed u) = map fst (closed t) @ map sint cs"
    by blast
  have "close_calls (c # cs) s = Ok (close_results D (c # cs)) u"
    using t(1) u(1) by (simp add: r)
  moreover have "written fd u = written fd s @ enc_msgs options (close_events s D (c # cs))"
    using u(3) t(4) by (simp add: r close_events_same [OF t(9)])
  ultimately show ?case using u t(7,11) by (intro exI [of _ u]) simp
qed

lemma close_run_stream:
  assumes "\<not> lib_initialized (close_vars s)" and "Close_Mutex \<notin> locked s" and "\<not> voyeur_close_finalized s"
    and "reachable_observer fd s" and "cs \<noteq> []" and "fd \<notin> sint ` set cs"
    and "soft_w (wsys s)" and "4 + 20 * length cs \<le> takes (wsys s)" and "close_errs s = []"
    and "D = dom (fdt s)"
  shows "\<exists>t. close_run cs s = Ok (close_results D cs) t
    \<and> map fst (closed t) = map fst (closed s) @ map sint cs @ [fd]
    \<and> last (closed t) = (fd, enc_msgs options (close_events s D cs) @ enc_done)
    \<and> fdt t fd = None \<and> locked t = locked s \<and> voyeur_close_finalized t"
proof -
  let ?s0 = "s\<lparr>locked := insert Close_Mutex (locked s)\<rparr>"
  have "\<not> lib_initialized (close_vars ?s0)" "reachable_observer fd ?s0"
    using assms(1,4) by (simp_all add: reachable_observer_def)
  from close_library.init_connects [OF this, of VOYEUR_EVENT_CLOSE] obtain t where
    t: "lazy_init close_vars close_vars_update VOYEUR_EVENT_CLOSE ?s0 = Ok () t" "attached (close_vars t) fd t"
      "bookkeeping ?s0 t" "written fd t = []" "\<forall>g. g \<noteq> fd \<longrightarrow> fdt t g = fdt ?s0 g"
    by blast
  have b: "wsys t = wsys s" "locked t = insert Close_Mutex (locked s)" "close_errs t = []" "closed t = closed s" "same_proc s t"
    "voyeur_close_finalized t = voyeur_close_finalized s"
    using t(3) assms(9) by (simp_all add: bookkeeping_def same_proc_def)
  let ?t = "t\<lparr>locked := locked s\<rparr>"
  have init: "lib_initialized (close_vars t)" "\<not> voyeur_close_finalized t" using t(2) b(6) assms(3) by (simp_all add: attached_def)
  have first: "close_calls cs s = close_calls cs ?t"
    using close_first [OF assms(3) init(2) assms(2) t(1) init(1) b(2)] assms(5) by (cases cs) (simp_all add: io_bind_def)
  have at: "attached (close_vars ?t) fd ?t" using t(2) by (auto simp: attached_def connected_def)
  have dom: "\<And>g. g \<noteq> fd \<Longrightarrow> g \<in> D \<longleftrightarrow> fdt ?t g \<noteq> None" using t(5) assms(10) by auto
  have pre: "Close_Mutex \<notin> locked ?t" "\<not> voyeur_close_finalized ?t" "close_errs ?t = []" "soft_w (wsys ?t)"
    "4 + 20 * length cs \<le> takes (wsys ?t)"
    using assms(2,7,8) b init(2) by simp_all
  from close_calls_attached [OF at pre(1,2) assms(6) pre(3-5) dom, of options] obtain u where
    u: "close_calls cs ?t = Ok (close_results D cs) u" "attached (close_vars u) fd u"
    "written fd u = enc_msgs options (close_events s D cs)" "soft_w (wsys u)"
    "4 \<le> takes (wsys u)" "locked u = locked s" "close_errs u = []"
    "map fst (closed u) = map fst (closed s) @ map sint cs"
    using t(4) b(4,5) close_events_same [of s ?t] by (auto simp: written_def same_proc_def)
  let ?u0 = "u\<lparr>locked := insert Close_Mutex (locked s), voyeur_close_finalized := True\<rparr>"
  have at': "attached (close_vars ?u0) fd ?u0" using u(2) by (auto simp: attached_def connected_def)
  have u0: "soft_w (wsys ?u0)" "length enc_done \<le> takes (wsys ?u0)" "close_errs ?u0 = []"
    "closed ?u0 = closed u" "written fd ?u0 = enc_msgs options (close_events s D cs)"
    using u(3-7) by (simp_all add: written_def)
  obtain v where
    v: "finish_stream close_vars close_vars_update ?u0 = Ok () v"
      "closed v = closed u @ [(fd, enc_msgs options (close_events s D cs) @ enc_done)]"
      "fdt v = (fdt u)(fd := None)" "locked v = insert Close_Mutex (locked s)" "voyeur_close_finalized v"
    by (rule close_library.finish_attached [OF at' u0(1-3)]) (use u0(4,5) in simp)
  have "voyeur_cleanup_close u = Ok () (v\<lparr>locked := locked s\<rparr>)"
    using assms(2) u(6) v(1,4) by (simp add: voyeur_cleanup_close_def)
  then have "close_run cs s = Ok (close_results D cs) (v\<lparr>locked := locked s\<rparr>)"
    using first u(1) by (simp add: close_run_def)
  then show ?thesis using u(8) v by (intro exI [of _ "v\<lparr>locked := locked s\<rparr>"]) simp
qed

lemma ex_proc_not_finalized [simp]: "\<not> voyeur_close_finalized ex_proc"
  by (simp add: ex_proc_def)

text \<open>
  C26: the interposed \<open>close\<close> is transparent, whatever the kernel answers: the real \<open>close\<close> is called
  once, its result is returned, the caller's descriptor is closed exactly when the result is 0, no other
  descriptor changes but the one in the library's own variable (which is the number it had before, a new
  socket's, or negative), and the mutex is free again.
\<close>

theorem close_transparent:
  assumes "Close_Mutex \<notin> locked s" and "getenv (environ s) ''LIBVOYEUR_SOCKET'' \<noteq> None"
    and "lib_initialized (close_vars s) \<or> voyeur_close_finalized s \<Longrightarrow> lib_next (close_vars s)"
    and "0 \<le> sint fildes" and "sint fildes \<notin> set (new_socks s)"
  shows "case voyeur_close fildes s of
      Ok r t \<Rightarrow> r = (if close_errs s = [] \<and> fdt s (sint fildes) \<noteq> None then 0 else -1)
        \<and> closed t = closed s @ [(sint fildes, written (sint fildes) s)]
        \<and> (fdt t (sint fildes) = None) = (r = 0 \<or> fdt s (sint fildes) = None)
        \<and> fdt t |` (- {sint fildes, lib_sock (close_vars t)}) = fdt s |` (- {sint fildes, lib_sock (close_vars t)})
        \<and> lib_sock (close_vars t) \<in> insert (lib_sock (close_vars s)) ({..<0} \<union> set (new_socks s))
        \<and> locked t = locked s \<and> same_proc s t
    | Blocked \<Rightarrow> True
    | _ \<Rightarrow> False"
proof (cases "voyeur_close_finalized s")
  case True
  obtain r es tab where r: "real_close fildes s
      = Ok r (s\<lparr>closed := closed s @ [(sint fildes, written (sint fildes) s)], close_errs := es, fdt := tab\<rparr>)"
    "\<And>g. g \<noteq> sint fildes \<Longrightarrow> tab g = fdt s g" "r = 0 \<longleftrightarrow> close_errs s = [] \<and> fdt s (sint fildes) \<noteq> None"
    "r = 0 \<or> r = -1" "tab (sint fildes) = None \<longleftrightarrow> r = 0 \<or> fdt s (sint fildes) = None"
    by (rule real_close_effect [of fildes s]) (rule that, assumption, simp_all)
  have tab: "tab |` (- {sint fildes, g}) = fdt s |` (- {sint fildes, g})" for g
    using r(2) by (auto simp: restrict_map_def)
  have "voyeur_close fildes s = real_close fildes s" using True assms(3) by (simp add: voyeur_close_def)
  then show ?thesis using r(1,3-5) tab by (auto simp: same_proc_def)
next
  case False
  let ?s0 = "s\<lparr>locked := insert Close_Mutex (locked s)\<rparr>"
  obtain t where t: "lazy_init close_vars close_vars_update VOYEUR_EVENT_CLOSE ?s0 = Ok () t" "bookkeeping ?s0 t"
      "lib_initialized (close_vars t)" "lib_next (close_vars t)"
      "\<And>g. g \<noteq> lib_sock (close_vars t) \<Longrightarrow> fdt t g = fdt ?s0 g"
      "lib_sock (close_vars t) \<in> insert (lib_sock (close_vars ?s0)) ({..<0} \<union> set (new_socks ?s0))"
      "\<And>g. 0 \<le> g \<Longrightarrow> g \<notin> set (new_socks ?s0) \<Longrightarrow> fdt t g = fdt ?s0 g"
    by (rule close_library.init_returns [of ?s0 VOYEUR_EVENT_CLOSE]) (use assms(2,3) in auto)
  have b: "closed t = closed s" "close_errs t = close_errs s" "locked t = insert Close_Mutex (locked s)" "same_proc s t"
    using t(2) by (simp_all add: bookkeeping_def same_proc_def)
  have tab: "fdt t (sint fildes) = fdt s (sint fildes)" using t(7) assms(4,5) by simp
  then have wr: "written (sint fildes) t = written (sint fildes) s" by (simp add: written_def)
  obtain r es tab where r: "real_close fildes t
      = Ok r (t\<lparr>closed := closed t @ [(sint fildes, written (sint fildes) t)], close_errs := es, fdt := tab\<rparr>)"
    "\<And>g. g \<noteq> sint fildes \<Longrightarrow> tab g = fdt t g" "r = 0 \<longleftrightarrow> close_errs t = [] \<and> fdt t (sint fildes) \<noteq> None"
    "r = 0 \<or> r = -1" "tab (sint fildes) = None \<longleftrightarrow> r = 0 \<or> fdt t (sint fildes) = None"
    by (rule real_close_effect [of fildes t]) (rule that, assumption, simp_all)
  let ?t = "t\<lparr>closed := closed t @ [(sint fildes, written (sint fildes) t)], close_errs := es, fdt := tab\<rparr>"
  let ?fd = "lib_sock (close_vars t)"
  let ?rep = "io_when (0 \<le> ?fd) (report_close ?fd fildes r)"
  have eq: "voyeur_close fildes s = io_then ?rep (io_then (pthread_mutex_unlock Close_Mutex) (io_ret r)) ?t"
    using close_after_init [OF False assms(1) t(1,4), of fildes] r(1) by simp
  have "quiet (report_frame ?fd) ?rep"
    unfolding report_close_def by (intro quiet_reports)
  then show ?thesis
  proof (cases rule: quietE [of _ ?rep ?t])
    case 1
    then show ?thesis by (simp add: eq io_then_def)
  next
    case (2 v u)
    have run: "voyeur_close fildes s = Ok r (u\<lparr>locked := locked u - {Close_Mutex}\<rparr>)"
      using 2(1) by (simp add: eq)
    note report = report_frame_process [OF 2(2)]
    have u: "locked u - {Close_Mutex} = locked s"
      "closed u = closed s @ [(sint fildes, written (sint fildes) s)]" "same_proc s u" "lib_sock (close_vars u) = ?fd"
      using report b assms(1) wr by (simp_all add: same_proc_def)
    have g: "fdt u g = tab g" if "g \<noteq> ?fd" for g
      using report_frame_table(1) [OF 2(2) that] by simp
    have "fdt u |` (- {sint fildes, ?fd}) = fdt s |` (- {sint fildes, ?fd})"
      using g r(2) t(5) by (auto simp: restrict_map_def)
    moreover have "(fdt u (sint fildes) = None) = (r = 0 \<or> fdt s (sint fildes) = None)"
      using report_frame_table(2) [OF 2(2), of "sint fildes"] r(5) tab by simp
    moreover have "r = (if close_errs s = [] \<and> fdt s (sint fildes) \<noteq> None then 0 else -1)"
      using r(3,4) b(2) tab by auto
    moreover have "?fd \<in> insert (lib_sock (close_vars s)) ({..<0} \<union> set (new_socks s))" using t(6) by simp
    ultimately show ?thesis using u by (simp add: run same_proc_def)
  qed
qed

definition ex_open_files :: "int \<rightharpoonup> fdesc" where
  "ex_open_files = [3 \<mapsto> ex_desc [], 4 \<mapsto> ex_desc []]"

theorem close_transparent_witness:
  "case voyeur_close 3 (ex_proc\<lparr>fdt := ex_open_files, wsys := [WrErr EPIPE]\<rparr>) of
      Ok r t \<Rightarrow> r = 0 \<and> closed t = [(3, [])] \<and> fdt t 3 = None
        \<and> fdt t |` (- {3, lib_sock (close_vars t)}) = ex_open_files |` (- {3, lib_sock (close_vars t)})
        \<and> locked t = {} \<and> same_proc ex_proc t
    | Blocked \<Rightarrow> True
    | _ \<Rightarrow> False"
proof -
  let ?s = "ex_proc\<lparr>fdt := ex_open_files, wsys := [WrErr EPIPE]\<rparr>"
  have f: "written 3 ?s = []" "sint (3 :: cint) = 3" "\<exists>d. ex_open_files 3 = Some d"
    by (simp_all add: written_def ex_desc_def ex_open_files_def)
  have same: "same_proc ?s t = same_proc ex_proc t" for t by (simp add: same_proc_def)
  from close_transparent [where s = ?s and fildes = 3] f(1,3) show ?thesis
    unfolding f(2) by (auto simp: same split: res.splits)
qed

text \<open>
  C37: what a call of \<open>close\<close> does after the library's destructor (from a destructor that runs later, for
  instance). If the library was in use, the call is forwarded to the real \<open>close\<close> and not reported; if
  it was not, the pointer to the real function was never looked up, and on Linux the call is a call
  through a null pointer.
\<close>

theorem close_after_cleanup:
  assumes "Close_Mutex \<notin> locked s" and "build_os s = Linux"
    and "lib_initialized (close_vars s) \<Longrightarrow> attached (close_vars s) fd s"
    and "\<not> lib_initialized (close_vars s) \<Longrightarrow> \<not> lib_next (close_vars s)"
    and "soft_w (wsys s)" and "4 \<le> takes (wsys s)" and "close_errs s = []"
  shows "if lib_initialized (close_vars s)
    then \<exists>t. voyeur_cleanup_close s = Ok () t \<and> closed t = closed s @ [(fd, written fd s @ enc_done)]
      \<and> voyeur_close fildes t = real_close fildes t
    else io_then voyeur_cleanup_close (voyeur_close fildes) s = Fault"
proof (cases "lib_initialized (close_vars s)")
  case True
  let ?s0 = "s\<lparr>locked := insert Close_Mutex (locked s), voyeur_close_finalized := True\<rparr>"
  have at: "attached (close_vars ?s0) fd ?s0" using assms(3) True by (auto simp: attached_def connected_def)
  have pre: "soft_w (wsys ?s0)" "length enc_done \<le> takes (wsys ?s0)" "close_errs ?s0 = []"
    using assms(5-7) by simp_all
  obtain v where v: "finish_stream close_vars close_vars_update ?s0 = Ok () v"
    "lib_next (close_vars v)" "closed v = closed s @ [(fd, written fd s @ enc_done)]" "voyeur_close_finalized v"
    by (rule close_library.finish_attached [OF at pre]) (use at in \<open>simp_all add: written_def attached_def\<close>)
  let ?t = "v\<lparr>locked := locked v - {Close_Mutex}\<rparr>"
  have "voyeur_cleanup_close s = Ok () ?t"
    using assms(1) v(1) by (simp add: voyeur_cleanup_close_def)
  moreover have "voyeur_close fildes ?t = real_close fildes ?t"
    using v(2,4) by (simp add: voyeur_close_def)
  ultimately show ?thesis using True v(3) by auto
next
  case False
  let ?s0 = "s\<lparr>locked := insert Close_Mutex (locked s), voyeur_close_finalized := True\<rparr>"
  have "voyeur_cleanup_close s = Ok () (?s0\<lparr>locked := locked s\<rparr>)"
    using assms(1) False close_library.finish_again [of ?s0] by (simp add: voyeur_cleanup_close_def)
  then show ?thesis using False assms(2,4) by (simp add: voyeur_close_def VOYEUR_CALL_NEXT_null)
qed

theorem close_after_cleanup_witness:
  "io_then voyeur_cleanup_close (voyeur_close 3) ex_proc = Fault"
  using close_after_cleanup [where s = ex_proc and fildes = 3] by simp

text \<open>
  C38: a program that closes the library's own connection (a daemon that closes all descriptors, say)
  is not noticed: the observer never gets the end-of-stream message, and the library keeps the number.
  Once the program has a connection of its own under it, the next call of \<open>close\<close> writes the
  library's message into that connection.
\<close>

theorem close_own_connection:
  assumes "attached (close_vars s) (sint fildes) s" and "Close_Mutex \<notin> locked s" and "\<not> voyeur_close_finalized s"
    and "close_errs s = []" and "d = \<lparr>fd_kind = Sock (Some peer), sent = sent_bytes, inp = [], peer_open = True\<rparr>"
    and "soft_w (wsys s)" and "20 \<le> takes (wsys s)" and "sint other \<noteq> sint fildes"
  shows "\<exists>t. voyeur_close fildes s = Ok 0 t
    \<and> closed t = closed s @ [(sint fildes, written (sint fildes) s)] \<and> lib_sock (close_vars t) = sint fildes
    \<and> (\<exists>r u. voyeur_close other (t\<lparr>fdt := (fdt t)(sint fildes \<mapsto> d)\<rparr>) = Ok r u
          \<and> written (sint fildes) u = sent_bytes @ enc_msg options (close_event s other r))"
proof -
  let ?fd = "sint fildes"
  let ?s0 = "s\<lparr>locked := insert Close_Mutex (locked s)\<rparr>"
  let ?s1 = "close_fd ?fd ?s0"
  let ?t = "?s1\<lparr>locked := locked s\<rparr>"
  have a: "lib_initialized (close_vars s)" "lib_sock (close_vars s) = ?fd" "lib_next (close_vars s)" "0 \<le> ?fd" "connected ?fd s"
    using assms(1) by (simp_all add: attached_def)
  have "real_close fildes ?s0 = Ok 0 ?s1"
    using real_close_quiet [of ?s0 fildes] assms(4) a(5) by (auto simp: close_result_def connected_def)
  moreover have "report_close ?fd fildes 0 ?s1 = Ok () ?s1"
    by (simp add: report_close_def write_closed)
  ultimately have run: "voyeur_close fildes s = Ok 0 ?t"
    using assms(2,3) a by (subst close_after_init [where t = ?s0]) (simp_all add: close_library.init_done close_fd_def)
  let ?u = "?t\<lparr>fdt := (fdt ?t)(?fd \<mapsto> d)\<rparr>"
  have at: "attached (close_vars ?u) ?fd ?u"
    using a assms(5) by (simp add: attached_def connected_def close_fd_def)
  have pre: "Close_Mutex \<notin> locked ?u" "\<not> voyeur_close_finalized ?u" "close_errs ?u = []" "soft_w (wsys ?u)"
    "0 + 20 \<le> takes (wsys ?u)" "written ?fd ?u = sent_bytes"
    using assms by (simp_all add: close_fd_def written_def)
  obtain v where v: "voyeur_close other ?u = Ok (close_result ?u other) v"
    "written ?fd v = sent_bytes @ enc_msg options (close_event ?u other (close_result ?u other))"
    by (rule close_attached [OF at pre(1,2) assms(8) pre(3-5), of options]) (use pre(6) in simp)
  have "close_event ?u other (close_result ?u other) = close_event s other (close_result ?u other)"
    by (simp add: close_event_def close_fd_def)
  with v have "\<exists>r u. voyeur_close other ?u = Ok r u \<and> written ?fd u = sent_bytes @ enc_msg options (close_event s other r)"
    by auto
  moreover have "closed ?t = closed s @ [(?fd, written ?fd s)]" by (simp add: written_def)
  moreover have "lib_sock (close_vars ?t) = ?fd" using a(2) by (simp add: close_fd_def)
  ultimately show ?thesis using run by auto
qed

theorem close_own_connection_witness:
  "\<exists>t. voyeur_close 5 (ex_proc\<lparr>close_vars := \<lparr>lib_initialized = True, lib_opts = 0, lib_sock = 5, lib_next = True\<rparr>,
        fdt := [5 \<mapsto> ex_desc []]\<rparr>) = Ok 0 t \<and> lib_sock (close_vars t) = 5"
proof -
  let ?s = "ex_proc\<lparr>close_vars := \<lparr>lib_initialized = True, lib_opts = 0, lib_sock = 5, lib_next = True\<rparr>,
        fdt := [5 \<mapsto> ex_desc []]\<rparr>"
  have at: "attached (close_vars ?s) (sint (5 :: cint)) ?s"
    by (simp add: attached_def connected_def ex_desc_def)
  let ?d = "\<lparr>fd_kind = Sock (Some ''/p''), sent = [], inp = [], peer_open = True\<rparr>"
  from close_own_connection [OF at, where d = ?d and peer = "''/p''" and sent_bytes = "[]" and other = 3]
  show ?thesis by auto
qed

end
