(* ===== verification/Exit_Interposer.thy ===== *)
theory Exit_Interposer
  imports Close_Interposer
begin

text \<open>
  \<open>src/voyeur-exit.c\<close>: the four interposed functions that end a process, and on Linux the exit handler
  for a return from \<open>main\<close>, which does not go through them. All report through \<open>write_exit_event\<close>, which acts
  once. A process that a signal ends, or that enters the kernel by a system call of its own, is not
  reported: no code of the library runs then.
\<close>

section \<open>The code\<close>

definition report_exit :: "int \<Rightarrow> cint \<Rightarrow> (unit, 'z process_scheme) io" where
  "report_exit fd status =
     io_then (io_ignore (voyeur_write_msg_type fd VOYEUR_MSG_EVENT))
     (io_then (io_ignore (voyeur_write_event_type fd VOYEUR_EVENT_EXIT))
     (io_then (io_ignore (voyeur_write_int fd status))
     (io_then (io_bind (io_get self_pid) (\<lambda>pid. io_ignore (voyeur_write_pid fd pid)))
     (io_then (io_bind (io_get parent_pid) (\<lambda>ppid. io_ignore (voyeur_write_pid fd ppid)))
     (io_ignore (voyeur_write_msg_type fd VOYEUR_MSG_DONE))))))"

definition write_exit_event :: "cint \<Rightarrow> (unit, 'z process_scheme) io" where
  "write_exit_event status =
     io_bind (io_get did_exit_already) (\<lambda>already.
     io_when (\<not> already)
       (io_then (io_modify (\<lambda>s. s\<lparr>did_exit_already := True\<rparr>))
       (io_bind (sys_getenv ''LIBVOYEUR_SOCKET'') (\<lambda>sockpath.
        io_bind (voyeur_create_client_socket sockpath) (\<lambda>fd.
        io_when (0 \<le> fd) (io_then (report_exit fd status) (voyeur_close_socket fd)))))))"

text \<open>The same with the function that ends the connection as a parameter.\<close>

definition write_exit_through :: "(int \<Rightarrow> (unit, 'z process_scheme) io) \<Rightarrow> cint \<Rightarrow> (unit, 'z process_scheme) io" where
  "write_exit_through cl status =
     io_bind (io_get did_exit_already) (\<lambda>already.
     io_when (\<not> already)
       (io_then (io_modify (\<lambda>s. s\<lparr>did_exit_already := True\<rparr>))
       (io_bind (sys_getenv ''LIBVOYEUR_SOCKET'') (\<lambda>sockpath.
        io_bind (voyeur_create_client_socket sockpath) (\<lambda>fd.
        io_when (0 \<le> fd) (io_then (report_exit fd status) (cl fd)))))))"

lemma write_exit_event_through: "write_exit_event status = write_exit_through voyeur_close_socket status"
  unfolding write_exit_event_def write_exit_through_def ..

definition voyeur_exit_handler :: "cint \<Rightarrow> (unit, 'z process_scheme) io" where
  "voyeur_exit_handler status = write_exit_event status"

text \<open>The constructor registers the handler with \<open>on_exit\<close>, on Linux only.\<close>

definition voyeur_init_exit_handler :: "(unit, 'z process_scheme) io" where
  "voyeur_init_exit_handler =
     io_bind (io_get build_os) (\<lambda>plat.
     io_when (plat = Linux) (io_modify (\<lambda>s. s\<lparr>exit_handlers := ''voyeur_exit_handler'' # exit_handlers s\<rparr>)))"

text \<open>The C library's \<open>exit\<close>, which a return from \<open>main\<close> ends in too, runs the handlers.\<close>

definition libc_exit :: "cint \<Rightarrow> ('a, 'z process_scheme) io" where
  "libc_exit status =
     io_bind (io_get exit_handlers) (\<lambda>hs.
     io_then (io_each (\<lambda>h. io_when (h = ''voyeur_exit_handler'') (voyeur_exit_handler status)) hs)
     (real_exit ''exit'' status))"

definition voyeur_exit :: "cint \<Rightarrow> ('a, 'z process_scheme) io" where
  "voyeur_exit status = io_then (write_exit_event status) (VOYEUR_CALL_NEXT True (libc_exit status))"

definition voyeur__exit :: "cint \<Rightarrow> ('a, 'z process_scheme) io" where
  "voyeur__exit status = io_then (write_exit_event status) (VOYEUR_CALL_NEXT True (real_exit ''_exit'' status))"

definition voyeur__Exit :: "cint \<Rightarrow> ('a, 'z process_scheme) io" where
  "voyeur__Exit status = io_then (write_exit_event status) (VOYEUR_CALL_NEXT True (real_exit ''_Exit'' status))"

definition voyeur_exit_group :: "cint \<Rightarrow> ('a, 'z process_scheme) io" where
  "voyeur_exit_group status =
     io_then (write_exit_event status) (VOYEUR_CALL_NEXT True (real_exit ''exit_group'' status))"

section \<open>The event is written once\<close>

lemma write_exit_again [simp]: "did_exit_already s \<Longrightarrow> write_exit_event status s = Ok () s"
  by (simp add: write_exit_event_def)

text \<open>What the observer gets from a process that ends: one event and the end of the stream.\<close>

definition exit_message :: "'z process_scheme \<Rightarrow> cint \<Rightarrow> byte list" where
  "exit_message s status = enc_msg 0 (Exit_Event status (self_pid s) (parent_pid s)) @ enc_done"

lemma length_exit_message [simp]: "length (exit_message s status) = 24"
  by (simp add: exit_message_def enc_msg_def)

lemma emits_exit: "emits s (report_exit fd status) fd (exit_message s status) 0"
proof -
  have pid: "emits s (io_bind (io_get self_pid) (\<lambda>pid. io_ignore (voyeur_write_pid fd pid))) fd (obj32 (self_pid s)) 0"
    by (rule emits_get) (rule emits_pid, simp add: same_proc_def)
  have ppid: "emits s (io_bind (io_get parent_pid) (\<lambda>pid. io_ignore (voyeur_write_pid fd pid))) fd (obj32 (parent_pid s)) 0"
    by (rule emits_get) (rule emits_pid, simp add: same_proc_def)
  have "emits s (report_exit fd status) fd
      (obj32 (msg_type_val VOYEUR_MSG_EVENT) @ obj32 (event_type_val VOYEUR_EVENT_EXIT)
        @ obj32 status @ obj32 (self_pid s) @ obj32 (parent_pid s) @ obj32 (msg_type_val VOYEUR_MSG_DONE))
      (0 + (0 + (0 + (0 + (0 + 0)))))"
    unfolding report_exit_def by (intro emits_then emits_msg_type emits_event_type emits_int pid ppid)
  then show ?thesis by (simp add: exit_message_def enc_msg_def enc_done_def)
qed

text \<open>Everything up to the end of the connection.\<close>

lemma write_exit_until_close:
  assumes "\<not> did_exit_already s" and "reachable_observer fd s" and "soft_w (wsys s)" and "n + 24 \<le> takes (wsys s)"
  obtains t where "\<And>cl. write_exit_through cl status s = cl fd t" "did_exit_already t"
    "written fd t = exit_message s status" "connected fd t" "passed t = passed s" "exit_handlers t = exit_handlers s"
    "closed t = closed s" "close_errs t = close_errs s" "soft_w (wsys t)" "n \<le> takes (wsys t)" "same_proc s t"
    "locked t = locked s" "close_vars t = close_vars s" "voyeur_close_finalized t = voyeur_close_finalized s"
    "\<forall>g. g \<noteq> fd \<longrightarrow> fdt t g = fdt s g"
proof -
  let ?s0 = "s\<lparr>did_exit_already := True\<rparr>"
  from assms(2) obtain fds p where h: "0 \<le> fd" "new_socks ?s0 = fd # fds" "True \<in> set (take 20 (conn_sys ?s0))"
    "getenv (environ s) ''LIBVOYEUR_SOCKET'' = Some p" unfolding reachable_observer_def by auto
  obtain s1 where s1: "voyeur_create_client_socket (Some p) ?s0 = Ok fd s1" "connect_effect fd ?s0 s1"
    "connected fd s1" "written fd s1 = []"
    using client_socket_connects [OF h(2,1,3)] by blast
  have b: "wsys s1 = wsys s" "close_errs s1 = close_errs s" "closed s1 = closed s" "passed s1 = passed s" "same_proc s s1"
    "did_exit_already s1" "exit_handlers s1 = exit_handlers s" "locked s1 = locked s" "close_vars s1 = close_vars s"
    "voyeur_close_finalized s1 = voyeur_close_finalized s" "\<forall>g. g \<noteq> fd \<longrightarrow> fdt s1 g = fdt s g"
    using s1(2) by (auto simp: connect_effect_def same_proc_def)
  let ?bs = "exit_message s status"
  obtain w where w: "report_exit fd status s1 = Ok () (put_bytes fd ?bs (s1\<lparr>wsys := w, live := live s1 + 0\<rparr>))"
    "soft_w w" "n \<le> takes w"
    by (rule emitsE [OF emits_exit [of s fd status], of s1 n]) (use assms(3,4) b s1(3) in simp_all)
  let ?s2 = "put_bytes fd ?bs (s1\<lparr>wsys := w\<rparr>)"
  have run: "write_exit_through cl status s = cl fd ?s2" for cl
    using assms(1) h(1,4) s1(1) w(1) by (simp add: write_exit_through_def sys_getenv_def)
  have "written fd ?s2 = ?bs" using written_put_bytes [of fd "s1\<lparr>wsys := w\<rparr>" ?bs] s1(3,4) by simp
  moreover have "connected fd ?s2" using s1(3) by (auto simp: connected_def put_bytes_def)
  ultimately show ?thesis
    by (intro that [OF run]) (use b w(2,3) in \<open>simp_all add: put_bytes_def same_proc_def\<close>)
qed

lemma write_exit_event_run:
  assumes "\<not> did_exit_already s" and "reachable_observer fd s" and "soft_w (wsys s)" and "24 \<le> takes (wsys s)"
    and "close_errs s = []"
  obtains t where "write_exit_event status s = Ok () t" "did_exit_already t"
    "closed t = closed s @ [(fd, exit_message s status)]" "passed t = passed s" "fdt t fd = None"
    "exit_handlers t = exit_handlers s"
proof -
  obtain t where t: "\<And>cl. write_exit_through cl status s = cl fd t" "did_exit_already t"
    "written fd t = exit_message s status" "passed t = passed s" "exit_handlers t = exit_handlers s"
    "closed t = closed s" "close_errs t = close_errs s"
    by (rule write_exit_until_close [OF assms(1-3), of 0 status]) (use assms(4) in simp_all)
  have run: "write_exit_event status s = Ok () (close_fd fd t)"
    using t(1,7) assms(5) by (simp add: write_exit_event_through)
  show ?thesis by (rule that [OF run]) (use t in \<open>simp_all add: close_fd_def\<close>)
qed

lemma handlers_again: "did_exit_already s \<Longrightarrow>
  io_each (\<lambda>h. io_when (h = ''voyeur_exit_handler'') (voyeur_exit_handler status)) hs s = Ok () s"
proof (induction hs)
  case (Cons h hs)
  then show ?case by (cases "h = ''voyeur_exit_handler''") (simp_all add: voyeur_exit_handler_def)
qed simp

lemma libc_exit_again:
  "did_exit_already s \<Longrightarrow> libc_exit status s = Exited (s\<lparr>passed := passed s @ [Next_Exit ''exit'' status]\<rparr>)"
  by (simp add: libc_exit_def handlers_again real_exit_def)

text \<open>How the process ends: the observer's connection, and the call that ends it.\<close>

definition exit_outcome :: "int \<Rightarrow> 'z process_scheme \<Rightarrow> string \<Rightarrow> cint \<Rightarrow> (unit, 'z process_scheme) res \<Rightarrow> bool" where
  "exit_outcome fd s name status r \<longleftrightarrow>
     (\<exists>t. r = Exited t \<and> closed t = closed s @ [(fd, exit_message s status)] \<and> fdt t fd = None
        \<and> passed t = passed s @ [Next_Exit name status])"

text \<open>
  C19: a process that ends by one of the four interposed functions, or on Linux by a return from \<open>main\<close>,
  sends the observer exactly one exit event, with the status, the process's identifier and its parent's,
  followed by the end of the stream, and the call is then passed on: for \<open>exit\<close>, although the exit handler
  runs as well, for \<open>_exit\<close>, \<open>_Exit\<close> and \<open>exit_group\<close>, and, by the handler alone, for the return from \<open>main\<close>.
  Nothing is said of a process that ends in another way, by a signal for instance.
\<close>

theorem exit_reported_once:
  assumes "\<not> did_exit_already s" and "reachable_observer fd s" and "soft_w (wsys s)" and "24 \<le> takes (wsys s)"
    and "close_errs s = []"
  shows "exit_outcome fd s ''exit'' status (voyeur_exit status s)
    \<and> exit_outcome fd s ''_exit'' status (voyeur__exit status s)
    \<and> exit_outcome fd s ''_Exit'' status (voyeur__Exit status s)
    \<and> exit_outcome fd s ''exit_group'' status (voyeur_exit_group status s)
    \<and> (build_os s = Linux \<longrightarrow>
        exit_outcome fd s ''exit'' status (io_then voyeur_init_exit_handler (libc_exit status) s))"
proof -
  obtain t where t: "write_exit_event status s = Ok () t" "did_exit_already t"
    "closed t = closed s @ [(fd, exit_message s status)]" "passed t = passed s" "fdt t fd = None"
    "exit_handlers t = exit_handlers s"
    by (rule write_exit_event_run [OF assms])
  let ?h = "s\<lparr>exit_handlers := ''voyeur_exit_handler'' # exit_handlers s\<rparr>"
  have pre: "\<not> did_exit_already ?h" "reachable_observer fd ?h" "soft_w (wsys ?h)" "24 \<le> takes (wsys ?h)" "close_errs ?h = []"
    using assms by (simp_all add: reachable_observer_def)
  obtain u where u: "write_exit_event status ?h = Ok () u" "did_exit_already u"
    "closed u = closed s @ [(fd, exit_message s status)]" "passed u = passed s" "fdt u fd = None"
    by (rule write_exit_event_run [OF pre, of status]) (simp add: exit_message_def)
  have "exit_outcome fd s ''exit'' status (io_then voyeur_init_exit_handler (libc_exit status) s)" if "build_os s = Linux"
    using that u by (simp add: voyeur_init_exit_handler_def libc_exit_def voyeur_exit_handler_def io_then_assoc
        handlers_again [OF u(2), unfolded voyeur_exit_handler_def] real_exit_def exit_outcome_def)
  then show ?thesis
    using t by (simp add: voyeur_exit_def voyeur__exit_def voyeur__Exit_def voyeur_exit_group_def real_exit_def
        libc_exit_again exit_outcome_def)
qed

theorem exit_reported_once_witness:
  "exit_outcome 5 ex_proc ''exit'' 3 (voyeur_exit 3 ex_proc)
   \<and> exit_outcome 5 ex_proc ''exit'' 3 (io_then voyeur_init_exit_handler (libc_exit 3) ex_proc)"
proof -
  have "\<not> did_exit_already ex_proc" by (simp add: ex_proc_def)
  from exit_reported_once [OF this ex_proc_reachable, of 3] show ?thesis by simp
qed

text \<open>Whatever the kernel answers, reporting comes to an end or waits for the observer.\<close>

lemma write_exit_event_returns:
  assumes "did_exit_already s \<or> getenv (environ s) ''LIBVOYEUR_SOCKET'' \<noteq> None"
  shows "write_exit_event status s = Blocked
    \<or> (\<exists>t. write_exit_event status s = Ok () t \<and> did_exit_already t \<and> passed t = passed s)"
proof (cases "did_exit_already s")
  case False
  with assms obtain p where p: "getenv (environ s) ''LIBVOYEUR_SOCKET'' = Some p" by blast
  let ?s0 = "s\<lparr>did_exit_already := True\<rparr>"
  obtain fd s1 where s1: "voyeur_create_client_socket (Some p) ?s0 = Ok fd s1" "connect_effect fd ?s0 s1"
    using client_socket_effect [of p ?s0] by blast
  have f1: "did_exit_already s1" "passed s1 = passed s" using s1(2) by (auto simp: connect_effect_def)
  let ?rep = "io_when (0 \<le> fd) (io_then (report_exit fd status) (voyeur_close_socket fd))"
  have eq: "write_exit_event status s = ?rep s1"
    using False p s1(1) by (simp add: write_exit_event_def sys_getenv_def)
  have "quiet (report_frame fd) (report_exit fd status)"
    unfolding report_exit_def by (intro quiet_reports)
  then show ?thesis
  proof (cases rule: quietE [of _ _ s1])
    case 1
    then show ?thesis using f1 by (cases "0 \<le> fd") (simp_all add: eq io_then_def)
  next
    case (2 v u)
    have f2: "did_exit_already u" "passed u = passed s" using 2(2) f1 by (auto simp: report_frame_def)
    obtain es cl f where "voyeur_close_socket fd u = Ok () (u\<lparr>close_errs := es, closed := cl, fdt := f\<rparr>)"
      using close_socket_effect [of fd u] by blast
    then show ?thesis using 2(1) f1 f2 by (cases "0 \<le> fd") (simp_all add: eq)
  qed
qed simp

text \<open>
  Reporting never keeps a process from ending: whatever the kernel answers to the library's calls,
  the interposed \<open>exit\<close> passes the caller's status on, unless the observer keeps a write waiting.
\<close>

lemma exit_transparent:
  assumes "did_exit_already s \<or> getenv (environ s) ''LIBVOYEUR_SOCKET'' \<noteq> None"
  shows "case voyeur_exit status s :: (unit, 'z process_scheme) res of
      Exited t \<Rightarrow> passed t = passed s @ [Next_Exit ''exit'' status]
    | Blocked \<Rightarrow> True
    | _ \<Rightarrow> False"
  using write_exit_event_returns [OF assms, of status]
  by (auto simp: voyeur_exit_def libc_exit_again io_then_def)

lemma exit_transparent_example:
  "case voyeur_exit 3 (ex_proc\<lparr>new_socks := [], wsys := [WrErr EPIPE]\<rparr>) :: (unit, process) res of
      Exited t \<Rightarrow> passed t = [Next_Exit ''exit'' 3]
    | Blocked \<Rightarrow> True
    | _ \<Rightarrow> False"
  using exit_transparent [where s = "ex_proc\<lparr>new_socks := [], wsys := [WrErr EPIPE]\<rparr>" and status = 3]
  by (simp split: res.splits)

end
