(* ===== verification/Exec_Interposer.thy ===== *)
theory Exec_Interposer
  imports Exit_Interposer
begin

unbundle bit_operations_syntax

text \<open>
  \<open>src/voyeur-exec.c\<close>: the interposed ways to run a program. Each reports the call, if the options and
  the target's permissions ask for it, and passes it on with an environment that carries the
  instrumentation into the new program.
\<close>

section \<open>The event\<close>

text \<open>
  An array of strings: the elements are counted in an \<open>int\<close>, then written. A null pointer is
  dereferenced.
\<close>

definition write_string_array :: "int \<Rightarrow> string list option \<Rightarrow> (unit, 'z process_scheme) io" where
  "write_string_array fd arr = (case arr of
       None \<Rightarrow> io_fault
     | Some xs \<Rightarrow>
        if 2 ^ 31 \<le> length xs then io_fault
        else io_then (io_ignore (voyeur_write_int fd (word_of_nat (length xs))))
               (io_each (\<lambda>x. io_ignore (voyeur_write_string fd (Some x) 0)) xs))"

definition report_exec :: "int \<Rightarrow> u8 \<Rightarrow> string option \<Rightarrow> string list option \<Rightarrow> string list option
    \<Rightarrow> pid_t \<Rightarrow> pid_t \<Rightarrow> (unit, 'z process_scheme) io" where
  "report_exec fd options path argv envp pid ppid =
     io_then (io_ignore (voyeur_write_msg_type fd VOYEUR_MSG_EVENT))
     (io_then (io_ignore (voyeur_write_event_type fd VOYEUR_EVENT_EXEC))
     (io_then (io_ignore (voyeur_write_string fd path 0))
     (io_then (write_string_array fd argv)
     (io_then (io_when (has_flag options OBSERVE_EXEC_ENV) (write_string_array fd envp))
     (io_then (io_when (has_flag options OBSERVE_EXEC_PATH)
        (io_bind (sys_getenv ''PATH'') (\<lambda>p. io_ignore (voyeur_write_string fd p 0))))
     (io_then (io_when (has_flag options OBSERVE_EXEC_CWD)
        (io_bind sys_getcwd (\<lambda>cwd. io_ignore (voyeur_write_string fd cwd 0))))
     (io_then (io_ignore (voyeur_write_pid fd pid))
     (io_ignore (voyeur_write_pid fd ppid)))))))))"

definition write_exec_event :: "int \<Rightarrow> u8 \<Rightarrow> string option \<Rightarrow> string list option \<Rightarrow> string list option
    \<Rightarrow> pid_t \<Rightarrow> pid_t \<Rightarrow> (unit, 'z process_scheme) io" where
  "write_exec_event fd options path argv envp pid ppid =
     (if has_flag options OBSERVE_EXEC_SILENT then io_ret ()
      else io_bind (if has_flag options OBSERVE_EXEC_NOACCESS then io_ret True else sys_access path) (\<lambda>ok.
        if ok then report_exec fd options path argv envp pid ppid else io_ret ()))"

section \<open>The exec functions\<close>

text \<open>
  The lines that \<open>execve\<close>, \<open>execlp\<close>, \<open>execvp\<close> and \<open>execvpe\<close> share, up to the function the call is
  passed on to. The blocks of the environment are never freed.
\<close>

definition exec_through :: "(string option \<Rightarrow> string list option \<Rightarrow> string list \<Rightarrow> next_call)
    \<Rightarrow> string option \<Rightarrow> string list option \<Rightarrow> string list option \<Rightarrow> (cint, 'z process_scheme) io" where
  "exec_through real path argv envp =
     io_bind (sys_getenv ''LIBVOYEUR_LIBS'') (\<lambda>libs.
     io_bind (sys_getenv ''LIBVOYEUR_OPTS'') (\<lambda>os.
     let options = voyeur_decode_options os (unat (event_type_val VOYEUR_EVENT_EXEC)) in
     io_bind (sys_getenv ''LIBVOYEUR_SOCKET'') (\<lambda>sockpath.
     io_bind (voyeur_create_client_socket sockpath) (\<lambda>fd.
     io_then (io_when (0 \<le> fd)
       (io_then (io_bind (io_get self_pid) (\<lambda>pid. io_bind (io_get parent_pid) (\<lambda>ppid.
           write_exec_event fd options path argv envp pid ppid)))
       (io_then (io_ignore (voyeur_write_msg_type fd VOYEUR_MSG_DONE))
       (voyeur_close_socket fd))))
     (io_bind (case envp of None \<Rightarrow> io_fault | Some es \<Rightarrow> voyeur_augment_environment es libs os sockpath) (\<lambda>es.
     VOYEUR_CALL_NEXT True (real_exec (real path argv es))))))))"

definition voyeur_execve :: "string option \<Rightarrow> string list option \<Rightarrow> string list option \<Rightarrow> (cint, 'z process_scheme) io" where
  "voyeur_execve path argv envp = exec_through Next_Execve path argv envp"

definition voyeur_execvpe :: "string option \<Rightarrow> string list option \<Rightarrow> string list option \<Rightarrow> (cint, 'z process_scheme) io" where
  "voyeur_execvpe path argv envp = exec_through Next_Execvpe path argv envp"

definition voyeur_execvp :: "string option \<Rightarrow> string list option \<Rightarrow> (cint, 'z process_scheme) io" where
  "voyeur_execvp path argv = io_bind (io_get environ) (\<lambda>envp. exec_through Next_Execvpe path argv (Some envp))"

definition voyeur_execv :: "string option \<Rightarrow> string list option \<Rightarrow> (cint, 'z process_scheme) io" where
  "voyeur_execv path argv = io_bind (io_get environ) (\<lambda>envp. voyeur_execve path argv (Some envp))"

subsection \<open>Variable arguments\<close>

text \<open>
  The arguments that follow \<open>start\<close> in a call, as the caller passed them. \<open>va_arg\<close> past the last one
  gives a value that no program can use: it is \<open>None\<close>, and only using it is an error of the model.
\<close>

datatype va_slot = Va_Str string | Va_Null | Va_Env "string list option"

text \<open>The strings up to the first null, and what follows; reading on past the last argument is undefined.\<close>

fun va_strings :: "va_slot list \<Rightarrow> (string list \<times> va_slot list) option" where
  "va_strings (Va_Str x # vs) = map_option (\<lambda>(xs, rest). (x # xs, rest)) (va_strings vs)"
| "va_strings (Va_Null # vs) = Some ([], vs)"
| "va_strings (Va_Env e # vs) = None"
| "va_strings [] = None"

text \<open>
  The macro uses \<open>start\<close>, the caller's \<open>argv[0]\<close>, to find the arguments after it, and puts the path at
  the beginning of the new array. A null path ends the array at once.
\<close>

definition VARARGS_TO_ARGV :: "string option \<Rightarrow> string option \<Rightarrow> va_slot list \<Rightarrow> (string list \<times> va_slot option, 'z process_scheme) io" where
  "VARARGS_TO_ARGV start path args = (case va_strings args of
       None \<Rightarrow> io_fault
     | Some (xs, rest) \<Rightarrow>
         io_bind (sys_malloc (8 * (length xs + 2))) (\<lambda>ok.
         if \<not> ok then io_fault
         else io_ret (case path of None \<Rightarrow> [] | Some p \<Rightarrow> p # xs,
                      case rest of [] \<Rightarrow> None | v # vs \<Rightarrow> Some v)))"

definition voyeur_execl :: "string option \<Rightarrow> string option \<Rightarrow> va_slot list \<Rightarrow> (cint, 'z process_scheme) io" where
  "voyeur_execl path start args =
     io_bind (VARARGS_TO_ARGV start path args) (\<lambda>(argv, dummy_envp).
     io_bind (io_get environ) (\<lambda>envp. voyeur_execve path (Some argv) (Some envp)))"

definition voyeur_execle :: "string option \<Rightarrow> string option \<Rightarrow> va_slot list \<Rightarrow> (cint, 'z process_scheme) io" where
  "voyeur_execle path start args =
     io_bind (VARARGS_TO_ARGV start path args) (\<lambda>(argv, envp).
     case envp of
       Some (Va_Env e) \<Rightarrow> voyeur_execve path (Some argv) e
     | _ \<Rightarrow> io_fault)"

definition voyeur_execlp :: "string option \<Rightarrow> string option \<Rightarrow> va_slot list \<Rightarrow> (cint, 'z process_scheme) io" where
  "voyeur_execlp path start args =
     io_bind (VARARGS_TO_ARGV start path args) (\<lambda>(argv, dummy_envp).
     io_bind (io_get environ) (\<lambda>envp. exec_through Next_Execvpe path (Some argv) (Some envp)))"

text \<open>\<open>vfork\<close> becomes \<open>fork\<close>, so that the child has a copy of the libraries' variables.\<close>

definition real_fork :: "(cint, 'z process_scheme) io" where
  "real_fork s = (case child_pids s of [] \<Rightarrow> Ok (-1) s | p # ps \<Rightarrow> Ok p (s\<lparr>child_pids := ps\<rparr>))"

definition voyeur_vfork :: "(cint, 'z process_scheme) io" where
  "voyeur_vfork = real_fork"

section \<open>\<open>posix_spawn\<close>\<close>

text \<open>The strings are stored before the block that \<open>open\<close> and \<open>close\<close> have too.\<close>

definition voyeur_init_posix_spawn :: "(unit, 'z process_scheme) io" where
  "voyeur_init_posix_spawn =
     io_bind (io_get spawn_vars) (\<lambda>v.
     io_when (\<not> lib_initialized v)
       (io_then (io_bind (sys_getenv ''LIBVOYEUR_LIBS'') (\<lambda>x. io_modify (\<lambda>s. s\<lparr>voyeur_posix_spawn_libs := x\<rparr>)))
       (io_then (io_bind (sys_getenv ''LIBVOYEUR_OPTS'') (\<lambda>x. io_modify (\<lambda>s. s\<lparr>voyeur_posix_spawn_opts := x\<rparr>)))
       (io_then (io_bind (sys_getenv ''LIBVOYEUR_SOCKET'') (\<lambda>x. io_modify (\<lambda>s. s\<lparr>voyeur_posix_spawn_sockpath := x\<rparr>)))
       (lazy_init spawn_vars spawn_vars_update VOYEUR_EVENT_EXEC)))))"

definition voyeur_cleanup_posix_spawn :: "(unit, 'z process_scheme) io" where
  "voyeur_cleanup_posix_spawn =
     io_then (pthread_mutex_lock Spawn_Mutex)
     (io_then (finish_stream spawn_vars spawn_vars_update)
     (pthread_mutex_unlock Spawn_Mutex))"

text \<open>
  \<open>posix_spawn\<close> and \<open>posix_spawnp\<close> differ in the function they pass the call on to. The file actions and
  attributes are passed on untouched. The result is the return code and, if the caller gave a pointer,
  the identifier that is stored there.
\<close>

definition spawn_through :: "(string option \<Rightarrow> string list option \<Rightarrow> string list \<Rightarrow> next_call)
    \<Rightarrow> bool \<Rightarrow> string option \<Rightarrow> string list option \<Rightarrow> string list option
    \<Rightarrow> (cint \<times> pid_t option, 'z process_scheme) io" where
  "spawn_through real pid_ptr path argv envp =
     io_then (pthread_mutex_lock Spawn_Mutex)
     (io_then voyeur_init_posix_spawn
     (io_bind (io_get voyeur_posix_spawn_libs) (\<lambda>libs.
     io_bind (io_get voyeur_posix_spawn_opts) (\<lambda>os.
     io_bind (io_get voyeur_posix_spawn_sockpath) (\<lambda>sockpath.
     io_bind (case envp of None \<Rightarrow> io_fault | Some es \<Rightarrow> voyeur_augment_environment es libs os sockpath) (\<lambda>es.
     io_bind (io_get spawn_vars) (\<lambda>v.
     io_bind (VOYEUR_CALL_NEXT (lib_next v) (real_spawn (real path argv es))) (\<lambda>(retval, child_pid).
     io_then (io_when (0 \<le> lib_sock v)
       (io_bind (io_get self_pid) (\<lambda>pid.
        write_exec_event (lib_sock v) (lib_opts v) path argv envp child_pid pid)))
     (io_then (pthread_mutex_unlock Spawn_Mutex)
     (io_then sys_free
     (io_then sys_free
     (io_ret (retval, if pid_ptr then Some child_pid else None)))))))))))))"

definition voyeur_posix_spawn :: "bool \<Rightarrow> string option \<Rightarrow> string list option \<Rightarrow> string list option
    \<Rightarrow> (cint \<times> pid_t option, 'z process_scheme) io" where
  "voyeur_posix_spawn = spawn_through Next_Spawn"

definition voyeur_posix_spawnp :: "bool \<Rightarrow> string option \<Rightarrow> string list option \<Rightarrow> string list option
    \<Rightarrow> (cint \<times> pid_t option, 'z process_scheme) io" where
  "voyeur_posix_spawnp = spawn_through Next_Spawnp"

section \<open>What is reported\<close>

definition exec_event :: "'z process_scheme \<Rightarrow> string option \<Rightarrow> string list \<Rightarrow> string list \<Rightarrow> pid_t \<Rightarrow> pid_t \<Rightarrow> event" where
  "exec_event s path argv envp pid ppid =
     Exec_Event (ptr_str path) argv envp (getenv (environ s) ''PATH'') (cur_dir s) pid ppid"

text \<open>Silent instrumentation reports nothing; otherwise the file must be executable, unless the options say not to ask.\<close>

definition exec_reported :: "'z process_scheme \<Rightarrow> u8 \<Rightarrow> string option \<Rightarrow> bool" where
  "exec_reported s options path \<longleftrightarrow> \<not> has_flag options OBSERVE_EXEC_SILENT
     \<and> (has_flag options OBSERVE_EXEC_NOACCESS \<or> (\<exists>p. path = Some p \<and> executable s p))"

definition exec_report :: "'z process_scheme \<Rightarrow> u8 \<Rightarrow> string option \<Rightarrow> string list \<Rightarrow> string list \<Rightarrow> pid_t \<Rightarrow> pid_t \<Rightarrow> byte list" where
  "exec_report s options path argv envp pid ppid =
     (if exec_reported s options path then enc_msg options (exec_event s path argv envp pid ppid) else [])"

text \<open>The working directory's buffer is not freed.\<close>

definition exec_leak :: "'z process_scheme \<Rightarrow> u8 \<Rightarrow> string option \<Rightarrow> nat" where
  "exec_leak s options path =
     (if exec_reported s options path \<and> has_flag options OBSERVE_EXEC_CWD \<and> cur_dir s \<noteq> None then 1 else 0)"

lemma emits_string_array:
  assumes "length xs < 2 ^ 31"
  shows "emits s (write_string_array fd (Some xs)) fd (enc_strs xs) 0"
proof -
  have each: "emits s (io_each (\<lambda>x. io_ignore (voyeur_write_string fd (Some x) 0)) xs) fd
      (concat (map (\<lambda>x. enc_str (Some x)) xs)) 0"
    by (rule emits_each) (rule emits_string)
  have "emits s (io_then (io_ignore (voyeur_write_int fd (word_of_nat (length xs))))
      (io_each (\<lambda>x. io_ignore (voyeur_write_string fd (Some x) 0)) xs)) fd (enc_strs xs) (0 + 0)"
    unfolding enc_strs_def by (intro emits_then emits_int each)
  with assms show ?thesis by (simp add: write_string_array_def)
qed

lemma emits_report_exec:
  assumes "length argv < 2 ^ 31" and "length envp < 2 ^ 31"
  shows "emits s (report_exec fd options path (Some argv) (Some envp) pid ppid) fd
    (enc_msg options (exec_event s path argv envp pid ppid))
    (if has_flag options OBSERVE_EXEC_CWD \<and> cur_dir s \<noteq> None then 1 else 0)"
proof -
  have env: "emits s (io_when (has_flag options OBSERVE_EXEC_ENV) (write_string_array fd (Some envp))) fd
      (if has_flag options OBSERVE_EXEC_ENV then enc_strs envp else []) (if has_flag options OBSERVE_EXEC_ENV then 0 else 0)"
    by (rule emits_when) (rule emits_string_array [OF assms(2)])
  have path: "emits s (io_when (has_flag options OBSERVE_EXEC_PATH)
        (io_bind (sys_getenv ''PATH'') (\<lambda>p. io_ignore (voyeur_write_string fd p 0)))) fd
      (if has_flag options OBSERVE_EXEC_PATH then enc_str (getenv (environ s) ''PATH'') else [])
      (if has_flag options OBSERVE_EXEC_PATH then 0 else 0)"
    unfolding sys_getenv_def
    by (rule emits_when, rule emits_get) (rule emits_string, simp add: same_proc_def)
  have cwd: "emits s (io_when (has_flag options OBSERVE_EXEC_CWD)
        (io_bind sys_getcwd (\<lambda>cwd. io_ignore (voyeur_write_string fd cwd 0)))) fd
      (if has_flag options OBSERVE_EXEC_CWD then enc_str (cur_dir s) else [])
      (if has_flag options OBSERVE_EXEC_CWD then (if cur_dir s = None then 0 else 1) + 0 else 0)"
    by (rule emits_when) (rule emits_getcwd, rule emits_string)
  have "emits s (report_exec fd options path (Some argv) (Some envp) pid ppid) fd
      (obj32 (msg_type_val VOYEUR_MSG_EVENT) @ obj32 (event_type_val VOYEUR_EVENT_EXEC) @ enc_str path @ enc_strs argv
        @ (if has_flag options OBSERVE_EXEC_ENV then enc_strs envp else [])
        @ (if has_flag options OBSERVE_EXEC_PATH then enc_str (getenv (environ s) ''PATH'') else [])
        @ (if has_flag options OBSERVE_EXEC_CWD then enc_str (cur_dir s) else []) @ obj32 pid @ obj32 ppid)
      (0 + (0 + (0 + (0 + ((if has_flag options OBSERVE_EXEC_ENV then 0 else 0)
        + ((if has_flag options OBSERVE_EXEC_PATH then 0 else 0)
        + ((if has_flag options OBSERVE_EXEC_CWD then (if cur_dir s = None then 0 else 1) + 0 else 0) + (0 + 0))))))))"
    unfolding report_exec_def
    by (intro emits_then emits_msg_type emits_event_type emits_string emits_pid
        emits_string_array [OF assms(1)] env path cwd)
  then show ?thesis
    by (cases "has_flag options OBSERVE_EXEC_CWD"; cases "cur_dir s") (simp_all add: enc_msg_def exec_event_def)
qed

lemma emits_write_exec_event:
  assumes "length argv < 2 ^ 31" and "length envp < 2 ^ 31"
  shows "emits s (write_exec_event fd options path (Some argv) (Some envp) pid ppid) fd
    (exec_report s options path argv envp pid ppid) (exec_leak s options path)"
proof -
  let ?bs = "exec_report s options path argv envp pid ppid"
  let ?k = "exec_leak s options path"
  have r: "emits s (report_exec fd options path (Some argv) (Some envp) pid ppid) fd ?bs ?k" if "exec_reported s options path"
    using emits_report_exec [OF assms, of s fd options path pid ppid] that by (simp add: exec_report_def exec_leak_def)
  have n: "emits s (io_ret ()) fd ?bs ?k" if "\<not> exec_reported s options path"
    using emits_ret that by (simp add: exec_report_def exec_leak_def)
  show ?thesis
  proof (cases "has_flag options OBSERVE_EXEC_SILENT")
    case True
    then show ?thesis using n by (simp add: write_exec_event_def exec_reported_def)
  next
    case False
    show ?thesis
    proof (cases "has_flag options OBSERVE_EXEC_NOACCESS")
      case True
      have "io_bind (io_ret True) f = f True" for f :: "bool \<Rightarrow> (unit, 'a process_scheme) io"
        by (rule ext) simp
      then show ?thesis using True False r by (simp add: write_exec_event_def exec_reported_def)
    next
      case not: False
      have "emits s (io_bind (sys_access path) (\<lambda>ok.
          if ok then report_exec fd options path (Some argv) (Some envp) pid ppid else io_ret ())) fd ?bs ?k"
        unfolding sys_access_def
      proof (rule emits_get)
        show "emits s (if case path of None \<Rightarrow> False | Some p \<Rightarrow> executable s p
            then report_exec fd options path (Some argv) (Some envp) pid ppid else io_ret ()) fd ?bs ?k"
          using False not r n by (cases path) (auto simp: exec_reported_def)
      qed (simp add: same_proc_def split: option.split)
      then show ?thesis using False not by (simp add: write_exec_event_def)
    qed
  qed
qed

section \<open>A call of an exec function\<close>

definition env_room :: "'z process_scheme \<Rightarrow> string list \<Rightarrow> bool" where
  "env_room s envp \<longleftrightarrow> 8192 \<le> mem_max s \<and> 8 * (length envp + 5) \<le> mem_max s"

lemma augment_ok:
  assumes "env_room s es"
  shows "voyeur_augment_environment es (Some l) (Some os) (Some sp) s
    = Ok (augmented_env (build_os s) es l os sp) (s\<lparr>live := live s + 2\<rparr>)"
  using assms by (simp add: voyeur_augment_environment_def env_room_def env_buf_size_def sys_malloc_def)

lemma augment_null:
  assumes "libs = None \<or> os = None \<or> sp = None"
  shows "voyeur_augment_environment es libs os sp s = Fault"
  using assms by (auto simp: voyeur_augment_environment_def split: option.split)

text \<open>The variables of the instrumentation, as a process finds them in its environment.\<close>

definition instrumented :: "'z process_scheme \<Rightarrow> string \<Rightarrow> string \<Rightarrow> string \<Rightarrow> bool" where
  "instrumented s libs os sp \<longleftrightarrow> getenv (environ s) ''LIBVOYEUR_LIBS'' = Some libs
     \<and> getenv (environ s) ''LIBVOYEUR_OPTS'' = Some os \<and> getenv (environ s) ''LIBVOYEUR_SOCKET'' = Some sp"

text \<open>
  The outcome of an exec call: what the observer got, the call that was passed on, with the
  environment that carries the instrumentation, and how it ended.
\<close>

definition exec_outcome :: "int \<Rightarrow> 'z process_scheme \<Rightarrow> byte list \<Rightarrow> next_call \<Rightarrow> (cint, 'z process_scheme) res \<Rightarrow> bool" where
  "exec_outcome fd s report c r \<longleftrightarrow>
     (\<exists>t. r = (if sint (hd (answers s)) < 0 then Ok (hd (answers s)) t else Exited t)
        \<and> closed t = closed s @ [(fd, report @ enc_done)] \<and> fdt t fd = None \<and> passed t = passed s @ [c])"

lemma exec_report_part:
  assumes "connected fd s" and "length argv < 2 ^ 31" and "length envp < 2 ^ 31" and "soft_w (wsys s)"
    and "length (exec_report s options path argv envp (self_pid s) (parent_pid s)) + 4 \<le> takes (wsys s)"
    and "close_errs s = []" and "written fd s = []"
  obtains t where "io_then (io_bind (io_get self_pid) (\<lambda>pid. io_bind (io_get parent_pid) (\<lambda>ppid.
          write_exec_event fd options path (Some argv) (Some envp) pid ppid)))
       (io_then (io_ignore (voyeur_write_msg_type fd VOYEUR_MSG_DONE)) (voyeur_close_socket fd)) s = Ok () t"
    "closed t = closed s @ [(fd, exec_report s options path argv envp (self_pid s) (parent_pid s) @ enc_done)]"
    "fdt t fd = None" "passed t = passed s" "answers t = answers s" "mem_max t = mem_max s" "build_os t = build_os s"
    "live t = live s + exec_leak s options path"
proof -
  let ?r = "exec_report s options path argv envp (self_pid s) (parent_pid s)"
  let ?k = "exec_leak s options path"
  have fin: "emits s (io_ignore (voyeur_write_msg_type fd VOYEUR_MSG_DONE)) fd enc_done 0"
    unfolding enc_done_def by (rule emits_msg_type)
  have "emits s (io_bind (io_get self_pid) (\<lambda>pid. io_bind (io_get parent_pid) (\<lambda>ppid.
      write_exec_event fd options path (Some argv) (Some envp) pid ppid))) fd ?r ?k"
    by (rule emits_get, rule emits_get, rule emits_write_exec_event [OF assms(2,3)]) (simp_all add: same_proc_def)
  note e = emits_then [OF this fin]
  obtain w where w: "io_then (io_bind (io_get self_pid) (\<lambda>pid. io_bind (io_get parent_pid) (\<lambda>ppid.
      write_exec_event fd options path (Some argv) (Some envp) pid ppid)))
      (io_ignore (voyeur_write_msg_type fd VOYEUR_MSG_DONE)) s
    = Ok () (put_bytes fd (?r @ enc_done) (s\<lparr>wsys := w, live := live s + (?k + 0)\<rparr>))"
    by (rule emitsE [OF e, of s 0]) (use assms(1,4,5) in simp_all)
  let ?s1 = "put_bytes fd (?r @ enc_done) (s\<lparr>wsys := w, live := live s + ?k\<rparr>)"
  have wr: "written fd ?s1 = ?r @ enc_done"
    using written_put_bytes [of fd "s\<lparr>wsys := w, live := live s + ?k\<rparr>" "?r @ enc_done"] assms(1,7) by simp
  have run: "io_then (io_bind (io_get self_pid) (\<lambda>pid. io_bind (io_get parent_pid) (\<lambda>ppid.
          write_exec_event fd options path (Some argv) (Some envp) pid ppid)))
       (io_then (io_ignore (voyeur_write_msg_type fd VOYEUR_MSG_DONE)) (voyeur_close_socket fd)) s
     = Ok () (close_fd fd ?s1)"
    using w assms(6) by (simp add: io_then_assoc [symmetric])
  show ?thesis
    by (rule that [OF run]) (use wr in \<open>simp_all add: close_fd_def put_bytes_def\<close>)
qed

lemma exec_through_run:
  assumes "reachable_observer fd s" and "instrumented s libs os sp"
    and "options = voyeur_decode_options (Some os) 0"
    and "length argv < 2 ^ 31" and "length envp < 2 ^ 31" and "soft_w (wsys s)"
    and "length (exec_report s options path argv envp (self_pid s) (parent_pid s)) + 4 \<le> takes (wsys s)"
    and "close_errs s = []" and "env_room s envp" and "answers s \<noteq> []"
  shows "exec_outcome fd s (exec_report s options path argv envp (self_pid s) (parent_pid s))
    (real path (Some argv) (augmented_env (build_os s) envp libs os sp))
    (exec_through real path (Some argv) (Some envp) s)"
proof -
  from assms(1) obtain fds where h: "0 \<le> fd" "new_socks s = fd # fds" "True \<in> set (take 20 (conn_sys s))"
    unfolding reachable_observer_def by auto
  obtain s1 where s1: "voyeur_create_client_socket (Some sp) s = Ok fd s1" "connect_effect fd s s1"
    "connected fd s1" "written fd s1 = []"
    using client_socket_connects [OF h(2,1,3)] by blast
  have b: "wsys s1 = wsys s" "close_errs s1 = []" "closed s1 = closed s" "passed s1 = passed s" "answers s1 = answers s"
    "mem_max s1 = mem_max s" "build_os s1 = build_os s" "environ s1 = environ s" "cur_dir s1 = cur_dir s"
    "self_pid s1 = self_pid s" "parent_pid s1 = parent_pid s" "executable s1 = executable s"
    using s1(2) assms(8) by (auto simp: connect_effect_def)
  have same: "exec_report s1 options path argv envp (self_pid s1) (parent_pid s1)
      = exec_report s options path argv envp (self_pid s) (parent_pid s)"
    using b by (auto simp: exec_report_def exec_reported_def exec_event_def)
  have pre: "soft_w (wsys s1)" "length (exec_report s1 options path argv envp (self_pid s1) (parent_pid s1)) + 4 \<le> takes (wsys s1)"
    using assms(6,7) b(1) same by simp_all
  obtain s2 where s2: "io_then (io_bind (io_get self_pid) (\<lambda>pid. io_bind (io_get parent_pid) (\<lambda>ppid.
          write_exec_event fd options path (Some argv) (Some envp) pid ppid)))
       (io_then (io_ignore (voyeur_write_msg_type fd VOYEUR_MSG_DONE)) (voyeur_close_socket fd)) s1 = Ok () s2"
    "closed s2 = closed s @ [(fd, exec_report s options path argv envp (self_pid s) (parent_pid s) @ enc_done)]"
    "fdt s2 fd = None" "passed s2 = passed s" "answers s2 = answers s" "mem_max s2 = mem_max s" "build_os s2 = build_os s"
    by (rule exec_report_part [OF s1(3) assms(4,5) pre b(2) s1(4)]) (use b same in simp)
  have "env_room s2 envp" using assms(9) s2(6) by (simp add: env_room_def)
  note aug = augment_ok [OF this, of libs os sp]
  let ?c = "real path (Some argv) (augmented_env (build_os s) envp libs os sp)"
  have "exec_through real path (Some argv) (Some envp) s = real_exec ?c (s2\<lparr>live := live s2 + 2\<rparr>)"
    using assms(2,3) h(1) s1(1) s2(1,7) aug
    by (simp add: exec_through_def instrumented_def sys_getenv_def)
  moreover obtain a as where "answers s = a # as" using assms(10) by (cases "answers s") auto
  ultimately show ?thesis using s2(2-5)
    by (simp add: exec_outcome_def real_exec_def real_call_def io_bind_def)
qed

text \<open>
  C11: an interposed exec call, if the observer can be reached: the observer gets the event exactly if
  the options are not silent and the file is executable or the options say not to ask, then the end of
  the stream; and the call is passed on with the caller's path and arguments and an environment that
  carries the instrumentation. A call that fails returns the real function's result.
\<close>

theorem exec_reports:
  assumes "reachable_observer fd s" and "instrumented s libs os sp"
    and "options = voyeur_decode_options (Some os) 0"
    and "length argv < 2 ^ 31" and "length envp < 2 ^ 31" and "soft_w (wsys s)"
    and "report = exec_report s options path argv envp (self_pid s) (parent_pid s)"
    and "length report + 4 \<le> takes (wsys s)"
    and "close_errs s = []" and "env_room s envp" and "answers s \<noteq> []"
    and "new_env = augmented_env (build_os s) envp libs os sp"
  shows "exec_outcome fd s report (Next_Execve path (Some argv) new_env) (voyeur_execve path (Some argv) (Some envp) s)
    \<and> exec_outcome fd s report (Next_Execvpe path (Some argv) new_env) (voyeur_execvpe path (Some argv) (Some envp) s)
    \<and> (envp = environ s \<longrightarrow>
         exec_outcome fd s report (Next_Execve path (Some argv) new_env) (voyeur_execv path (Some argv) s)
       \<and> exec_outcome fd s report (Next_Execvpe path (Some argv) new_env) (voyeur_execvp path (Some argv) s))"
proof -
  have "exec_outcome fd s report (real path (Some argv) new_env) (exec_through real path (Some argv) (Some envp) s)" for real
    unfolding assms(7,12)
    by (rule exec_through_run [OF assms(1-6) _ assms(9-11)]) (use assms(7,8) in simp)
  then show ?thesis
    by (auto simp: voyeur_execve_def voyeur_execvpe_def voyeur_execv_def voyeur_execvp_def)
qed

lemma ex_instrumented: "instrumented ex_proc ''/v.so'' ''@@A@'' ''/tmp/s''"
  by (simp add: instrumented_def)

lemma ex_exec_options [simp]: "voyeur_decode_options (Some ''@@A@'') 0 = 0"
  by code_simp

lemma ex_exec_report:
  "exec_report ex_proc 0 (Some ''/bin/x'') [''x''] ex_environ 7 1
     = enc_msg 0 (Exec_Event ''/bin/x'' [''x''] ex_environ (Some ''/bin'') (Some ''/r'') 7 1)"
  by (simp add: exec_report_def exec_reported_def exec_event_def has_flag_def ptr_str_def flag_defs)
    (simp add: ex_proc_def)

theorem exec_reports_witness:
  "exec_outcome 5 ex_proc (enc_msg 0 (Exec_Event ''/bin/x'' [''x''] ex_environ (Some ''/bin'') (Some ''/r'') 7 1))
     (Next_Execve (Some ''/bin/x'') (Some [''x'']) (augmented_env Linux ex_environ ''/v.so'' ''@@A@'' ''/tmp/s''))
     (voyeur_execv (Some ''/bin/x'') (Some [''x'']) ex_proc)"
proof -
  let ?r = "enc_msg 0 (Exec_Event ''/bin/x'' [''x''] ex_environ (Some ''/bin'') (Some ''/r'') 7 1)"
  have r: "?r = exec_report ex_proc 0 (Some ''/bin/x'') [''x''] ex_environ (self_pid ex_proc) (parent_pid ex_proc)"
    using ex_exec_report by simp
  have len: "length ?r + 4 \<le> takes (wsys ex_proc)"
    by (simp add: enc_msg_def enc_strs_def enc_str_def str_sent_eq has_flag_def)
  have room: "env_room ex_proc ex_environ" by (simp add: env_room_def ex_proc_def ex_environ_def)
  have n: "length ex_environ = 4" by (simp add: ex_environ_def)
  from exec_reports [OF ex_proc_reachable ex_instrumented _ _ _ _ r len _ room] n show ?thesis by simp
qed

text \<open>
  The instrumentation spreads: a program that an instrumented process runs with an environment that
  does not contradict the process's own finds the same libraries, options and observer in its
  environment, and its preload variable loads the libraries, so that its own children are instrumented
  in turn.
\<close>

lemma exec_child_instrumented:
  assumes "instrumented s libs os sp" and "length libs \<le> 2030" and "length os \<le> 2030" and "length sp \<le> 2030"
    and "getenv envp ''LIBVOYEUR_LIBS'' \<in> {None, Some libs}" and "getenv envp ''LIBVOYEUR_OPTS'' \<in> {None, Some os}"
    and "getenv envp ''LIBVOYEUR_SOCKET'' \<in> {None, Some sp}"
    and "length (filter (is_insert (INSERT_LIBS p)) envp) \<le> 1"
    and "environ child = augmented_env p envp libs os sp"
  shows "instrumented child libs os sp
    \<and> getenv (environ child) (insert_name p)
        = Some (take (2047 - length (INSERT_LIBS p)) (preload_value (getenv envp (insert_name p)) libs))"
proof -
  have names: "CHR ''='' \<notin> set ''LIBVOYEUR_LIBS''" "CHR ''='' \<notin> set ''LIBVOYEUR_OPTS''" "CHR ''='' \<notin> set ''LIBVOYEUR_SOCKET''"
    by simp_all
  have ne: "''LIBVOYEUR_LIBS'' \<noteq> insert_name p" "''LIBVOYEUR_OPTS'' \<noteq> insert_name p" "''LIBVOYEUR_SOCKET'' \<noteq> insert_name p"
    by (cases p; simp add: insert_name_def)+
  note get = getenv_augmented [OF _ assms(8), of _ libs os sp]
  have "instrumented child libs os sp"
    unfolding instrumented_def assms(9) get [OF names(1)] get [OF names(2)] get [OF names(3)]
    using ne assms(2-7) by (auto simp: abs_augment_def)
  moreover have "getenv (environ child) (insert_name p)
      = Some (take (2047 - length (INSERT_LIBS p)) (preload_value (getenv envp (insert_name p)) libs))"
    unfolding assms(9) get [OF insert_name_chars] by (simp add: abs_augment_def)
  ultimately show ?thesis by simp
qed

lemma exec_child_instrumented_example:
  "instrumented (ex_proc\<lparr>environ := augmented_env Linux [''HOME=/r'', ''LD_PRELOAD=/a.so''] ''/v.so'' ''@@A@'' ''/tmp/s''\<rparr>)
     ''/v.so'' ''@@A@'' ''/tmp/s''
   \<and> getenv (augmented_env Linux [''HOME=/r'', ''LD_PRELOAD=/a.so''] ''/v.so'' ''@@A@'' ''/tmp/s'') ''LD_PRELOAD''
     = Some ''/v.so:/a.so''"
proof -
  let ?e = "[''HOME=/r'', ''LD_PRELOAD=/a.so'']"
  have n: "getenv ?e ''LIBVOYEUR_LIBS'' = None" "getenv ?e ''LIBVOYEUR_OPTS'' = None" "getenv ?e ''LIBVOYEUR_SOCKET'' = None"
    "length (filter (is_insert (INSERT_LIBS Linux)) ?e) \<le> 1"
    by code_simp+
  have v: "take (2047 - length (INSERT_LIBS Linux)) (preload_value (getenv ?e (insert_name Linux)) ''/v.so'') = ''/v.so:/a.so''"
    by code_simp
  have name: "insert_name Linux = ''LD_PRELOAD''" by (simp add: insert_name_def)
  show ?thesis
    using exec_child_instrumented [OF ex_instrumented, where envp = ?e and p = Linux
        and child = "ex_proc\<lparr>environ := augmented_env Linux ?e ''/v.so'' ''@@A@'' ''/tmp/s''\<rparr>"] n v
    by (simp add: name)
qed

text \<open>
  C40: the functions with variable arguments run the array functions on an array that begins with the
  path: the caller's \<open>argv[0]\<close> is lost, whatever it was. \<open>execle\<close> finds its environment behind the
  final null. The array is never freed.
\<close>

theorem exec_varargs:
  assumes "va_strings args = Some (xs, rest)" and "8 * (length xs + 2) \<le> mem_max s"
  shows "voyeur_execl (Some p) start args s = voyeur_execv (Some p) (Some (p # xs)) (s\<lparr>live := live s + 1\<rparr>)
    \<and> voyeur_execlp (Some p) start args s = voyeur_execvp (Some p) (Some (p # xs)) (s\<lparr>live := live s + 1\<rparr>)
    \<and> voyeur_execle (Some p) start args s = (case rest of
        Va_Env e # _ \<Rightarrow> voyeur_execve (Some p) (Some (p # xs)) e (s\<lparr>live := live s + 1\<rparr>)
      | _ \<Rightarrow> Fault)"
proof -
  have "VARARGS_TO_ARGV start (Some p) args s
      = Ok (p # xs, case rest of [] \<Rightarrow> None | v # vs \<Rightarrow> Some v) (s\<lparr>live := live s + 1\<rparr>)"
    using assms by (simp add: VARARGS_TO_ARGV_def sys_malloc_def)
  then show ?thesis
    by (simp add: voyeur_execl_def voyeur_execlp_def voyeur_execle_def voyeur_execv_def voyeur_execvp_def
        split: list.split va_slot.split)
qed

theorem exec_varargs_witness:
  "voyeur_execl (Some ''/bin/sh'') (Some ''-sh'') [Va_Str ''-c'', Va_Str ''ls'', Va_Null] ex_proc
     = voyeur_execv (Some ''/bin/sh'') (Some [''/bin/sh'', ''-c'', ''ls'']) (ex_proc\<lparr>live := 1\<rparr>)"
proof -
  have v: "va_strings [Va_Str ''-c'', Va_Str ''ls'', Va_Null] = Some ([''-c'', ''ls''], [])" by simp
  have f: "mem_max ex_proc = 65536" "live ex_proc = 0" by (simp_all add: ex_proc_def)
  from exec_varargs [OF v, of ex_proc "''/bin/sh''" "Some ''-sh''"] f show ?thesis by simp
qed

section \<open>A process without the variables\<close>

lemma quiet_string_array: "length xs < 2 ^ 31 \<Longrightarrow> quiet (report_frame fd) (write_string_array fd (Some xs))"
  by (simp add: write_string_array_def quiet_reports)

lemma quiet_write_exec_event:
  assumes "length argv < 2 ^ 31" and "length envp < 2 ^ 31"
  shows "quiet (report_frame fd) (write_exec_event fd options path (Some argv) (Some envp) pid ppid)"
proof -
  have "quiet (report_frame fd) (report_exec fd options path (Some argv) (Some envp) pid ppid)"
    unfolding report_exec_def by (intro quiet_reports quiet_string_array assms)
  then show ?thesis
    unfolding write_exec_event_def by (auto intro!: quiet_reports)
qed

text \<open>
  C39: a process whose environment has lost one of the library's variables (one that called
  \<open>clearenv\<close>, say) cannot run programs any more: the interposed function dereferences a null pointer
  instead of passing the call on, whatever the kernel answers, unless the observer keeps it waiting.
\<close>

theorem exec_uninstrumented:
  assumes "getenv (environ s) ''LIBVOYEUR_LIBS'' = None \<or> getenv (environ s) ''LIBVOYEUR_OPTS'' = None
      \<or> getenv (environ s) ''LIBVOYEUR_SOCKET'' = None"
    and "length argv < 2 ^ 31" and "length envp < 2 ^ 31"
  shows "exec_through real path (Some argv) (Some envp) s \<in> {Fault, Blocked}"
proof (cases "getenv (environ s) ''LIBVOYEUR_SOCKET''")
  case None
  then show ?thesis
    by (simp add: exec_through_def sys_getenv_def voyeur_create_client_socket_def Let_def)
next
  case (Some p)
  let ?libs = "getenv (environ s) ''LIBVOYEUR_LIBS''"
  let ?os = "getenv (environ s) ''LIBVOYEUR_OPTS''"
  let ?options = "voyeur_decode_options ?os (unat (event_type_val VOYEUR_EVENT_EXEC))"
  have null: "?libs = None \<or> ?os = None \<or> (Some p :: string option) = None" using assms(1) Some by simp
  obtain fd s1 where s1: "voyeur_create_client_socket (Some p) s = Ok fd s1"
    using client_socket_effect by blast
  let ?rep = "io_bind (io_get self_pid) (\<lambda>pid. io_bind (io_get parent_pid) (\<lambda>ppid.
      write_exec_event fd ?options path (Some argv) (Some envp) pid ppid))"
  let ?fin = "io_then ?rep (io_ignore (voyeur_write_msg_type fd VOYEUR_MSG_DONE))"
  have eq: "exec_through real path (Some argv) (Some envp) s
     = io_then (io_when (0 \<le> fd) (io_then ?fin (voyeur_close_socket fd))) (io_bind io_fault
         (\<lambda>es. VOYEUR_CALL_NEXT True (real_exec (real path (Some argv) es)))) s1"
  proof -
    have "voyeur_augment_environment envp ?libs ?os (Some p) = (io_fault :: (string list, 'a process_scheme) io)"
      by (rule ext) (simp add: augment_null [OF null])
    then show ?thesis using s1 Some by (simp add: exec_through_def sys_getenv_def io_then_assoc Let_def)
  qed
  have "quiet (report_frame fd) ?fin"
    by (intro quiet_reports quiet_write_exec_event assms)
  then show ?thesis
  proof (cases rule: quietE [of _ ?fin s1])
    case 1
    then show ?thesis unfolding eq by (cases "0 \<le> fd") (simp_all add: io_then_def)
  next
    case (2 v u)
    obtain es cl f where "voyeur_close_socket fd u = Ok () (u\<lparr>close_errs := es, closed := cl, fdt := f\<rparr>)"
      using close_socket_effect [of fd u] by blast
    with 2 show ?thesis unfolding eq by (cases "0 \<le> fd") simp_all
  qed
qed

theorem exec_uninstrumented_witness:
  "exec_through Next_Execve (Some ''/bin/x'') (Some [''x'']) (Some [''A=b'']) (ex_proc\<lparr>environ := []\<rparr>) \<in> {Fault, Blocked}"
  by (rule exec_uninstrumented) simp_all

text \<open>
  A program that is found on the \<open>PATH\<close> is not reported by default: \<open>execvp\<close> asks whether the bare
  name is executable, which it is not unless it names a file in the working directory, while the real
  function searches the \<open>PATH\<close> and runs it.
\<close>

lemma execvp_search_unreported:
  assumes "reachable_observer fd s" and "instrumented s libs os sp"
    and "\<not> has_flag (voyeur_decode_options (Some os) 0) OBSERVE_EXEC_NOACCESS" and "\<not> executable s name"
    and "length argv < 2 ^ 31" and "length (environ s) < 2 ^ 31" and "soft_w (wsys s)" and "4 \<le> takes (wsys s)"
    and "close_errs s = []" and "env_room s (environ s)" and "answers s \<noteq> []"
  shows "exec_outcome fd s [] (Next_Execvpe (Some name) (Some argv) (augmented_env (build_os s) (environ s) libs os sp))
    (voyeur_execvp (Some name) (Some argv) s)"
proof -
  let ?o = "voyeur_decode_options (Some os) 0"
  have r: "exec_report s ?o (Some name) argv (environ s) (self_pid s) (parent_pid s) = []"
    using assms(3,4) by (simp add: exec_report_def exec_reported_def)
  show ?thesis
    using exec_through_run [OF assms(1,2) refl assms(5-7) _ assms(9-11), of "Some name" Next_Execvpe] assms(8)
    by (simp add: r voyeur_execvp_def)
qed

lemma execvp_search_unreported_example:
  "exec_outcome 5 ex_proc [] (Next_Execvpe (Some ''ls'') (Some [''ls'']) (augmented_env Linux ex_environ ''/v.so'' ''@@A@'' ''/tmp/s''))
    (voyeur_execvp (Some ''ls'') (Some [''ls'']) ex_proc)"
proof -
  have f: "\<not> executable ex_proc ''ls''" "env_room ex_proc ex_environ" "length ex_environ = 4"
    by (simp_all add: ex_proc_def env_room_def ex_environ_def)
  from execvp_search_unreported [OF ex_proc_reachable ex_instrumented, of "''ls''" "[''ls'']"] f
  show ?thesis by (simp add: has_flag_def)
qed

section \<open>A call of \<open>posix_spawn\<close>\<close>

text \<open>
  The library has connected, with the strings of its first call stored, or it is about to: then it will
  find the strings in its environment.
\<close>

definition spawn_ready :: "'z process_scheme \<Rightarrow> int \<Rightarrow> string \<Rightarrow> string \<Rightarrow> string \<Rightarrow> u8 \<Rightarrow> bool" where
  "spawn_ready s fd libs os sp options \<longleftrightarrow>
     (if lib_initialized (spawn_vars s)
      then attached (spawn_vars s) fd s \<and> lib_opts (spawn_vars s) = options
        \<and> voyeur_posix_spawn_libs s = Some libs \<and> voyeur_posix_spawn_opts s = Some os
        \<and> voyeur_posix_spawn_sockpath s = Some sp
      else reachable_observer fd s \<and> instrumented s libs os sp \<and> options = voyeur_decode_options (Some os) 0)"

text \<open>What was sent over the library's connection so far.\<close>

definition spawn_sent :: "int \<Rightarrow> 'z process_scheme \<Rightarrow> byte list" where
  "spawn_sent fd s = (if lib_initialized (spawn_vars s) then written fd s else [])"

text \<open>The first call leaves everything but the library's variables and its connection alone.\<close>

definition app_frame :: "'z process_scheme \<Rightarrow> 'z process_scheme \<Rightarrow> bool" where
  "app_frame s t \<longleftrightarrow> wsys t = wsys s \<and> live t = live s \<and> mem_max t = mem_max s \<and> build_os t = build_os s
     \<and> same_proc s t \<and> answers t = answers s \<and> child_pids t = child_pids s \<and> stack_pid t = stack_pid s
     \<and> passed t = passed s \<and> locked t = locked s"

lemma spawn_init_ready:
  assumes "spawn_ready s fd libs os sp options"
  obtains t where "voyeur_init_posix_spawn s = Ok () t" "spawn_ready t fd libs os sp options"
    "lib_initialized (spawn_vars t)" "app_frame s t" "written fd t = spawn_sent fd s"
proof (cases "lib_initialized (spawn_vars s)")
  case True
  have "voyeur_init_posix_spawn s = Ok () s" using True by (simp add: voyeur_init_posix_spawn_def)
  then show ?thesis
    by (rule that) (use True assms in \<open>simp_all add: spawn_sent_def app_frame_def\<close>)
next
  case False
  then have h: "reachable_observer fd s" "instrumented s libs os sp" "options = voyeur_decode_options (Some os) 0"
    using assms by (simp_all add: spawn_ready_def)
  let ?s1 = "s\<lparr>voyeur_posix_spawn_libs := Some libs, voyeur_posix_spawn_opts := Some os,
      voyeur_posix_spawn_sockpath := Some sp\<rparr>"
  have pre: "\<not> lib_initialized (spawn_vars ?s1)" "reachable_observer fd ?s1"
    using False h(1) by (simp_all add: reachable_observer_def)
  obtain t where t: "lazy_init spawn_vars spawn_vars_update VOYEUR_EVENT_EXEC ?s1 = Ok () t"
    "attached (spawn_vars t) fd t" "bookkeeping ?s1 t"
    "lib_opts (spawn_vars t) = voyeur_decode_options (getenv (environ ?s1) ''LIBVOYEUR_OPTS'') (unat (event_type_val VOYEUR_EVENT_EXEC))"
    "written fd t = []" "\<forall>g. g \<noteq> fd \<longrightarrow> fdt t g = fdt ?s1 g" 
    by (rule spawn_library.init_connects [OF pre, of VOYEUR_EVENT_EXEC])
  have run: "voyeur_init_posix_spawn s = Ok () t"
    using False h(2) t(1) by (simp add: voyeur_init_posix_spawn_def sys_getenv_def instrumented_def)
  have "lib_opts (spawn_vars t) = options"
    using t(4) h(2,3) by (simp add: instrumented_def)
  moreover have "app_frame s t" using t(3) by (simp add: bookkeeping_def app_frame_def same_proc_def)
  moreover have init: "lib_initialized (spawn_vars t)" using t(2) by (simp add: attached_def)
  ultimately show ?thesis
    by (intro that [OF run]) (use t(2,3,5) False in \<open>simp_all add: spawn_ready_def bookkeeping_def spawn_sent_def\<close>)
qed

text \<open>The identifier that is reported and stored: the child's, or whatever the stack held if there is no child.\<close>

definition spawned_pid :: "'z process_scheme \<Rightarrow> pid_t" where
  "spawned_pid s = (if hd (answers s) = 0 then hd (child_pids s) else stack_pid s)"

lemma real_spawn_run:
  assumes "answers s \<noteq> []" and "child_pids s \<noteq> []"
  obtains ps where "real_spawn c s = Ok (hd (answers s), spawned_pid s)
    (s\<lparr>answers := tl (answers s), passed := passed s @ [c], child_pids := ps\<rparr>)"
proof (cases "hd (answers s) = 0")
  case True
  with assms show ?thesis
    by (intro that [of "tl (child_pids s)"])
      (cases "answers s"; cases "child_pids s"; simp add: real_spawn_def real_call_def io_bind_def spawned_pid_def)
next
  case False
  with assms show ?thesis
    by (intro that [of "child_pids s"])
      (cases "answers s"; simp add: real_spawn_def real_call_def io_bind_def spawned_pid_def)
qed

lemma spawn_through_run:
  assumes "spawn_ready s fd libs os sp options" and "Spawn_Mutex \<notin> locked s"
    and "length argv < 2 ^ 31" and "length envp < 2 ^ 31" and "soft_w (wsys s)"
    and "report = exec_report s options path argv envp (spawned_pid s) (self_pid s)"
    and "length report + n \<le> takes (wsys s)" and "env_room s envp" and "answers s \<noteq> []" and "child_pids s \<noteq> []"
  shows "\<exists>t. spawn_through real ptr path (Some argv) (Some envp) s
      = Ok (hd (answers s), if ptr then Some (spawned_pid s) else None) t
    \<and> spawn_sent fd t = spawn_sent fd s @ report
    \<and> passed t = passed s @ [real path (Some argv) (augmented_env (build_os s) envp libs os sp)]
    \<and> spawn_ready t fd libs os sp options \<and> locked t = locked s \<and> n \<le> takes (wsys t)
    \<and> live t = live s + exec_leak s options path"
proof -
  let ?s0 = "s\<lparr>locked := insert Spawn_Mutex (locked s)\<rparr>"
  have "spawn_ready ?s0 fd libs os sp options"
    using assms(1) by (auto simp: spawn_ready_def attached_def connected_def reachable_observer_def instrumented_def)
  then obtain t where t: "voyeur_init_posix_spawn ?s0 = Ok () t" "spawn_ready t fd libs os sp options"
    "lib_initialized (spawn_vars t)" "app_frame ?s0 t" "written fd t = spawn_sent fd ?s0"
    by (rule spawn_init_ready)
  have r: "attached (spawn_vars t) fd t" "lib_opts (spawn_vars t) = options" "voyeur_posix_spawn_libs t = Some libs"
    "voyeur_posix_spawn_opts t = Some os" "voyeur_posix_spawn_sockpath t = Some sp"
    using t(2,3) by (simp_all add: spawn_ready_def)
  then have v: "lib_sock (spawn_vars t) = fd" "lib_next (spawn_vars t)" "0 \<le> fd" "connected fd t"
    by (simp_all add: attached_def)
  have f: "wsys t = wsys s" "live t = live s" "mem_max t = mem_max s" "build_os t = build_os s" "same_proc s t"
    "answers t = answers s" "child_pids t = child_pids s" "stack_pid t = stack_pid s" "passed t = passed s"
    "locked t = insert Spawn_Mutex (locked s)"
    using t(4) by (simp_all add: app_frame_def same_proc_def)
  have "env_room t envp" using assms(8) f(3) by (simp add: env_room_def)
  note aug = augment_ok [OF this, of libs os sp]
  let ?env = "augmented_env (build_os s) envp libs os sp"
  let ?c = "real path (Some argv) ?env"
  let ?t1 = "t\<lparr>live := live t + 2\<rparr>"
  have ne: "answers ?t1 \<noteq> []" "child_pids ?t1 \<noteq> []" using assms(9,10) f by simp_all
  obtain ps where sp: "real_spawn ?c ?t1 = Ok (hd (answers ?t1), spawned_pid ?t1)
      (?t1\<lparr>answers := tl (answers ?t1), passed := passed ?t1 @ [?c], child_pids := ps\<rparr>)"
    by (rule real_spawn_run [OF ne])
  have pid: "spawned_pid ?t1 = spawned_pid s" using f by (simp add: spawned_pid_def)
  let ?t2 = "?t1\<lparr>answers := tl (answers ?t1), passed := passed ?t1 @ [?c], child_pids := ps\<rparr>"
  have e: "emits s (io_bind (io_get self_pid) (\<lambda>pid.
      write_exec_event fd options path (Some argv) (Some envp) (spawned_pid s) pid)) fd report (exec_leak s options path)"
    unfolding assms(6)
    by (rule emits_get, rule emits_write_exec_event [OF assms(3,4)]) (simp add: same_proc_def)
  obtain w where w: "io_bind (io_get self_pid) (\<lambda>pid.
      write_exec_event fd options path (Some argv) (Some envp) (spawned_pid s) pid) ?t2
      = Ok () (put_bytes fd report (?t2\<lparr>wsys := w, live := live ?t2 + exec_leak s options path\<rparr>))" "n \<le> takes w"
    by (rule emitsE [OF e, of ?t2 n]) (use v(4) assms(5,7) f in \<open>simp_all add: connected_def same_proc_def\<close>)
  let ?t3 = "put_bytes fd report (?t2\<lparr>wsys := w, live := live ?t2 + exec_leak s options path\<rparr>)"
  let ?u = "?t3\<lparr>locked := locked s, live := live s + exec_leak s options path\<rparr>"
  have run: "spawn_through real ptr path (Some argv) (Some envp) s
      = Ok (hd (answers s), if ptr then Some (spawned_pid s) else None) ?u"
    using assms(2) t(1) r v aug sp w(1) f pid
    by (simp add: spawn_through_def sys_free_def put_bytes_def)
  have same: "spawn_sent fd ?s0 = spawn_sent fd s" by (simp add: spawn_sent_def written_def)
  have c2: "connected fd ?t2" using v(4) by (simp add: connected_def)
  have "written fd ?u = written fd ?t3" by (simp add: written_def)
  also have "\<dots> = written fd t @ report"
    using written_put_bytes [of fd "?t2\<lparr>wsys := w, live := live ?t2 + exec_leak s options path\<rparr>" report] c2
    by (simp add: connected_def written_def)
  finally have sent: "spawn_sent fd ?u = spawn_sent fd s @ report"
    using t(3,5) same by (simp add: spawn_sent_def put_bytes_def)
  have ready: "spawn_ready ?u fd libs os sp options"
    using r t(3) c2 v by (auto simp: spawn_ready_def attached_def put_bytes_def connected_def)
  show ?thesis
    by (rule exI [of _ ?u]) (use run sent ready f w(2) in \<open>simp add: put_bytes_def\<close>)
qed

text \<open>
  C20: a call of \<open>posix_spawn\<close> (and of \<open>posix_spawnp\<close>), the first or a later one: the call is passed on
  with the instrumented environment, its result is returned, the event is appended to the library's
  stream if the options and the file's permissions ask for it, the mutex is free again, and all the
  memory it allocated is freed but, when the report carries the working directory, the buffer of
  \<open>getcwd\<close>, which is lost (\<open>exec_leak\<close>). The event is sent after the call and
  whatever it returned: of a call that failed it carries, as the child's identifier, what the stack
  held, and the caller's pointer gets that value as well.
\<close>

theorem spawn_reports:
  assumes "spawn_ready s fd libs os sp options" and "Spawn_Mutex \<notin> locked s"
    and "length argv < 2 ^ 31" and "length envp < 2 ^ 31" and "soft_w (wsys s)"
    and "report = exec_report s options path argv envp (spawned_pid s) (self_pid s)"
    and "length report + n \<le> takes (wsys s)" and "env_room s envp" and "answers s \<noteq> []" and "child_pids s \<noteq> []"
  shows "\<exists>t. voyeur_posix_spawn ptr path (Some argv) (Some envp) s
      = Ok (hd (answers s), if ptr then Some (spawned_pid s) else None) t
    \<and> spawn_sent fd t = spawn_sent fd s @ report
    \<and> passed t = passed s @ [Next_Spawn path (Some argv) (augmented_env (build_os s) envp libs os sp)]
    \<and> spawn_ready t fd libs os sp options \<and> locked t = locked s \<and> n \<le> takes (wsys t)
    \<and> live t = live s + exec_leak s options path"
  unfolding voyeur_posix_spawn_def using assms by (rule spawn_through_run)

theorem spawn_reports_witness:
  "\<exists>t. voyeur_posix_spawn True (Some ''/bin/x'') (Some [''x'']) (Some ex_environ) (ex_proc\<lparr>answers := [2]\<rparr>)
      = Ok (2, Some 77) t
    \<and> spawn_sent 5 t = enc_msg 0 (Exec_Event ''/bin/x'' [''x''] ex_environ (Some ''/bin'') (Some ''/r'') 77 7)"
proof -
  let ?s = "ex_proc\<lparr>answers := [2]\<rparr>"
  let ?r = "enc_msg 0 (Exec_Event ''/bin/x'' [''x''] ex_environ (Some ''/bin'') (Some ''/r'') 77 7)"
  have vars: "spawn_vars ?s = statics0" "stack_pid ?s = 77" "child_pids ?s = [9]" "executable ?s ''/bin/x''" "env_room ?s ex_environ"
    "length ex_environ = 4"
    by (simp_all add: ex_proc_def env_room_def ex_environ_def)
  have ready: "spawn_ready ?s 5 ''/v.so'' ''@@A@'' ''/tmp/s'' 0"
    using ex_proc_reachable ex_instrumented vars(1)
    by (simp add: spawn_ready_def reachable_observer_def instrumented_def)
  have pid: "spawned_pid ?s = 77" using vars(2) by (simp add: spawned_pid_def)
  have r: "?r = exec_report ?s 0 (Some ''/bin/x'') [''x''] ex_environ (spawned_pid ?s) (self_pid ?s)"
    using vars(4) by (simp add: pid exec_report_def exec_reported_def exec_event_def has_flag_def ptr_str_def flag_defs)
  have len: "length ?r + 0 \<le> takes (wsys ?s)"
    by (simp add: enc_msg_def enc_strs_def enc_str_def str_sent_eq has_flag_def)
  have "spawn_sent 5 ?s = []" using vars(1) by (simp add: spawn_sent_def)
  with spawn_reports [OF ready _ _ _ _ r len vars(5), of True] vars pid show ?thesis by auto
qed

end
