(* ===== verification/Observation.thy ===== *)
theory Observation
  imports Clients Exec_Interposer
begin

unbundle bit_operations_syntax

text \<open>
  The server when it hears whole streams of the interposing libraries, one connection after the other,
  and the events that are in these streams. The interposers and the server meet in the messages of
  \<open>Messages\<close> only; the bytes the ones write are the bytes the other reads.
\<close>

section \<open>The two ends\<close>

text \<open>
  What \<open>voyeur_prepare\<close> puts into an environment (\<open>prepare_environment\<close>), and what an exec call hands on
  (\<open>exec_child_instrumented\<close>): the options of every event of the context.
\<close>

definition prepared :: "'c voyeur_context_scheme \<Rightarrow> string list \<Rightarrow> bool" where
  "prepared ctx env \<longleftrightarrow> (\<forall>E. voyeur_decode_options (getenv env ''LIBVOYEUR_OPTS'') (unat (event_type_val E))
     = event_opts ctx E AND 0x1F)"

text \<open>
  A server that waits: the listening socket, the pipe with the status the child will leave there,
  descriptors \<open>cls\<close> for the clients, and room for \<open>room\<close> bytes of messages and their ends.
\<close>

definition host_ready :: "int \<Rightarrow> int \<Rightarrow> int list \<Rightarrow> cint \<Rightarrow> nat \<Rightarrow> 'z host_scheme \<Rightarrow> bool" where
  "host_ready srv pipe cls status room h \<longleftrightarrow>
     {srv, pipe} \<union> set cls \<subseteq> set all_fds \<and> srv \<noteq> pipe \<and> {srv, pipe} \<inter> set cls = {} \<and> (\<forall>cl \<in> set cls. fdt h cl = None)
   \<and> tells pipe status h
   \<and> soft_r (rsys h) \<and> 4 + 4 * length cls + room \<le> chunks (rsys h) \<and> close_errs h = []"

text \<open>
  The same server when clients connect one after the other: each with its descriptor and what it sends,
  which are \<open>n\<close> messages and the end. Then the child exits.
\<close>

definition hears :: "int \<Rightarrow> int \<Rightarrow> (int \<times> byte list \<times> nat) list \<Rightarrow> 'z host_scheme \<Rightarrow> 'z host_scheme" where
  "hears srv pipe cs h = h\<lparr>incoming := map (\<lambda>(cl, bs, n). (cl, bs, False)) cs,
     selects := concat (map (\<lambda>(cl, bs, n). Ready {srv} {} # replicate n (Ready {cl} {}) @ [Ready {cl} {}]) cs)
       @ [Ready {pipe} {}]\<rparr>"

lemma hears_fields [simp]:
  "fdt (hears srv pipe cs h) = fdt h" "rsys (hears srv pipe cs h) = rsys h"
  "close_errs (hears srv pipe cs h) = close_errs h" "mem_max (hears srv pipe cs h) = mem_max h"
  "calls (hears srv pipe cs h) = calls h" "build_os (hears srv pipe cs h) = build_os h"
  "tells p status (hears srv pipe cs h) = tells p status h"
  by (simp_all add: hears_def tells_def)

definition observes :: "'c voyeur_context_scheme \<Rightarrow> int \<Rightarrow> int \<Rightarrow> cint \<Rightarrow> 'z host_scheme \<Rightarrow> (int \<times> byte list \<times> nat) list
    \<Rightarrow> event list \<Rightarrow> bool" where
  "observes ctx srv pipe status h cs evs \<longleftrightarrow>
     (\<exists>h'. run_server ctx srv pipe (hears srv pipe cs h) = Ok (exit_code status) h'
       \<and> calls h' = calls h @ concat (map (event_calls ctx (build_os h)) evs))"

text \<open>What one library sends: the events of its type, the end, and possibly more.\<close>

record stream =
  str_client :: int
  str_type :: voyeur_event_type
  str_events :: "event list"
  str_rest :: "byte list"

definition stream_msgs :: "'c voyeur_context_scheme \<Rightarrow> stream \<Rightarrow> byte list" where
  "stream_msgs ctx x = enc_msgs (event_opts ctx (str_type x) AND 0x1F) (str_events x)"

definition stream_conn :: "'c voyeur_context_scheme \<Rightarrow> stream \<Rightarrow> int \<times> byte list \<times> nat" where
  "stream_conn ctx x = (str_client x, stream_msgs ctx x @ enc_done @ str_rest x, length (str_events x))"

definition stream_ok :: "'z sys_scheme \<Rightarrow> stream \<Rightarrow> bool" where
  "stream_ok h x \<longleftrightarrow> (\<forall>ev \<in> set (str_events x). event_type ev = str_type x \<and> event_wf ev \<and> event_need ev \<le> mem_max h)"

definition streams_events :: "stream list \<Rightarrow> event list" where
  "streams_events xs = concat (map str_events xs)"

lemma streams_events_simps [simp]:
  "streams_events [] = []" "streams_events (x # xs) = str_events x @ streams_events xs"
  by (simp_all add: streams_events_def)

lemma enc_msgs_ctx:
  assumes "\<And>ev. ev \<in> set evs \<Longrightarrow> event_type ev = E"
  shows "enc_msgs (event_opts ctx E AND 0x1F) evs = concat (map (ctx_msg ctx) evs)"
  using assms by (induction evs) (auto simp: ctx_msg_def enc_msg_def)

lemma stream_msgs_ctx: "stream_ok h x \<Longrightarrow> stream_msgs ctx x = concat (map (ctx_msg ctx) (str_events x))"
  unfolding stream_msgs_def stream_ok_def by (intro enc_msgs_ctx) blast

lemma observes_streams:
  assumes "host_ready srv pipe (map str_client xs) status (length (concat (map (stream_msgs ctx) xs))) h"
    and "\<forall>x \<in> set xs. stream_ok h x"
  shows "observes ctx srv pipe status h (map (stream_conn ctx) xs) (streams_events xs)"
proof -
  let ?session = "\<lambda>x. (str_client x, str_events x, str_rest x)"
  let ?ss = "map ?session xs" and ?h = "hears srv pipe (map (stream_conn ctx) xs) h"
  have evs: "session_events_of ?ss = streams_events xs" by (induction xs) simp_all
  have conns: "map (\<lambda>(cl, bs, n). (cl, bs, False)) (map (stream_conn ctx) xs) = map (\<lambda>x. (fst x, session_bytes ctx x, False)) ?ss"
    using assms(2) by (auto simp: stream_conn_def session_bytes_def stream_msgs_ctx [of h])
  have sels: "map (\<lambda>(cl, bs, n). Ready {srv} {} # replicate n (Ready {cl} {}) @ [Ready {cl} {}]) (map (stream_conn ctx) xs)
      = map (session_passes srv) ?ss"
    by (simp add: stream_conn_def session_passes_def)
  have len: "concat (map (ctx_msg ctx) (streams_events xs)) = concat (map (stream_msgs ctx) xs)"
    using assms(2) by (induction xs) (simp_all add: stream_msgs_ctx [of h])
  have facts: "\<And>ev. ev \<in> set (streams_events xs) \<Longrightarrow> event_wf ev \<and> event_need ev \<le> mem_max h"
    using assms(2) by (auto simp: streams_events_def stream_ok_def)
  have "\<exists>h'. run_server ctx srv pipe ?h = Ok (exit_code status) h'
      \<and> calls h' = calls ?h @ concat (map (event_calls ctx (build_os ?h)) (session_events_of ?ss))
      \<and> fdt h' = (fdt ?h)(srv := None, pipe := None)"
  proof (rule sessions_run)
    show "incoming ?h = map (\<lambda>x. (fst x, session_bytes ctx x, False)) ?ss"
      unfolding conns [symmetric] by (simp add: hears_def)
    show "selects ?h = concat (map (session_passes srv) ?ss) @ [Ready {pipe} {}]"
      unfolding sels [symmetric] by (simp add: hears_def)
    show "4 + 4 * length ?ss + length (concat (map (ctx_msg ctx) (session_events_of ?ss))) \<le> chunks (rsys ?h)"
      using assms(1) unfolding evs len by (simp add: host_ready_def)
  qed (use assms(1) facts in \<open>auto simp: host_ready_def evs\<close>)
  then show ?thesis unfolding observes_def evs by auto
qed

section \<open>Opens\<close>

lemma open_events_facts:
  assumes "ev \<in> set (open_events s cs rs)"
  shows "event_type ev = VOYEUR_EVENT_OPEN \<and> event_wf ev \<and> event_need ev = 4097"
  using assms by (induction s cs rs rule: open_events.induct) (auto simp: open_event_def)

lemma length_open_same: "length (enc_msg options (open_event s path oflag arg r)) = length (enc_msg options (open_event s path oflag arg r'))"
  by (simp add: open_event_def length_enc_open)

lemma length_open_msgs:
  "length rs = length cs \<Longrightarrow> length (enc_msgs options (open_events s cs rs)) = open_room s options cs"
proof (induction cs arbitrary: rs)
  case Nil
  then show ?case by (simp add: open_room_def)
next
  case (Cons c cs)
  obtain path oflag arg where c: "c = (path, oflag, arg)" by (cases c)
  from Cons.prems obtain r rs' where rs: "rs = r # rs'" "length rs' = length cs" by (cases rs) simp_all
  have "open_room s options (c # cs) = length (enc_msg options (open_event s path oflag arg 0)) + open_room s options cs"
    by (simp add: c open_room_def)
  with Cons.IH [OF rs(2)] length_open_same [of options s path oflag arg r 0] show ?case by (simp add: c rs(1))
qed

section \<open>Closes\<close>

lemma close_events_facts:
  assumes "ev \<in> set (close_events s D cs)"
  shows "event_type ev = VOYEUR_EVENT_CLOSE \<and> event_wf ev \<and> event_need ev = 4097"
proof -
  from assms obtain c r where "ev = close_event s c r" unfolding close_events_def by (auto simp: set_zip)
  then show ?thesis by (simp add: close_event_def)
qed

lemma length_close_msgs: "length (enc_msgs options (close_events s D cs)) = 20 * length cs"
  by (induction cs arbitrary: D) (simp_all add: close_events_def enc_msg_def close_event_def)

section \<open>Execs and exits\<close>

text \<open>The event of an exec call, if it is one to be reported.\<close>

definition exec_events :: "'z process_scheme \<Rightarrow> u8 \<Rightarrow> string option \<Rightarrow> string list \<Rightarrow> string list \<Rightarrow> event list" where
  "exec_events p options path argv envp =
     (if exec_reported p options path then [exec_event p path argv envp (self_pid p) (parent_pid p)] else [])"

lemma exec_report_events:
  "exec_report p options path argv envp (self_pid p) (parent_pid p) = enc_msgs options (exec_events p options path argv envp)"
  by (simp add: exec_report_def exec_events_def)

lemma exit_run:
  assumes "\<not> did_exit_already p" and "reachable_observer fd p" and "soft_w (wsys p)" and "24 \<le> takes (wsys p)"
    and "close_errs p = []" and "ends \<in> {voyeur_exit, voyeur__exit, voyeur__Exit, voyeur_exit_group}"
  shows "\<exists>t. ends code p = Exited t \<and> closed t = closed p @ [(fd, exit_message p code)]"
proof -
  obtain t where t: "write_exit_event code p = Ok () t" "did_exit_already t"
    "closed t = closed p @ [(fd, exit_message p code)]" "passed t = passed p"
    by (rule write_exit_event_run [OF assms(1-5)])
  then show ?thesis
    using assms(6) by (auto simp: voyeur_exit_def voyeur__exit_def voyeur__Exit_def voyeur_exit_group_def real_exit_def
        libc_exit_again)
qed

section \<open>A sample\<close>

definition ex_watch :: voyeur_context where
  "ex_watch = ex_ctx\<lparr>exec_opts := 0, close_cb := Some 13, close_userdata := 4\<rparr>"

lemma ex_watch_fields [simp]:
  "exec_opts ex_watch = 0" "exit_opts ex_watch = 0" "open_opts ex_watch = 1" "close_opts ex_watch = 0"
  "exec_cb ex_watch = Some 10" "exit_cb ex_watch = Some 11" "open_cb ex_watch = Some 12" "close_cb ex_watch = Some 13"
  "exec_userdata ex_watch = 1" "exit_userdata ex_watch = 2" "open_userdata ex_watch = 3" "close_userdata ex_watch = 4"
  by (simp_all add: ex_watch_def)

text \<open>What the callbacks of the sample context see.\<close>

lemma ex_open_calls:
  "length rs = 2 \<Longrightarrow> concat (map (event_calls ex_watch Linux) (open_events ex_proc ex_calls rs)) =
    [Call 12 (OpenArgs ''/tmp/f'' 0x41 0x1A4 (Some ''/r'') (rs ! 0) 7) 3, Call 12 (OpenArgs [] 0 0 (Some ''/r'') (rs ! 1) 7) 3]"
  by (cases rs; cases "tl rs")
    (simp_all add: ex_calls_def open_event_def event_calls_def calls_of_def open_mode_def O_CREAT_def mode_cast_def ptr_str_def
      has_flag_def flag_defs str_seen_short)

end
