(* ===== verification/Program_Run.thy ===== *)
theory Program_Run
  imports Observation
begin

unbundle bit_operations_syntax

text \<open>
  The whole of libvoyeur in one run: \<open>voyeur_exec\<close> prepares an environment, starts the program with it
  and serves until the program has exited; the program, with exactly this environment, runs against an
  interposing library, and what the library writes is what the server reads. Nothing is assumed of the
  environment or of the bytes on the wire: both are computed by the other side.
\<close>

section \<open>The observer's process\<close>

text \<open>Every call that \<open>voyeur_prepare\<close> makes succeeds, and the sizes are within the buffers.\<close>

definition lib_dir :: "string option \<Rightarrow> 'c voyeur_context_scheme \<Rightarrow> string" where
  "lib_dir dli_fname ctx = (case resource_path ctx of Some d \<Rightarrow> d | None \<Rightarrow> default_dir dli_fname)"

definition can_prepare :: "string \<Rightarrow> int \<Rightarrow> string option \<Rightarrow> char list \<Rightarrow> 'c voyeur_context_scheme \<Rightarrow> string list
    \<Rightarrow> 'z host_scheme \<Rightarrow> bool" where
  "can_prepare sfx srv dli_fname behind ctx envp h \<longleftrightarrow>
     (\<exists>ms. mkdtemps h = Some sfx # ms) \<and> length sfx \<le> 24 \<and> (\<exists>fds. new_socks h = srv # fds) \<and> 0 \<le> srv
   \<and> (\<exists>bs. binds h = True # bs) \<and> (\<exists>ls. listens h = True # ls)
   \<and> cstr (lib_dir dli_fname ctx) \<and> length (lib_dir dli_fname ctx) \<le> 4096
   \<and> compute_libs_size (build_os h) (length (lib_dir dli_fname ctx)) \<le> mem_max h
   \<and> pred_option (\<lambda>f. length f + 1 \<le> mem_max h) dli_fname
   \<and> 8192 \<le> mem_max h \<and> 8 * (length envp + 5) \<le> mem_max h \<and> NUL \<in> set behind
   \<and> length (filter (is_insert (INSERT_LIBS (build_os h))) envp) \<le> 1
   \<and> getenv envp ''LIBVOYEUR_LIBS'' = None \<and> getenv envp ''LIBVOYEUR_OPTS'' = None
   \<and> getenv envp ''LIBVOYEUR_SOCKET'' = None
   \<and> length (requested (build_os h) dli_fname ctx) \<le> 2032"

text \<open>
  The pipe is \<open>r\<close> and \<open>w\<close>, and there are answers enough to read \<open>room\<close> bytes of
  messages and their ends from the connections \<open>cls\<close>.
\<close>

definition can_serve :: "int \<Rightarrow> int \<Rightarrow> int \<Rightarrow> int list \<Rightarrow> nat \<Rightarrow> 'z host_scheme \<Rightarrow> bool" where
  "can_serve srv r w cls room h \<longleftrightarrow>
     {srv, r} \<union> set cls \<subseteq> set all_fds \<and> srv \<noteq> r \<and> {srv, r} \<inter> set cls = {} \<and> 0 \<le> w \<and> w \<notin> {srv, r}
   \<and> (\<forall>cl \<in> set cls. fdt h cl = None) \<and> fdt h r = None \<and> fdt h w = None
   \<and> (\<exists>ps. new_pipes h = (r, w) # ps)
   \<and> soft_r (rsys h) \<and> 4 + 4 * length cls + room \<le> chunks (rsys h) \<and> close_errs h = []"

text \<open>The environment the child gets.\<close>

definition child_env :: "string option \<Rightarrow> char list \<Rightarrow> 'c voyeur_context_scheme \<Rightarrow> string list \<Rightarrow> 'z host_scheme
    \<Rightarrow> string list option" where
  "child_env dli_fname behind ctx envp h = (case voyeur_prepare dli_fname behind ctx envp h of
       Ok (env, ctx') h' \<Rightarrow> env | _ \<Rightarrow> None)"

definition served_ctx :: "string \<Rightarrow> int \<Rightarrow> 'c voyeur_context_scheme \<Rightarrow> 'c voyeur_context_scheme" where
  "served_ctx sfx srv ctx = (silenced ctx)\<lparr>server_state := Some \<lparr>server_sock = srv,
     sun_path = take (24 - length sfx) sockdir_template @ sfx @ ''/socket'', env_buf = True\<rparr>\<rparr>"

lemma prepare_hears:
  assumes "can_prepare sfx srv dli_fname behind ctx envp h"
  obtains env where "child_env dli_fname behind ctx envp h = Some env"
    "voyeur_prepare dli_fname behind ctx envp (hears srv r cs h)
       = Ok (Some env, served_ctx sfx srv ctx) (hears srv r cs (prepared_host sfx srv h))"
    "prepared (served_ctx sfx srv ctx) env" "getenv env ''LIBVOYEUR_SOCKET'' \<noteq> None"
    "env = augmented_env (build_os h) envp (requested (build_os h) dli_fname ctx)
       (map voyeur_encode_options (map (event_opts (silenced ctx)) MAP_EVENTS) @ takeWhile (\<lambda>c. c \<noteq> NUL) behind)
       (take (24 - length sfx) sockdir_template @ sfx @ ''/socket'')"
proof -
  let ?path = "take (24 - length sfx) sockdir_template @ sfx @ ''/socket''"
  let ?hs = "hears srv r cs h"
  have hs: "mkdtemps ?hs = mkdtemps h" "new_socks ?hs = new_socks h" "binds ?hs = binds h" "listens ?hs = listens h"
    "build_os ?hs = build_os h" "mem_max ?hs = mem_max h"
    by (simp_all add: hears_def)
  from assms obtain ms fds b l where a: "mkdtemps h = Some sfx # ms" "length sfx \<le> 24" "new_socks h = srv # fds" "0 \<le> srv"
    "binds h = True # b" "listens h = True # l"
    "cstr (lib_dir dli_fname ctx)" "length (lib_dir dli_fname ctx) \<le> 4096"
    "compute_libs_size (build_os h) (length (lib_dir dli_fname ctx)) \<le> mem_max h"
    "\<And>f. dli_fname = Some f \<Longrightarrow> length f + 1 \<le> mem_max h"
    "8192 \<le> mem_max h" "8 * (length envp + 5) \<le> mem_max h" "NUL \<in> set behind"
    "length (filter (is_insert (INSERT_LIBS (build_os h))) envp) \<le> 1"
    "getenv envp ''LIBVOYEUR_LIBS'' = None" "getenv envp ''LIBVOYEUR_OPTS'' = None" "getenv envp ''LIBVOYEUR_SOCKET'' = None"
    "length (requested (build_os h) dli_fname ctx) \<le> 2032"
    unfolding can_prepare_def by (auto simp: pred_option_def)
  note run = prepare_ok [OF a(1-6) refl lib_dir_def a(7-13) silenced_def]
  have run_hs: "voyeur_prepare dli_fname behind ctx envp ?hs = Ok
     (Some (augmented_env (build_os h) envp (requested (build_os h) dli_fname ctx)
        (map voyeur_encode_options (map (event_opts (silenced ctx)) MAP_EVENTS) @ takeWhile (\<lambda>c. c \<noteq> NUL) behind) ?path),
      served_ctx sfx srv ctx) (prepared_host sfx srv ?hs)"
    unfolding served_ctx_def
    by (rule prepare_ok [where s = ?hs, unfolded hs, OF a(1-6) refl lib_dir_def a(7-13) silenced_def])
  have same: "prepared_host sfx srv ?hs = hears srv r cs (prepared_host sfx srv h)"
    by (simp add: prepared_host_def server_start_def hears_def Let_def)
  show ?thesis
  proof (rule prepare_run [OF a(1-6) refl lib_dir_def a(7-18) refl])
    fix env'
    assume e: "voyeur_prepare dli_fname behind ctx envp h = Ok (Some env', (silenced ctx)\<lparr>server_state :=
        Some \<lparr>server_sock = srv, sun_path = ?path, env_buf = True\<rparr>\<rparr>) (prepared_host sfx srv h)"
      "getenv env' ''LIBVOYEUR_SOCKET'' = Some ?path"
      and o: "\<And>E. voyeur_decode_options (getenv env' ''LIBVOYEUR_OPTS'') (unat (event_type_val E)) = event_opts
        ((silenced ctx)\<lparr>server_state := Some \<lparr>server_sock = srv, sun_path = ?path, env_buf = True\<rparr>\<rparr>) E AND 0x1F"
    have "child_env dli_fname behind ctx envp h = Some env'" by (simp add: child_env_def e(1))
    moreover have "voyeur_prepare dli_fname behind ctx envp ?hs = Ok (Some env', served_ctx sfx srv ctx)
        (hears srv r cs (prepared_host sfx srv h))"
      using e(1) run run_hs same by simp
    moreover have "prepared (served_ctx sfx srv ctx) env'" unfolding prepared_def served_ctx_def using o by blast
    moreover have "env' = augmented_env (build_os h) envp (requested (build_os h) dli_fname ctx)
       (map voyeur_encode_options (map (event_opts (silenced ctx)) MAP_EVENTS) @ takeWhile (\<lambda>c. c \<noteq> NUL) behind) ?path"
      using e(1) run by simp
    ultimately show ?thesis using e(2) by (intro that) auto
  qed
qed

text \<open>\<open>voyeur_start\<close>, when clients connect and send whole messages and their end.\<close>

lemma start_hears:
  assumes "server_state ctx = Some st" and "server_sock st = srv"
    and "can_serve srv r w (map str_client xs) (length (concat (map (stream_msgs ctx) xs))) h"
    and "8 \<le> mem_max h" and "\<forall>x \<in> set xs. stream_ok h x"
  obtains ctx2 h2 where "voyeur_start waits ctx pid (hears srv r (map (stream_conn ctx) xs) h) = Ok (0, ctx2) h2"
    "calls h2 = calls h @ concat (map (event_calls ctx (build_os h)) (streams_events xs))"
proof -
  let ?cs = "map (stream_conn ctx) xs"
  let ?dry = "\<lparr>fd_kind = Pipe, sent = [], inp = [], peer_open = False\<rparr> :: fdesc"
  from assms(3) obtain ps where ps: "new_pipes h = (r, w) # ps" by (auto simp: can_serve_def)
  let ?h1 = "h\<lparr>new_pipes := ps, closed := closed h @ [(w, [])], fdt := (fdt h)(r \<mapsto> ?dry)\<rparr>"
  define dir where "dir = (case strrchr (sun_path st) (CHR ''/'') of
      None \<Rightarrow> sun_path st | Some last_slash \<Rightarrow> take last_slash (sun_path st))"
  have w: "start_waitpid_thread waits pid (hears srv r ?cs h) = Ok r (hears srv r ?cs ?h1)"
    using start_waitpid_ready [of "hears srv r ?cs h" r w ps waits pid] assms(3,4) ps
    by (auto simp: can_serve_def hears_def)
  have "host_ready srv r (map str_client xs) 0 (length (concat (map (stream_msgs ctx) xs))) ?h1"
    using assms(3) by (auto simp: can_serve_def host_ready_def tells_def)
  moreover have "\<forall>x \<in> set xs. stream_ok ?h1 x" using assms(5) by (simp add: stream_ok_def)
  ultimately have "observes ctx srv r 0 ?h1 ?cs (streams_events xs)" by (rule observes_streams)
  then obtain h' where
    h': "run_server ctx srv r (hears srv r ?cs ?h1) = Ok 0 h'"
      "calls h' = calls h @ concat (map (event_calls ctx (build_os h)) (streams_events xs))"
    by (auto simp: observes_def exit_code_def)
  obtain h3 where h3: "WARN_ON_FAIL (sys_unlink (sun_path st)) h' = Ok () h3" "calls h3 = calls h'"
    using warn_returns(1) by blast
  obtain h4 where h4: "WARN_ON_FAIL (sys_rmdir dir) h3 = Ok () h4" "calls h4 = calls h3"
    using warn_returns(2) by blast
  have "voyeur_start waits ctx pid (hears srv r ?cs h) = Ok (0, ctx\<lparr>server_state := Some (st\<lparr>sun_path := dir\<rparr>)\<rparr>) h4"
    using assms(1,2) w h'(1) h3(1) h4(1) by (simp add: voyeur_start_def Let_def dir_def)
  then show ?thesis by (rule that) (simp add: h'(2) h3(2) h4(2))
qed

lemma silenced_fields:
  "exec_cb (silenced ctx) = exec_cb ctx" "exec_userdata (silenced ctx) = exec_userdata ctx"
  "exec_cb ctx \<noteq> None \<Longrightarrow> exec_opts (silenced ctx) = exec_opts ctx"
  "exit_opts (silenced ctx) = exit_opts ctx" "exit_cb (silenced ctx) = exit_cb ctx"
  "exit_userdata (silenced ctx) = exit_userdata ctx" "open_opts (silenced ctx) = open_opts ctx"
  "open_cb (silenced ctx) = open_cb ctx" "open_userdata (silenced ctx) = open_userdata ctx"
  "close_opts (silenced ctx) = close_opts ctx" "close_cb (silenced ctx) = close_cb ctx"
  "close_userdata (silenced ctx) = close_userdata ctx"
  by (auto simp: silenced_def)

lemma served_opts: "event_opts (served_ctx sfx srv ctx) E = event_opts (silenced ctx) E"
  by (cases E) (simp_all add: served_ctx_def)

lemma silenced_opts: "E \<noteq> VOYEUR_EVENT_EXEC \<or> exec_cb ctx \<noteq> None \<Longrightarrow> event_opts (silenced ctx) E = event_opts ctx E"
  by (cases E) (auto simp: silenced_fields)

lemma served_calls:
  "event_cb (served_ctx sfx srv ctx) E = event_cb ctx E"
  "event_userdata (served_ctx sfx srv ctx) E = event_userdata ctx E"
  by (cases E; simp only: event_cb.simps event_userdata.simps; simp add: served_ctx_def silenced_fields)+

text \<open>\<open>voyeur_exec\<close>; without a callback for exec events, the libraries send none.\<close>

lemma exec_hears:
  assumes "can_prepare sfx srv dli_fname behind ctx envp h" and "spawns h = Some pid # ps"
    and "can_serve srv r w (map str_client xs) (length (concat (map (stream_msgs (silenced ctx)) xs))) h"
    and "\<forall>x \<in> set xs. stream_ok h x \<and> (exec_cb ctx = None \<and> str_type x = VOYEUR_EVENT_EXEC \<longrightarrow> str_events x = [])"
    and "child_env dli_fname behind ctx envp h = Some env"
  obtains ctx2 h2 where "voyeur_exec waits dli_fname behind ctx path argv envp
      (hears srv r (map (stream_conn (silenced ctx)) xs) h) = Ok (0, ctx2) h2"
    "calls h2 = calls h @ concat (map (event_calls ctx (build_os h)) (streams_events xs))"
proof -
  let ?cs = "map (stream_conn (silenced ctx)) xs"
  let ?ctx = "served_ctx sfx srv ctx" and ?h1 = "prepared_host sfx srv h"
  have msgs: "stream_msgs ?ctx = stream_msgs (silenced ctx)" "stream_conn ?ctx = stream_conn (silenced ctx)"
    by (rule ext, simp add: stream_msgs_def stream_conn_def served_opts)+
  obtain env' where "child_env dli_fname behind ctx envp h = Some env'"
    "voyeur_prepare dli_fname behind ctx envp (hears srv r ?cs h) = Ok (Some env', ?ctx) (hears srv r ?cs ?h1)"
    by (rule prepare_hears [OF assms(1), of r ?cs])
  then have p: "voyeur_prepare dli_fname behind ctx envp (hears srv r ?cs h) = Ok (Some env, ?ctx) (hears srv r ?cs ?h1)"
    using assms(5) by simp
  let ?h2 = "?h1\<lparr>spawns := ps, launched := launched h @ [(path, argv, env)]\<rparr>"
  have sp: "sys_spawnp path argv env (hears srv r ?cs ?h1) = Ok pid (hears srv r ?cs ?h2)"
    using assms(2) by (simp add: sys_spawnp_def hears_def)
  have mem: "8 \<le> mem_max ?h2" using assms(1) by (simp add: can_prepare_def)
  have ready: "can_serve srv r w (map str_client xs) (length (concat (map (stream_msgs ?ctx) xs))) ?h2"
    using assms(3) unfolding msgs by (auto simp: can_serve_def)
  obtain st where st: "server_state ?ctx = Some st" "server_sock st = srv" by (simp add: served_ctx_def)
  have ok: "\<forall>x \<in> set xs. stream_ok ?h2 x" using assms(4) by (auto simp: stream_ok_def)
  obtain ctx2 h3 where h3: "voyeur_start waits ?ctx pid (hears srv r ?cs ?h2) = Ok (0, ctx2) h3"
    "calls h3 = calls ?h2 @ concat (map (event_calls ?ctx (build_os ?h2)) (streams_events xs))"
    using start_hears [OF st ready mem ok, of waits pid, unfolded msgs] by blast
  have "event_calls ?ctx (build_os h) ev = event_calls ctx (build_os h) ev" if "ev \<in> set (streams_events xs)" for ev
  proof -
    from that obtain x where x: "x \<in> set xs" "ev \<in> set (str_events x)" by (auto simp: streams_events_def)
    then have "event_type ev = str_type x" "str_type x \<noteq> VOYEUR_EVENT_EXEC \<or> exec_cb ctx \<noteq> None"
      using assms(4) by (auto simp: stream_ok_def)
    then show ?thesis by (simp add: event_calls_def served_calls served_opts silenced_opts)
  qed
  then have "map (event_calls ?ctx (build_os h)) (streams_events xs) = map (event_calls ctx (build_os h)) (streams_events xs)" by simp
  with h3(2) have "calls h3 = calls h @ concat (map (event_calls ctx (build_os h)) (streams_events xs))" by simp
  moreover have run: "voyeur_exec waits dli_fname behind ctx path argv envp (hears srv r ?cs h)
      = Ok (0, ctx2) (h3\<lparr>live := live h3 - 1\<rparr>)"
    using p sp h3(1) by (simp add: voyeur_exec_def sys_free_def)
  ultimately show ?thesis by (intro that [OF run]) simp
qed

text \<open>With a single client whose events are not execs.\<close>

lemma exec_hears_one:
  assumes "can_prepare sfx srv dli_fname behind ctx envp h" and "can_serve srv r w [cl] (length (enc_msgs options evs)) h"
    and "spawns h = Some pid # ps" and "options = event_opts ctx E AND 0x1F" and "E \<noteq> VOYEUR_EVENT_EXEC"
    and "\<And>ev. ev \<in> set evs \<Longrightarrow> event_type ev = E \<and> event_wf ev \<and> event_need ev \<le> mem_max h"
    and "child_env dli_fname behind ctx envp h = Some env"
  obtains ctx2 h2 where "voyeur_exec waits dli_fname behind ctx path argv envp
      (hears srv r [(cl, enc_msgs options evs @ enc_done @ rest, length evs)] h) = Ok (0, ctx2) h2"
    "calls h2 = calls h @ concat (map (event_calls ctx (build_os h)) evs)"
proof -
  let ?x = "\<lparr>str_client = cl, str_type = E, str_events = evs, str_rest = rest\<rparr>"
  have m: "stream_msgs (silenced ctx) ?x = enc_msgs options evs"
    using assms(5) by (simp add: stream_msgs_def assms(4) silenced_opts)
  have serve: "can_serve srv r w (map str_client [?x]) (length (concat (map (stream_msgs (silenced ctx)) [?x]))) h"
    using assms(2) m by simp
  have ok: "\<forall>x \<in> set [?x]. stream_ok h x \<and> (exec_cb ctx = None \<and> str_type x = VOYEUR_EVENT_EXEC \<longrightarrow> str_events x = [])"
    using assms(5,6) by (simp add: stream_ok_def)
  show ?thesis
    by (rule exec_hears [OF assms(1,3) serve ok assms(7), of waits path argv]) (rule that, simp_all add: stream_conn_def m)
qed

text \<open>A process that \<open>voyeur_exec\<close> started, whose next socket is \<open>fd\<close>, and which reaches the observer.\<close>

definition started_as :: "string list option \<Rightarrow> int \<Rightarrow> 'z process_scheme \<Rightarrow> bool" where
  "started_as env fd p \<longleftrightarrow> env = Some (environ p) \<and> 0 \<le> fd \<and> (\<exists>fds. new_socks p = fd # fds)
     \<and> True \<in> set (take 20 (conn_sys p)) \<and> soft_w (wsys p) \<and> close_errs p = []"

lemma started_observed:
  assumes "can_prepare sfx srv dli_fname behind ctx envp h" and "started_as (child_env dli_fname behind ctx envp h) fd p"
  shows "prepared (served_ctx sfx srv ctx) (environ p)" and "reachable_observer fd p"
    and "child_env dli_fname behind ctx envp h = Some (environ p)"
proof -
  show e: "child_env dli_fname behind ctx envp h = Some (environ p)" using assms(2) by (simp add: started_as_def)
  obtain env where env: "child_env dli_fname behind ctx envp h = Some env" "prepared (served_ctx sfx srv ctx) env"
    "getenv env ''LIBVOYEUR_SOCKET'' \<noteq> None"
    by (rule prepare_hears [OF assms(1)])
  then show "prepared (served_ctx sfx srv ctx) (environ p)" using e by simp
  show "reachable_observer fd p" using assms(2) env e by (auto simp: reachable_observer_def started_as_def)
qed

lemma served_open_opts:
  assumes "prepared (served_ctx sfx srv ctx) env"
  shows "open_opts ctx AND 0x1F = voyeur_decode_options (getenv env ''LIBVOYEUR_OPTS'') 2"
proof -
  have "unat (event_type_val VOYEUR_EVENT_OPEN) = 2" by simp
  moreover have "event_opts (served_ctx sfx srv ctx) VOYEUR_EVENT_OPEN = open_opts ctx"
    unfolding served_opts by (simp add: silenced_fields)
  ultimately show ?thesis using assms unfolding prepared_def by metis
qed

lemmas started_open_opts = served_open_opts [OF started_observed(1)]

lemma length_close_events: "length (close_events s D cs) = length cs"
  by (induction cs arbitrary: D) simp_all

lemma length_open_events: "length rs = length cs \<Longrightarrow> length (open_events s cs rs) = length cs"
  by (induction s cs rs rule: open_events.induct) simp_all

text \<open>
  C2: a program that opens files, observed by \<open>voyeur_exec\<close>, from the preparation of its environment to
  the callbacks: every call of the program is passed on unchanged and gets the real result, the library
  ends its stream, and \<open>voyeur_exec\<close>, serving these bytes, calls the callback once per call, in the order
  of the calls, with the path, the flags, the mode, the result, the working directory if it was asked
  for, and the identifier of the process; it then returns 0.
\<close>

theorem program_opens:
  assumes "can_prepare sfx srv dli_fname behind ctx envp h" and "can_serve srv r w [cl] room h" and "spawns h = Some pid # ps"
    and "started_as (child_env dli_fname behind ctx envp h) fd p"
    and "\<not> lib_initialized (open_vars p)" and "Open_Mutex \<notin> locked p"
    and "cs \<noteq> []" and "calls_given (build_os p) cs" and "length cs \<le> length (answers p)"
    and "room = open_room p (open_opts ctx AND 0x1F) cs" and "4 + room \<le> takes (wsys p)"
  shows "\<exists>rs t bs ctx2 h2. open_run cs p = Ok rs t \<and> passed t = passed p @ next_opens (build_os p) cs
    \<and> closed t = closed p @ [(fd, bs)]
    \<and> voyeur_exec waits dli_fname behind ctx path argv envp (hears srv r [(cl, bs, length cs)] h) = Ok (0, ctx2) h2
    \<and> calls h2 = calls h @ concat (map (event_calls ctx (build_os h)) (open_events p cs rs))"
proof -
  let ?o = "open_opts ctx AND 0x1F"
  note child = started_observed [OF assms(1,4)]
  have soft: "soft_w (wsys p)" "close_errs p = []" using assms(4) by (simp_all add: started_as_def)
  have o: "?o = voyeur_decode_options (getenv (environ p) ''LIBVOYEUR_OPTS'') 2"
    by (rule started_open_opts [OF assms(1,4)])
  obtain rs t where t: "open_run cs p = Ok rs t" "length rs = length cs"
    "closed t = closed p @ [(fd, enc_msgs ?o (open_events p cs rs) @ enc_done)]"
    "passed t = passed p @ next_opens (build_os p) cs"
    using open_run_stream [OF assms(5,6) child(2) assms(7,8,9) o soft(1)] assms(10,11) soft(2) by auto
  let ?evs = "open_events p cs rs"
  have n: "length ?evs = length cs" using t(2) by (rule length_open_events)
  have serve: "can_serve srv r w [cl] (length (enc_msgs ?o ?evs)) h"
    unfolding length_open_msgs [OF t(2)] using assms(2,10) by simp
  have "4097 \<le> mem_max h" using assms(1) by (simp add: can_prepare_def)
  then have evs: "\<And>ev. ev \<in> set ?evs \<Longrightarrow> event_type ev = VOYEUR_EVENT_OPEN \<and> event_wf ev \<and> event_need ev \<le> mem_max h"
    using open_events_facts by fastforce
  obtain ctx2 h2 where h2: "voyeur_exec waits dli_fname behind ctx path argv envp
      (hears srv r [(cl, enc_msgs ?o ?evs @ enc_done @ [], length ?evs)] h) = Ok (0, ctx2) h2"
    "calls h2 = calls h @ concat (map (event_calls ctx (build_os h)) ?evs)"
    by (rule exec_hears_one [OF assms(1) serve assms(3) _ _ evs child(3), where waits = waits and path = path
        and argv = argv and rest = "[]"]) simp_all
  from t h2 n show ?thesis by auto
qed

text \<open>
  C16: a program that closes descriptors, observed by \<open>voyeur_exec\<close>: the callback is called once per call,
  in order, with the descriptor and the result the program got, also for a descriptor that is not open;
  the library's own close of its connection is not among them.
\<close>

theorem program_closes:
  assumes "can_prepare sfx srv dli_fname behind ctx envp h" and "can_serve srv r w [cl] (20 * length cs) h"
    and "spawns h = Some pid # ps" and "started_as (child_env dli_fname behind ctx envp h) fd p"
    and "\<not> lib_initialized (close_vars p)" and "Close_Mutex \<notin> locked p" and "\<not> voyeur_close_finalized p"
    and "cs \<noteq> []" and "fd \<notin> sint ` set cs" and "4 + 20 * length cs \<le> takes (wsys p)"
  shows "\<exists>t bs ctx2 h2. close_run cs p = Ok (close_results (dom (fdt p)) cs) t \<and> last (closed t) = (fd, bs)
    \<and> voyeur_exec waits dli_fname behind ctx path argv envp (hears srv r [(cl, bs, length cs)] h) = Ok (0, ctx2) h2
    \<and> calls h2 = calls h @ concat (map (event_calls ctx (build_os h)) (close_events p (dom (fdt p)) cs))"
proof -
  let ?o = "close_opts ctx AND 0x1F"
  let ?evs = "close_events p (dom (fdt p)) cs"
  note child = started_observed [OF assms(1,4)]
  have soft: "soft_w (wsys p)" "close_errs p = []" using assms(4) by (simp_all add: started_as_def)
  obtain t where t: "close_run cs p = Ok (close_results (dom (fdt p)) cs) t"
    "last (closed t) = (fd, enc_msgs ?o ?evs @ enc_done)"
    using close_run_stream [OF assms(5,6,7) child(2) assms(8,9) soft(1) assms(10) soft(2) refl, of ?o] by blast
  have n: "length ?evs = length cs" by (rule length_close_events)
  have serve: "can_serve srv r w [cl] (length (enc_msgs ?o ?evs)) h"
    unfolding length_close_msgs by (rule assms(2))
  have "4097 \<le> mem_max h" using assms(1) by (simp add: can_prepare_def)
  then have evs: "\<And>ev. ev \<in> set ?evs \<Longrightarrow> event_type ev = VOYEUR_EVENT_CLOSE \<and> event_wf ev \<and> event_need ev \<le> mem_max h"
    using close_events_facts by fastforce
  obtain ctx2 h2 where h2: "voyeur_exec waits dli_fname behind ctx path argv envp
      (hears srv r [(cl, enc_msgs ?o ?evs @ enc_done @ [], length ?evs)] h) = Ok (0, ctx2) h2"
    "calls h2 = calls h @ concat (map (event_calls ctx (build_os h)) ?evs)"
    by (rule exec_hears_one [OF assms(1) serve assms(3) _ _ evs child(3), where waits = waits and path = path
        and argv = argv and rest = "[]"]) simp_all
  from t h2 n show ?thesis by auto
qed

text \<open>
  C15: a program that ends, observed by \<open>voyeur_exec\<close>: whichever of the four interposed functions it calls, the
  callback is called once, with the status and the identifiers of the process and of its parent, while
  \<open>voyeur_exec\<close> itself returns 0, not the status.
\<close>

theorem program_exits:
  assumes "can_prepare sfx srv dli_fname behind ctx envp h" and "can_serve srv r w [cl] 20 h" and "spawns h = Some pid # ps"
    and "started_as (child_env dli_fname behind ctx envp h) fd p"
    and "\<not> did_exit_already p" and "24 \<le> takes (wsys p)"
    and "ends \<in> {voyeur_exit, voyeur__exit, voyeur__Exit, voyeur_exit_group}"
  shows "\<exists>t bs ctx2 h2. ends code p = Exited t \<and> closed t = closed p @ [(fd, bs)]
    \<and> voyeur_exec waits dli_fname behind ctx path argv envp (hears srv r [(cl, bs, 1)] h) = Ok (0, ctx2) h2
    \<and> calls h2 = calls h @ event_calls ctx (build_os h) (Exit_Event code (self_pid p) (parent_pid p))"
proof -
  let ?ev = "Exit_Event code (self_pid p) (parent_pid p)"
  let ?o = "exit_opts ctx AND 0x1F"
  note child = started_observed [OF assms(1,4)]
  have soft: "soft_w (wsys p)" "close_errs p = []" using assms(4) by (simp_all add: started_as_def)
  obtain t where t: "ends code p = Exited t" "closed t = closed p @ [(fd, exit_message p code)]"
    using exit_run [OF assms(5) child(2) soft(1) assms(6) soft(2) assms(7)] by blast
  have msg: "exit_message p code = enc_msgs ?o [?ev] @ enc_done" by (simp add: exit_message_def enc_msg_def)
  have "length (enc_msgs ?o [?ev]) = 20" by (simp add: enc_msg_def)
  then have serve: "can_serve srv r w [cl] (length (enc_msgs ?o [?ev])) h" using assms(2) by simp
  have "4097 \<le> mem_max h" using assms(1) by (simp add: can_prepare_def)
  then have evs: "\<And>ev. ev \<in> set [?ev] \<Longrightarrow> event_type ev = VOYEUR_EVENT_EXIT \<and> event_wf ev \<and> event_need ev \<le> mem_max h"
    by simp
  obtain ctx2 h2 where "voyeur_exec waits dli_fname behind ctx path argv envp
      (hears srv r [(cl, enc_msgs ?o [?ev] @ enc_done @ [], length [?ev])] h) = Ok (0, ctx2) h2"
    "calls h2 = calls h @ concat (map (event_calls ctx (build_os h)) [?ev])"
    by (rule exec_hears_one [OF assms(1) serve assms(3) _ _ evs child(3), where waits = waits and path = path
        and argv = argv and rest = "[]"]) simp_all
  with t show ?thesis by (simp add: msg)
qed

section \<open>A sample\<close>

definition ex_runner :: host where
  "ex_runner = ex_host\<lparr>rsys := replicate 500 (Chunk 7)\<rparr>"

lemma ex_runner_fields [simp]:
  "spawns ex_runner = [Some 99]" "calls ex_runner = []" "build_os ex_runner = Linux" "mem_max ex_runner = 65536"
  by (simp_all add: ex_runner_def)

lemma ex_requested: "requested Linux (Some ''/usr/lib/libvoyeur.so'') ex_watch
     = ''/usr/lib/libvoyeur-exec.so:/usr/lib/libvoyeur-exit.so:/usr/lib/libvoyeur-open.so:/usr/lib/libvoyeur-close.so''"
  by (simp add: requested_def ex_watch_def ex_ctx_def MAP_EVENTS_def lib_name_def LIB_SUFFIX_def join_def default_dir_def)

lemma ex_can_prepare: "can_prepare ''Ab3dEf'' 4 (Some ''/usr/lib/libvoyeur.so'') [NUL] ex_watch [''PATH=/bin''] ex_runner"
proof -
  have rp: "resource_path ex_watch = None" by (simp add: ex_watch_def ex_ctx_def)
  have dir: "lib_dir (Some ''/usr/lib/libvoyeur.so'') ex_watch = ''/usr/lib/''"
    by (simp add: lib_dir_def rp default_dir_def)
  have size: "compute_libs_size Linux (length ''/usr/lib/'') \<le> 65536"
    by (simp add: compute_libs_size_def MAP_EVENTS_def lib_name_def LIB_SUFFIX_def VOYEUR_EVENT_MAX_def)
  have get: "getenv [''PATH=/bin''] v = None" if "v \<in> {''LIBVOYEUR_LIBS'', ''LIBVOYEUR_OPTS'', ''LIBVOYEUR_SOCKET''}" for v
    using that by (auto simp: getenv_prefix)
  have ins: "length (filter (is_insert (INSERT_LIBS Linux)) [''PATH=/bin'']) \<le> 1" by code_simp
  show ?thesis
    unfolding can_prepare_def dir ex_runner_fields ex_requested using size ins get
    by (simp add: ex_runner_def)
qed

lemma ex_can_serve: "room \<le> 492 \<Longrightarrow> can_serve 4 6 7 [8] room ex_runner"
  by (simp add: can_serve_def ex_runner_def FD_SETSIZE_def ex_sys_def)

abbreviation ex_env :: "string list option" where
  "ex_env \<equiv> child_env (Some ''/usr/lib/libvoyeur.so'') [NUL] ex_watch [''PATH=/bin''] ex_runner"

lemma ex_started: "ex_env = Some env \<Longrightarrow> started_as ex_env 5 (ex_proc\<lparr>environ := env\<rparr>)"
  by (simp add: started_as_def)

lemma ex_env_some: "\<exists>env. ex_env = Some env"
  using prepare_hears [OF ex_can_prepare] by metis

lemma open_events_environ: "open_events (s\<lparr>environ := env\<rparr>) cs rs = open_events s cs rs"
  by (induction s cs rs rule: open_events.induct) (simp_all add: open_event_def)

lemma open_run_length:
  assumes "open_run cs s = Ok rs t"
  shows "length rs = length cs"
proof -
  have "open_calls cs s = Ok rs t \<Longrightarrow> length rs = length cs" for s t and rs :: "cint list"
  proof (induction cs arbitrary: s rs)
    case (Cons c cs)
    then show ?case by (cases c) (auto simp: io_bind_Ok_iff)
  qed simp
  with assms show ?thesis by (auto simp: open_run_def io_bind_Ok_iff io_then_Ok_iff)
qed

theorem program_opens_witness:
  "\<exists>env rs t bs ctx2 h2. ex_env = Some env \<and> open_run ex_calls (ex_proc\<lparr>environ := env\<rparr>) = Ok rs t \<and> closed t = [(5, bs)]
    \<and> voyeur_exec (\<lambda>_. 0x300) (Some ''/usr/lib/libvoyeur.so'') [NUL] ex_watch ''/bin/x'' [''x''] [''PATH=/bin'']
        (hears 4 6 [(8, bs, 2)] ex_runner) = Ok (0, ctx2) h2
    \<and> calls h2 = [Call 12 (OpenArgs ''/tmp/f'' 0x41 0x1A4 (Some ''/r'') (rs ! 0) 7) 3,
         Call 12 (OpenArgs [] 0 0 (Some ''/r'') (rs ! 1) 7) 3]"
proof -
  obtain env where env: "ex_env = Some env" using ex_env_some by blast
  let ?p = "ex_proc\<lparr>environ := env\<rparr>"
  have room: "open_room ?p 1 ex_calls = open_room ex_proc 1 ex_calls" by (simp add: open_room_def open_events_environ)
  then have room': "4 + open_room ?p 1 ex_calls \<le> takes (wsys ?p)" "open_room ?p 1 ex_calls \<le> 492"
    using ex_calls_room by simp_all
  have "\<exists>rs t bs ctx2 h2. open_run ex_calls ?p = Ok rs t \<and> passed t = passed ?p @ next_opens (build_os ?p) ex_calls
    \<and> closed t = closed ?p @ [(5, bs)]
    \<and> voyeur_exec (\<lambda>_. 0x300) (Some ''/usr/lib/libvoyeur.so'') [NUL] ex_watch ''/bin/x'' [''x''] [''PATH=/bin'']
        (hears 4 6 [(8, bs, length ex_calls)] ex_runner) = Ok (0, ctx2) h2
    \<and> calls h2 = calls ex_runner @ concat (map (event_calls ex_watch (build_os ex_runner)) (open_events ?p ex_calls rs))"
    by (rule program_opens [OF ex_can_prepare ex_can_serve [OF room'(2)] _ ex_started [OF env]]) (use room'(1) in simp_all)
  then obtain rs t bs ctx2 h2 where r: "open_run ex_calls ?p = Ok rs t" "passed t = next_opens Linux ex_calls" "closed t = [(5, bs)]"
    "voyeur_exec (\<lambda>_. 0x300) (Some ''/usr/lib/libvoyeur.so'') [NUL] ex_watch ''/bin/x'' [''x''] [''PATH=/bin'']
        (hears 4 6 [(8, bs, 2)] ex_runner) = Ok (0, ctx2) h2"
    "calls h2 = concat (map (event_calls ex_watch Linux) (open_events ex_proc ex_calls rs))"
    by (auto simp: open_events_environ)
  have "length rs = 2" using open_run_length [OF r(1)] by simp
  with r env ex_open_calls [of rs] show ?thesis by auto
qed

theorem program_closes_witness:
  "\<exists>env t bs ctx2 h2. ex_env = Some env \<and> close_run [3, 3] (ex_proc\<lparr>environ := env, fdt := [3 \<mapsto> ex_desc []]\<rparr>) = Ok [0, -1] t
    \<and> last (closed t) = (5, bs)
    \<and> voyeur_exec (\<lambda>_. 0x300) (Some ''/usr/lib/libvoyeur.so'') [NUL] ex_watch ''/bin/x'' [''x''] [''PATH=/bin'']
        (hears 4 6 [(8, bs, 2)] ex_runner) = Ok (0, ctx2) h2
    \<and> calls h2 = [Call 13 (CloseArgs 3 0 7) 4, Call 13 (CloseArgs 3 (-1) 7) 4]"
proof -
  obtain env where env: "ex_env = Some env" using ex_env_some by blast
  let ?p = "ex_proc\<lparr>environ := env, fdt := [3 \<mapsto> ex_desc []]\<rparr>"
  have started: "started_as ex_env 5 ?p" using ex_started [OF env] by (simp add: started_as_def)
  have e: "close_events ?p {3} [3, 3] = [Close_Event 3 0 7, Close_Event 3 (-1) 7]"
    by (simp add: close_event_def)
  have c: "concat (map (event_calls ex_watch Linux) [Close_Event 3 0 7, Close_Event 3 (-1) 7])
      = [Call 13 (CloseArgs 3 0 7) 4, Call 13 (CloseArgs 3 (-1) 7) 4]"
    by (simp add: event_calls_def calls_of_def)
  have dom: "dom (fdt ?p) = {3}" by simp
  have "\<exists>t bs ctx2 h2. close_run [3, 3] ?p = Ok (close_results (dom (fdt ?p)) [3, 3]) t \<and> last (closed t) = (5, bs)
    \<and> voyeur_exec (\<lambda>_. 0x300) (Some ''/usr/lib/libvoyeur.so'') [NUL] ex_watch ''/bin/x'' [''x''] [''PATH=/bin'']
        (hears 4 6 [(8, bs, length [3, 3 :: cint])] ex_runner) = Ok (0, ctx2) h2
    \<and> calls h2 = calls ex_runner @ concat (map (event_calls ex_watch (build_os ex_runner)) (close_events ?p (dom (fdt ?p)) [3, 3]))"
    by (rule program_closes [OF ex_can_prepare ex_can_serve _ started]) simp_all
  then show ?thesis unfolding dom e ex_runner_fields c using env by (simp add: numeral_2_eq_2)
qed

theorem program_exits_witness:
  "\<exists>env t bs ctx2 h2. ex_env = Some env \<and> voyeur__exit 3 (ex_proc\<lparr>environ := env\<rparr>) = (Exited t :: (unit, process) res)
    \<and> closed t = [(5, bs)]
    \<and> voyeur_exec (\<lambda>_. 0x300) (Some ''/usr/lib/libvoyeur.so'') [NUL] ex_watch ''/bin/x'' [''x''] [''PATH=/bin'']
        (hears 4 6 [(8, bs, 1)] ex_runner) = Ok (0, ctx2) h2
    \<and> calls h2 = [Call 11 (ExitArgs 3 7 1) 2]"
proof -
  obtain env where env: "ex_env = Some env" using ex_env_some by blast
  let ?p = "ex_proc\<lparr>environ := env\<rparr>"
  have c: "event_calls ex_watch Linux (Exit_Event 3 7 1) = [Call 11 (ExitArgs 3 7 1) 2]"
    by (simp add: event_calls_def calls_of_def)
  have "\<exists>t bs ctx2 h2. (voyeur__exit 3 ?p :: (unit, process) res) = Exited t \<and> closed t = closed ?p @ [(5, bs)]
    \<and> voyeur_exec (\<lambda>_. 0x300) (Some ''/usr/lib/libvoyeur.so'') [NUL] ex_watch ''/bin/x'' [''x''] [''PATH=/bin'']
        (hears 4 6 [(8, bs, 1)] ex_runner) = Ok (0, ctx2) h2
    \<and> calls h2 = calls ex_runner @ event_calls ex_watch (build_os ex_runner) (Exit_Event 3 (self_pid ?p) (parent_pid ?p))"
    by (rule program_exits [OF ex_can_prepare ex_can_serve _ ex_started [OF env]]) (simp_all add: ex_proc_def)
  with env c show ?thesis by auto
qed

end
