(* ===== verification/Exec_Chain.thy ===== *)
theory Exec_Chain
  imports Program_Run
begin

unbundle bit_operations_syntax

text \<open>
  A program that replaces itself: the descendants of the program that \<open>voyeur_exec\<close> starts are observed as
  well, since \<open>src/voyeur-exec.c\<close> hands the instrumentation on, whether or not the observer asked for
  exec events and whatever environment the program passes to \<open>execve\<close>.
\<close>

lemma silent_exec_events:
  "exec_cb ctx = None \<Longrightarrow> exec_events p (exec_opts (silenced ctx) AND 0x1F) path argv envp = []"
  by (simp add: exec_events_def exec_reported_def silenced_def has_flag_def flag_defs)

lemma exec_events_facts:
  assumes "ev \<in> set (exec_events p options path argv envp)" and "length argv + 1 < 2 ^ 31" and "length envp + 1 < 2 ^ 31"
    and "max 4097 (8 * (max (length argv) (length envp) + 1)) \<le> m"
  shows "event_type ev = VOYEUR_EVENT_EXEC \<and> event_wf ev \<and> event_need ev \<le> m"
  using assms by (auto simp: exec_events_def exec_event_def split: if_splits)

text \<open>The environment of the new image is prepared for the same observer.\<close>

lemma image_observed:
  assumes "prepared (served_ctx sfx srv ctx) (environ p)" and "instrumented p libs os sp"
    and "length libs \<le> 2030" and "length os \<le> 2030" and "length sp \<le> 2030"
    and "getenv xenvp ''LIBVOYEUR_LIBS'' \<in> {None, Some libs}" and "getenv xenvp ''LIBVOYEUR_OPTS'' \<in> {None, Some os}"
    and "getenv xenvp ''LIBVOYEUR_SOCKET'' \<in> {None, Some sp}"
    and "length (filter (is_insert (INSERT_LIBS (build_os p))) xenvp) \<le> 1"
    and "started_as (Some (augmented_env (build_os p) xenvp libs os sp)) fd q"
  shows "prepared (served_ctx sfx srv ctx) (environ q)" and "reachable_observer fd q"
    and "getenv (environ q) (insert_name (build_os p)) = Some (take (2047 - length (INSERT_LIBS (build_os p)))
         (preload_value (getenv xenvp (insert_name (build_os p))) libs))"
proof -
  have "instrumented q libs os sp \<and> getenv (environ q) (insert_name (build_os p))
      = Some (take (2047 - length (INSERT_LIBS (build_os p))) (preload_value (getenv xenvp (insert_name (build_os p))) libs))"
    by (rule exec_child_instrumented [OF assms(2-9)]) (use assms(10) in \<open>simp add: started_as_def\<close>)
  then show "prepared (served_ctx sfx srv ctx) (environ q)" "reachable_observer fd q"
    "getenv (environ q) (insert_name (build_os p)) = Some (take (2047 - length (INSERT_LIBS (build_os p)))
         (preload_value (getenv xenvp (insert_name (build_os p))) libs))"
    using assms(1,2,10) by (auto simp: prepared_def instrumented_def reachable_observer_def started_as_def)
qed

lemma exec_run_reported:
  assumes "prepared (served_ctx sfx srv ctx) (environ p)" and "reachable_observer fd p" and "started_as env fd p"
    and "instrumented p libs os sp" and "answers p \<noteq> []" and "env_room p xenvp"
    and "length xargv + 1 < 2 ^ 31" and "length xenvp + 1 < 2 ^ 31"
    and "options = exec_opts (silenced ctx) AND 0x1F" and "evs = exec_events p options xpath xargv xenvp"
    and "length (enc_msgs options evs) + 4 \<le> takes (wsys p)"
  shows "exec_outcome fd p (enc_msgs options evs) (Next_Execve xpath (Some xargv) (augmented_env (build_os p) xenvp libs os sp))
    (voyeur_execve xpath (Some xargv) (Some xenvp) p)"
proof -
  have soft: "soft_w (wsys p)" "close_errs p = []" using assms(3) by (simp_all add: started_as_def)
  have os: "getenv (environ p) ''LIBVOYEUR_OPTS'' = Some os" using assms(4) by (simp add: instrumented_def)
  have "unat (event_type_val VOYEUR_EVENT_EXEC) = 0" by simp
  moreover have "event_opts (served_ctx sfx srv ctx) VOYEUR_EVENT_EXEC = exec_opts (silenced ctx)"
    unfolding served_opts by simp
  ultimately have o: "options = voyeur_decode_options (Some os) 0"
    using assms(1) unfolding prepared_def os assms(9) by metis
  have rep: "exec_report p options xpath xargv xenvp (self_pid p) (parent_pid p) = enc_msgs options evs"
    unfolding assms(10) by (rule exec_report_events)
  show ?thesis
    unfolding rep [symmetric] voyeur_execve_def
    by (rule exec_through_run [OF assms(2,4) o _ _ soft(1) _ soft(2) assms(6,5)])
      (use assms(7,8,11) rep in simp_all)
qed

text \<open>
  C3: a program that execs, observed by \<open>voyeur_exec\<close>, with the new image opening files: the exec is
  reported as the context asks (not at all without a callback for it), the call is passed on with an
  environment that carries the instrumentation and preloads the libraries, although the program's own
  choice of an environment did not, and the files that the new image opens are reported over a
  connection of its own. The server
  calls the exec callback with the path, the arguments and the identifiers, then the open callback once
  per file, and \<open>voyeur_exec\<close> returns 0.
\<close>

theorem program_execs:
  assumes "can_prepare sfx srv dli_fname behind ctx envp h" and "can_serve srv r w [cl1, cl2] (room1 + room2) h"
    and "spawns h = Some pid # ps" and "started_as (child_env dli_fname behind ctx envp h) fd1 p"
    and "instrumented p libs os sp" and "length libs \<le> 2030" and "length os \<le> 2030" and "length sp \<le> 2030"
    and "answers p \<noteq> []" and "env_room p xenvp"
    and "getenv xenvp ''LIBVOYEUR_LIBS'' \<in> {None, Some libs}" and "getenv xenvp ''LIBVOYEUR_OPTS'' \<in> {None, Some os}"
    and "getenv xenvp ''LIBVOYEUR_SOCKET'' \<in> {None, Some sp}"
    and "length (filter (is_insert (INSERT_LIBS (build_os p))) xenvp) \<le> 1"
    and "length xargv + 1 < 2 ^ 31" and "length xenvp + 1 < 2 ^ 31"
    and "max 4097 (8 * (max (length xargv) (length xenvp) + 1)) \<le> mem_max h"
    and "evs = exec_events p (exec_opts (silenced ctx) AND 0x1F) xpath xargv xenvp"
    and "room1 = length (enc_msgs (exec_opts (silenced ctx) AND 0x1F) evs)" and "room1 + 4 \<le> takes (wsys p)"
    and "started_as (Some (augmented_env (build_os p) xenvp libs os sp)) fd2 q"
    and "\<not> lib_initialized (open_vars q)" and "Open_Mutex \<notin> locked q"
    and "cs \<noteq> []" and "calls_given (build_os q) cs" and "length cs \<le> length (answers q)"
    and "room2 = open_room q (open_opts ctx AND 0x1F) cs" and "4 + room2 \<le> takes (wsys q)"
  shows "\<exists>report rs t bs ctx2 h2.
      exec_outcome fd1 p report (Next_Execve xpath (Some xargv) (environ q)) (voyeur_execve xpath (Some xargv) (Some xenvp) p)
    \<and> getenv (environ q) (insert_name (build_os p)) = Some (take (2047 - length (INSERT_LIBS (build_os p)))
         (preload_value (getenv xenvp (insert_name (build_os p))) libs))
    \<and> open_run cs q = Ok rs t \<and> passed t = passed q @ next_opens (build_os q) cs \<and> closed t = closed q @ [(fd2, bs)]
    \<and> voyeur_exec waits dli_fname behind ctx path argv envp
        (hears srv r [(cl1, report @ enc_done, length evs), (cl2, bs, length cs)] h) = Ok (0, ctx2) h2
    \<and> calls h2 = calls h @ concat (map (event_calls ctx (build_os h)) (evs @ open_events q cs rs))"
proof -
  let ?o1 = "exec_opts (silenced ctx) AND 0x1F" and ?o2 = "open_opts ctx AND 0x1F"
  note p = started_observed [OF assms(1,4)]
  note q = image_observed [OF p(1) assms(5-8,11-14,21)]
  have softq: "soft_w (wsys q)" "close_errs q = []" using assms(21) by (simp_all add: started_as_def)
  have env_q: "environ q = augmented_env (build_os p) xenvp libs os sp" using assms(21) by (simp add: started_as_def)
  have run: "exec_outcome fd1 p (enc_msgs ?o1 evs) (Next_Execve xpath (Some xargv) (environ q)) (voyeur_execve xpath (Some xargv) (Some xenvp) p)"
    unfolding env_q by (rule exec_run_reported [OF p(1,2) assms(4,5,9,10,15,16) refl assms(18)]) (use assms(19,20) in simp)
  obtain rs t where t: "open_run cs q = Ok rs t" "length rs = length cs"
    "closed t = closed q @ [(fd2, enc_msgs ?o2 (open_events q cs rs) @ enc_done)]"
    "passed t = passed q @ next_opens (build_os q) cs"
    using open_run_stream [OF assms(22,23) q(2) assms(24,25,26) served_open_opts [OF q(1)] softq(1)] assms(27,28) softq(2) by auto
  let ?x = "\<lparr>str_client = cl1, str_type = VOYEUR_EVENT_EXEC, str_events = evs, str_rest = []\<rparr>"
  let ?y = "\<lparr>str_client = cl2, str_type = VOYEUR_EVENT_OPEN, str_events = open_events q cs rs, str_rest = []\<rparr>"
  have x: "stream_msgs (silenced ctx) ?x = enc_msgs ?o1 evs" by (simp add: stream_msgs_def)
  have y: "stream_msgs (silenced ctx) ?y = enc_msgs ?o2 (open_events q cs rs)"
    by (simp add: stream_msgs_def silenced_fields)
  have serve: "can_serve srv r w (map str_client [?x, ?y]) (length (concat (map (stream_msgs (silenced ctx)) [?x, ?y]))) h"
    using assms(2) by (simp add: x y assms(19,27) length_open_msgs [OF t(2)])
  have "4097 \<le> mem_max h" using assms(1) by (simp add: can_prepare_def)
  then have "stream_ok h ?y" using open_events_facts by (fastforce simp: stream_ok_def)
  moreover have "stream_ok h ?x" unfolding stream_ok_def
    using exec_events_facts [OF _ assms(15-17)] by (auto simp: assms(18))
  ultimately have ok: "\<forall>x \<in> set [?x, ?y]. stream_ok h x
      \<and> (exec_cb ctx = None \<and> str_type x = VOYEUR_EVENT_EXEC \<longrightarrow> str_events x = [])"
    using silent_exec_events [of ctx p xpath xargv xenvp] by (simp add: assms(18))
  obtain ctx2 h2 where h2: "voyeur_exec waits dli_fname behind ctx path argv envp
      (hears srv r (map (stream_conn (silenced ctx)) [?x, ?y]) h) = Ok (0, ctx2) h2"
    "calls h2 = calls h @ concat (map (event_calls ctx (build_os h)) (streams_events [?x, ?y]))"
    by (rule exec_hears [OF assms(1,3) serve ok p(3), of waits path argv])
  have "length (open_events q cs rs) = length cs" using t(2) by (rule length_open_events)
  then show ?thesis using run q(3) t(1,3,4) h2
    by (intro exI [of _ "enc_msgs ?o1 evs"] exI [of _ rs] exI [of _ t] exI [of _ "enc_msgs ?o2 (open_events q cs rs) @ enc_done"]
        exI [of _ ctx2] exI [of _ h2]) (simp add: stream_conn_def x y)
qed

section \<open>A sample\<close>

text \<open>What the sample program of \<open>Program_Run\<close> finds in its environment.\<close>

lemma ex_env_instrumented:
  obtains env libs os sp where "ex_env = Some env" "instrumented (ex_proc\<lparr>environ := env\<rparr>) libs os sp"
    "length libs \<le> 2030" "length os \<le> 2030" "length sp \<le> 2030"
proof -
  let ?libs = "''/usr/lib/libvoyeur-exec.so:/usr/lib/libvoyeur-exit.so:/usr/lib/libvoyeur-open.so:/usr/lib/libvoyeur-close.so''"
  let ?os = "map voyeur_encode_options (map (event_opts (silenced ex_watch)) MAP_EVENTS)"
  let ?sp = "take 18 sockdir_template @ ''Ab3dEf/socket''"
  have n: "length ?os \<le> 2030" "length ?sp \<le> 2030" by (simp_all add: length_template VOYEUR_EVENT_MAX_def)
  obtain env where env: "ex_env = Some env" "env = augmented_env Linux [''PATH=/bin''] ?libs ?os ?sp"
    by (rule prepare_hears [OF ex_can_prepare]) (simp add: ex_requested)
  have pre: "length (filter (is_insert (INSERT_LIBS Linux)) [''PATH=/bin'']) \<le> 1" by code_simp
  have get: "getenv [''PATH=/bin''] v = None" if "v \<in> {''LIBVOYEUR_LIBS'', ''LIBVOYEUR_OPTS'', ''LIBVOYEUR_SOCKET''}" for v
    using that by (auto simp: getenv_prefix)
  have "getenv env v = abs_augment Linux ?libs ?os ?sp (getenv [''PATH=/bin'']) v" if "CHR ''='' \<notin> set v" for v
    unfolding env(2) using that pre by (rule getenv_augmented)
  then have "instrumented (ex_proc\<lparr>environ := env\<rparr>) ?libs ?os ?sp"
    using get n by (simp add: instrumented_def abs_augment_def insert_name_def del: map_map)
  with env(1) n show ?thesis by (intro that [of env ?libs ?os ?sp]) simp_all
qed

theorem program_execs_witness:
  "\<exists>env env' report rs t bs ctx2 h2. ex_env = Some env \<and> getenv env' ''LD_PRELOAD'' = getenv env ''LIBVOYEUR_LIBS''
    \<and> exec_outcome 5 (ex_proc\<lparr>environ := env\<rparr>) report (Next_Execve (Some ''/bin/x'') (Some [''x'']) env')
        (voyeur_execve (Some ''/bin/x'') (Some [''x'']) (Some [''HOME=/r'']) (ex_proc\<lparr>environ := env\<rparr>))
    \<and> open_run ex_calls (ex_proc\<lparr>environ := env'\<rparr>) = Ok rs t \<and> closed t = [(5, bs)]
    \<and> voyeur_exec (\<lambda>_. 0x300) (Some ''/usr/lib/libvoyeur.so'') [NUL] ex_watch ''/bin/x'' [''x''] [''PATH=/bin'']
        (hears 4 6 [(8, report @ enc_done, 1), (8, bs, 2)] ex_runner) = Ok (0, ctx2) h2
    \<and> calls h2 = [Call 10 (ExecArgs ''/bin/x'' [''x''] None None None 7 1) 1,
         Call 12 (OpenArgs ''/tmp/f'' 0x41 0x1A4 (Some ''/r'') (rs ! 0) 7) 3,
         Call 12 (OpenArgs [] 0 0 (Some ''/r'') (rs ! 1) 7) 3]"
proof -
  obtain env libs os sp where env: "ex_env = Some env" "instrumented (ex_proc\<lparr>environ := env\<rparr>) libs os sp"
    "length libs \<le> 2030" "length os \<le> 2030" "length sp \<le> 2030"
    by (rule ex_env_instrumented)
  let ?p = "ex_proc\<lparr>environ := env\<rparr>"
  let ?env = "augmented_env Linux [''HOME=/r''] libs os sp"
  let ?q = "ex_proc\<lparr>environ := ?env\<rparr>"
  have q: "started_as (Some ?env) 5 ?q" by (simp add: started_as_def)
  have evs: "exec_events ?p 0 (Some ''/bin/x'') [''x''] [''HOME=/r'']
      = [Exec_Event ''/bin/x'' [''x''] [''HOME=/r''] (getenv env ''PATH'') (Some ''/r'') 7 1]" (is "_ = ?evs")
    by (simp add: exec_events_def exec_reported_def exec_event_def ptr_str_def has_flag_def ex_proc_def)
  have room1: "length (enc_msgs 0 ?evs) \<le> 80"
    by (simp add: enc_msg_def enc_strs_def enc_str_def str_sent_eq has_flag_def)
  have "open_room ?q 1 ex_calls = open_room ex_proc 1 ex_calls" by (simp add: open_room_def open_events_environ)
  then have room2: "4 + open_room ?q 1 ex_calls \<le> takes (wsys ?q)" "open_room ?q 1 ex_calls \<le> 396"
    using ex_calls_room by simp_all
  have serve: "can_serve 4 6 7 [8, 8] (length (enc_msgs 0 ?evs) + open_room ?q 1 ex_calls) ex_runner"
    using room1 room2(2) by (simp add: can_serve_def ex_runner_def FD_SETSIZE_def ex_sys_def)
  have o: "exec_opts (silenced ex_watch) AND 0x1F = 0" "open_opts ex_watch AND 0x1F = 1" by (simp_all add: silenced_def)
  have get: "getenv [''HOME=/r''] v = None" if "v \<in> {''LIBVOYEUR_LIBS'', ''LIBVOYEUR_OPTS'', ''LIBVOYEUR_SOCKET''}" for v
    using that by (auto simp: getenv_prefix)
  have pre: "length (filter (is_insert (INSERT_LIBS (build_os ?p))) [''HOME=/r'']) \<le> 1" by (simp add: is_insert_def)
  have room: "env_room ?p [''HOME=/r'']" by (simp add: env_room_def ex_proc_def)
  have name: "insert_name (build_os ?p) = ''LD_PRELOAD''" by (simp add: insert_name_def)
  have load: "take (2047 - length (INSERT_LIBS (build_os ?p))) (preload_value (getenv [''HOME=/r''] ''LD_PRELOAD'') libs) = libs"
    using env(3) by (simp add: preload_value_def getenv_prefix INSERT_LIBS_def)
  have "\<exists>report rs t bs ctx2 h2. exec_outcome 5 ?p report (Next_Execve (Some ''/bin/x'') (Some [''x'']) (environ ?q))
        (voyeur_execve (Some ''/bin/x'') (Some [''x'']) (Some [''HOME=/r'']) ?p)
    \<and> getenv (environ ?q) (insert_name (build_os ?p)) = Some (take (2047 - length (INSERT_LIBS (build_os ?p)))
         (preload_value (getenv [''HOME=/r''] (insert_name (build_os ?p))) libs))
    \<and> open_run ex_calls ?q = Ok rs t \<and> passed t = passed ?q @ next_opens (build_os ?q) ex_calls \<and> closed t = closed ?q @ [(5, bs)]
    \<and> voyeur_exec (\<lambda>_. 0x300) (Some ''/usr/lib/libvoyeur.so'') [NUL] ex_watch ''/bin/x'' [''x''] [''PATH=/bin'']
        (hears 4 6 [(8, report @ enc_done, length ?evs), (8, bs, length ex_calls)] ex_runner) = Ok (0, ctx2) h2
    \<and> calls h2 = calls ex_runner @ concat (map (event_calls ex_watch (build_os ex_runner)) (?evs @ open_events ?q ex_calls rs))"
    by (rule program_execs [OF ex_can_prepare serve _ ex_started [OF env(1)] env(2-5) _ room _ _ _ pre])
      (use get evs room1 room2(1) q o in simp_all)
  then obtain report rs t bs ctx2 h2 where r:
    "exec_outcome 5 ?p report (Next_Execve (Some ''/bin/x'') (Some [''x'']) ?env)
        (voyeur_execve (Some ''/bin/x'') (Some [''x'']) (Some [''HOME=/r'']) ?p)"
    "getenv ?env ''LD_PRELOAD'' = Some libs" "open_run ex_calls ?q = Ok rs t" "closed t = [(5, bs)]"
    "voyeur_exec (\<lambda>_. 0x300) (Some ''/usr/lib/libvoyeur.so'') [NUL] ex_watch ''/bin/x'' [''x''] [''PATH=/bin'']
        (hears 4 6 [(8, report @ enc_done, 1), (8, bs, 2)] ex_runner) = Ok (0, ctx2) h2"
    "calls h2 = concat (map (event_calls ex_watch Linux) ?evs) @ concat (map (event_calls ex_watch Linux) (open_events ex_proc ex_calls rs))"
    unfolding name load by (auto simp: open_events_environ)
  have c: "concat (map (event_calls ex_watch Linux) ?evs) = [Call 10 (ExecArgs ''/bin/x'' [''x''] None None None 7 1) 1]"
    by (simp add: event_calls_def calls_of_def str_seen_short has_flag_def)
  have "length rs = 2" using open_run_length [OF r(3)] by simp
  moreover have "getenv env ''LIBVOYEUR_LIBS'' = Some libs" using env(2) by (simp add: instrumented_def)
  ultimately show ?thesis using r env(1) c ex_open_calls [of rs]
    by (intro exI [of _ env] exI [of _ ?env] exI [of _ report] exI [of _ rs] exI [of _ t] exI [of _ bs] exI [of _ ctx2] exI [of _ h2]) simp
qed

end
