(* ===== verification/Fork.thy ===== *)
theory Fork
  imports Program_Run
begin

unbundle bit_operations_syntax

text \<open>
  A program that forks, under \<open>src/voyeur-open.c\<close>. The child has copies of the library's variables, and
  its descriptors refer to the same open connections as its parent's: whatever one of the two writes
  goes into the one stream that the server reads, and that includes the end of the stream.
\<close>

section \<open>Two processes with one connection\<close>

text \<open>
  What \<open>fork\<close> leaves in the child: everything but the identifiers. The kernel answers the child's calls
  on their own, here by \<open>ans\<close> and \<open>w\<close>.
\<close>

definition fork_child :: "pid_t \<Rightarrow> cint list \<Rightarrow> wr list \<Rightarrow> 'z process_scheme \<Rightarrow> 'z process_scheme" where
  "fork_child c ans w s = s\<lparr>self_pid := c, parent_pid := self_pid s, answers := ans, wsys := w\<rparr>"

text \<open>
  The bytes on a connection that parent \<open>s\<close> and child \<open>u\<close> share: what the child left there when it
  closed its descriptor, else what has been written up to now.
\<close>

definition shared_bytes :: "'z process_scheme \<Rightarrow> 'z process_scheme \<Rightarrow> int \<Rightarrow> byte list" where
  "shared_bytes s u fd = (case map_of (drop (length (closed s)) (closed u)) fd of
       Some bs \<Rightarrow> bs | None \<Rightarrow> written fd u)"

text \<open>The parent when it goes on after the child.\<close>

definition parent_after :: "'z process_scheme \<Rightarrow> 'z process_scheme \<Rightarrow> 'z process_scheme" where
  "parent_after s u = s\<lparr>fdt := (\<lambda>fd. map_option (\<lambda>d. d\<lparr>sent := shared_bytes s u fd\<rparr>) (fdt s fd))\<rparr>"

text \<open>
  The program opens some files and calls \<open>vfork\<close>; the child opens files and exits; the parent, which
  waits for it, opens more files and exits. A \<open>vfork\<close> that fails leaves no child.
\<close>

definition fork_run :: "cint list \<Rightarrow> wr list \<Rightarrow> open_call list \<Rightarrow> open_call list \<Rightarrow> open_call list
    \<Rightarrow> (cint list \<times> 'z process_scheme option, 'z process_scheme) io" where
  "fork_run ans w before child after =
     io_bind (open_calls before) (\<lambda>rs.
     io_bind voyeur_vfork (\<lambda>c.
     if sint c < 0 then io_bind (open_run after) (\<lambda>rs'. io_ret (rs @ rs', None))
     else (\<lambda>s. case open_run child (fork_child c ans w s) of
         Ok _ u \<Rightarrow> io_bind (open_run after) (\<lambda>rs'. io_ret (rs @ rs', Some u)) (parent_after s u)
       | Fault \<Rightarrow> Fault | Blocked \<Rightarrow> Blocked | Exited u \<Rightarrow> Exited u | Fail u \<Rightarrow> Fail u)))"

section \<open>What is on the wire\<close>

lemma fork_child_fields [simp]:
  "open_vars (fork_child c ans w s) = open_vars s" "locked (fork_child c ans w s) = locked s"
  "build_os (fork_child c ans w s) = build_os s" "answers (fork_child c ans w s) = ans"
  "wsys (fork_child c ans w s) = w" "close_errs (fork_child c ans w s) = close_errs s"
  "closed (fork_child c ans w s) = closed s" "passed (fork_child c ans w s) = passed s"
  "written fd (fork_child c ans w s) = written fd s" "self_pid (fork_child c ans w s) = c"
  "attached v fd (fork_child c ans w s) = attached v fd s"
  by (simp_all add: fork_child_def written_def attached_def connected_def)

lemma fork_child_same: "same_proc s t \<Longrightarrow> same_proc (fork_child c ans w s) (fork_child c ans w t)"
  by (simp add: same_proc_def fork_child_def)

lemma parent_after_fields [simp]:
  "open_vars (parent_after s u) = open_vars s" "locked (parent_after s u) = locked s"
  "build_os (parent_after s u) = build_os s" "answers (parent_after s u) = answers s"
  "wsys (parent_after s u) = wsys s" "close_errs (parent_after s u) = close_errs s"
  "closed (parent_after s u) = closed s" "passed (parent_after s u) = passed s" "same_proc s (parent_after s u)"
  "attached v fd (parent_after s u) = attached v fd s"
  by (auto simp: parent_after_def same_proc_def attached_def connected_def)

lemma parent_after_written:
  "connected fd s \<Longrightarrow> closed u = closed s @ [(fd, bs)] \<Longrightarrow> written fd (parent_after s u) = bs"
  by (auto simp: parent_after_def shared_bytes_def written_def connected_def)

lemma open_room_same: "same_proc s t \<Longrightarrow> build_os t = build_os s \<Longrightarrow> open_room t options cs = open_room s options cs"
  by (simp add: open_room_def open_events_same)

lemma calls_given_append [simp]: "calls_given p (xs @ ys) \<longleftrightarrow> calls_given p xs \<and> calls_given p ys"
  by (simp add: calls_given_def)

lemma fork_run_stream:
  assumes "\<not> lib_initialized (open_vars p)" and "Open_Mutex \<notin> locked p" and "reachable_observer fd p"
    and "before \<noteq> []" and "calls_given (build_os p) (before @ child @ after)"
    and "length before + length after \<le> length (answers p)" and "length child \<le> length ans"
    and "child_pids p = c # cps" and "0 \<le> sint c"
    and o: "options = voyeur_decode_options (getenv (environ p) ''LIBVOYEUR_OPTS'') 2"
    and "soft_w (wsys p)" and "4 + open_room p options before + open_room p options after \<le> takes (wsys p)"
    and "soft_w w" and "4 + open_room (fork_child c ans w p) options child \<le> takes w" and "close_errs p = []"
  obtains rs1 rs2 rs3 u t where "fork_run ans w before child after p = Ok (rs1 @ rs3, Some u) t"
    "length rs1 = length before" "length rs2 = length child" "length rs3 = length after"
    "closed t = closed p @ [(fd, enc_msgs options (open_events p before rs1)
       @ enc_msgs options (open_events (fork_child c ans w p) child rs2) @ enc_done
       @ enc_msgs options (open_events p after rs3) @ enc_done)]"
    "passed t = passed p @ next_opens (build_os p) before @ next_opens (build_os p) after"
    "passed u = passed p @ next_opens (build_os p) before @ next_opens (build_os p) child"
proof -
  obtain q where q: "open_calls before p = open_calls before q" "attached (open_vars q) fd q"
    "lib_opts (open_vars q) = options" "written fd q = []" "wsys q = wsys p" "answers q = answers p"
    "passed q = passed p" "build_os q = build_os p" "locked q = locked p" "close_errs q = close_errs p"
    "closed q = closed p" "same_proc p q" "child_pids q = child_pids p"
    by (rule open_attaches [OF assms(1-4) o])
  have given: "calls_given (build_os p) before" "calls_given (build_os p) child" "calls_given (build_os p) after"
    using assms(5) by simp_all
  have room: "(4 + open_room p options after) + open_room q (lib_opts (open_vars q)) before \<le> takes (wsys q)"
    using assms(12) q(3,5) open_room_same [OF q(12,8)] by simp
  have pre: "Open_Mutex \<notin> locked q" "calls_given (build_os q) before" "length before \<le> length (answers q)" "soft_w (wsys q)"
    using q assms(2,6,11) given by simp_all
  from open_calls_attached [OF q(2) pre room] obtain rs1 s1 where
    s1: "open_calls before q = Ok rs1 s1" "length rs1 = length before" "attached (open_vars s1) fd s1"
      "written fd s1 = enc_msgs options (open_events q before rs1)" "soft_w (wsys s1)"
      "4 + open_room p options after \<le> takes (wsys s1)" "locked s1 = locked p"
      "passed s1 = passed p @ next_opens (build_os p) before" "close_errs s1 = []" "closed s1 = closed p"
      "lib_opts (open_vars s1) = options" "same_proc q s1" "build_os s1 = build_os p" "child_pids s1 = c # cps"
      "answers s1 = drop (length before) (answers p)"
    using q assms(8,15) by auto
  let ?s = "s1\<lparr>child_pids := cps\<rparr>"
  have same: "same_proc p ?s" using same_proc_trans [OF q(12) s1(12)] by (simp add: same_proc_def)
  have at: "attached (open_vars ?s) fd ?s" using s1(3) by (auto simp: attached_def connected_def)
  have wr: "written fd ?s = enc_msgs options (open_events p before rs1)"
    using s1(4) open_events_same [OF q(12,8)] by (simp add: written_def)
  let ?u = "fork_child c ans w ?s"
  have room_u: "open_room ?u options child = open_room (fork_child c ans w p) options child"
    using open_room_same [OF fork_child_same [OF same]] s1(13) by simp
  have ev_u: "open_events ?u child rs = open_events (fork_child c ans w p) child rs" for rs
    using open_events_same [OF fork_child_same [OF same]] s1(13) by simp
  have pre_u: "attached (open_vars ?u) fd ?u" "Open_Mutex \<notin> locked ?u" "calls_given (build_os ?u) child"
    "length child \<le> length (answers ?u)" "soft_w (wsys ?u)"
    "4 + open_room ?u (lib_opts (open_vars ?u)) child \<le> takes (wsys ?u)" "close_errs ?u = []"
    using at s1 assms(2,7,13,14) given room_u by simp_all
  obtain rs2 u where u: "open_run child ?u = Ok rs2 u" "length rs2 = length child"
    "closed u = closed ?s @ [(fd, written fd ?s @ enc_msgs options (open_events (fork_child c ans w p) child rs2) @ enc_done)]"
    "passed u = passed p @ next_opens (build_os p) before @ next_opens (build_os p) child"
    by (rule open_run_attached [OF pre_u]) (use s1 ev_u in auto)
  let ?t = "parent_after ?s u"
  have same_t: "same_proc p ?t" by (rule same_proc_trans [OF same parent_after_fields(9)])
  have pre_t: "attached (open_vars ?t) fd ?t" "Open_Mutex \<notin> locked ?t" "calls_given (build_os ?t) after"
    "length after \<le> length (answers ?t)" "soft_w (wsys ?t)"
    "4 + open_room ?t (lib_opts (open_vars ?t)) after \<le> takes (wsys ?t)" "close_errs ?t = []"
    using at s1 assms(2,6) given open_room_same [OF same_t] by simp_all
  have conn: "connected fd ?s" using at by (simp add: attached_def)
  note wr_t = parent_after_written [OF conn u(3)]
  obtain rs3 t where t: "open_run after ?t = Ok rs3 t" "length rs3 = length after"
    "closed t = closed p @ [(fd, written fd ?t @ enc_msgs options (open_events p after rs3) @ enc_done)]"
    "passed t = passed p @ next_opens (build_os p) before @ next_opens (build_os p) after"
    by (rule open_run_attached [OF pre_t]) (use s1 open_events_same [OF same_t] in auto)
  have vf: "voyeur_vfork s1 = Ok c ?s" using s1(14) by (simp add: voyeur_vfork_def real_fork_def)
  have run: "fork_run ans w before child after p = Ok (rs1 @ rs3, Some u) t"
    using q(1) s1(1) vf u(1) t(1) assms(9) by (simp add: fork_run_def)
  show ?thesis
    by (rule that [OF run s1(2) u(2) t(2) _ t(4) u(4)]) (simp add: t(3) wr_t wr)
qed

section \<open>What the observer gets\<close>

lemma enc_msgs_append: "enc_msgs options (xs @ ys) = enc_msgs options xs @ enc_msgs options ys"
  by (simp add: enc_msgs_def)

text \<open>
  C17: a program that forks, observed by \<open>voyeur_exec\<close>: parent and child pass every call on, but they send
  over one connection, and the child's destructor ends the stream for both. The callbacks of what the
  parent opened before and of what the child opened are made, the child's with its own identifier; the
  messages that the parent sends after the child has exited are on the wire behind the end, and the
  observer, which has closed the connection, never reads them.
\<close>

theorem program_forks:
  assumes "can_prepare sfx srv dli_fname behind ctx envp h" and "can_serve srv r w [cl] (room1 + room2) h"
    and "spawns h = Some pid # ps" and "started_as (child_env dli_fname behind ctx envp h) fd p"
    and "\<not> lib_initialized (open_vars p)" and "Open_Mutex \<notin> locked p"
    and "before \<noteq> []" and "calls_given (build_os p) (before @ child @ after)"
    and "length before + length after \<le> length (answers p)" and "length child \<le> length ans"
    and "child_pids p = c # cps" and "0 \<le> sint c"
    and "room1 = open_room p (open_opts ctx AND 0x1F) before"
    and "room2 = open_room (fork_child c ans cw p) (open_opts ctx AND 0x1F) child"
    and "4 + room1 + open_room p (open_opts ctx AND 0x1F) after \<le> takes (wsys p)"
    and "soft_w cw" and "4 + room2 \<le> takes cw"
  shows "\<exists>rs1 rs2 rs3 u t bs ctx2 h2. fork_run ans cw before child after p = Ok (rs1 @ rs3, Some u) t
    \<and> length rs1 = length before \<and> length rs2 = length child \<and> length rs3 = length after
    \<and> passed t = passed p @ next_opens (build_os p) before @ next_opens (build_os p) after
    \<and> passed u = passed p @ next_opens (build_os p) before @ next_opens (build_os p) child
    \<and> closed t = closed p @ [(fd, bs)]
    \<and> bs = enc_msgs (open_opts ctx AND 0x1F) (open_events p before rs1 @ open_events (fork_child c ans cw p) child rs2)
        @ enc_done @ enc_msgs (open_opts ctx AND 0x1F) (open_events p after rs3) @ enc_done
    \<and> voyeur_exec waits dli_fname behind ctx path argv envp (hears srv r [(cl, bs, length before + length child)] h) = Ok (0, ctx2) h2
    \<and> calls h2 = calls h @ concat (map (event_calls ctx (build_os h))
        (open_events p before rs1 @ open_events (fork_child c ans cw p) child rs2))"
proof -
  let ?o = "open_opts ctx AND 0x1F" and ?c = "fork_child c ans cw p"
  note started = started_observed [OF assms(1,4)]
  have soft: "soft_w (wsys p)" "close_errs p = []" using assms(4) by (simp_all add: started_as_def)
  have o: "?o = voyeur_decode_options (getenv (environ p) ''LIBVOYEUR_OPTS'') 2"
    by (rule started_open_opts [OF assms(1,4)])
  obtain rs1 rs2 rs3 u t where f: "fork_run ans cw before child after p = Ok (rs1 @ rs3, Some u) t"
    "length rs1 = length before" "length rs2 = length child" "length rs3 = length after"
    "closed t = closed p @ [(fd, enc_msgs ?o (open_events p before rs1) @ enc_msgs ?o (open_events ?c child rs2) @ enc_done
       @ enc_msgs ?o (open_events p after rs3) @ enc_done)]"
    "passed t = passed p @ next_opens (build_os p) before @ next_opens (build_os p) after"
    "passed u = passed p @ next_opens (build_os p) before @ next_opens (build_os p) child"
    by (rule fork_run_stream [OF assms(5,6) started(2) assms(7-12) o soft(1) _ assms(16) _ soft(2)])
      (use assms(13-17) in simp_all)
  let ?evs = "open_events p before rs1 @ open_events ?c child rs2"
  have n: "length ?evs = length before + length child" using f(2,3) by (simp add: length_open_events)
  have serve: "can_serve srv r w [cl] (length (enc_msgs ?o ?evs)) h"
    unfolding enc_msgs_append length_append length_open_msgs [OF f(2)] length_open_msgs [OF f(3)]
    using assms(2,13,14) by simp
  have "4097 \<le> mem_max h" using assms(1) by (simp add: can_prepare_def)
  then have evs: "\<And>ev. ev \<in> set ?evs \<Longrightarrow> event_type ev = VOYEUR_EVENT_OPEN \<and> event_wf ev \<and> event_need ev \<le> mem_max h"
    using open_events_facts by fastforce
  obtain ctx2 h2 where h2: "voyeur_exec waits dli_fname behind ctx path argv envp
      (hears srv r [(cl, enc_msgs ?o ?evs @ enc_done @ enc_msgs ?o (open_events p after rs3) @ enc_done, length ?evs)] h) = Ok (0, ctx2) h2"
    "calls h2 = calls h @ concat (map (event_calls ctx (build_os h)) ?evs)"
    by (rule exec_hears_one [OF assms(1) serve assms(3) _ _ evs started(3), where waits = waits and path = path
        and argv = argv and rest = "enc_msgs ?o (open_events p after rs3) @ enc_done"]) simp_all
  from f(1-4,6,7) f(5) h2 n show ?thesis
    by (intro exI [of _ rs1] exI [of _ rs2] exI [of _ rs3] exI [of _ u] exI [of _ t]
        exI [of _ "enc_msgs ?o ?evs @ enc_done @ enc_msgs ?o (open_events p after rs3) @ enc_done"]
        exI [of _ ctx2] exI [of _ h2]) (simp add: enc_msgs_append)
qed

definition ex_open :: "string \<Rightarrow> open_call list" where
  "ex_open f = [(Some f, 0, None)]"

lemma ex_open_facts [simp]:
  "length (ex_open f) = 1" "ex_open f \<noteq> []" "calls_given Linux (ex_open f)"
  "next_opens Linux (ex_open f) = [Next_Open (Some f) 0 None]"
  by (simp_all add: ex_open_def calls_given_def mode_given_def open_mode_def O_CREAT_def)

lemma ex_open_room: "length f \<le> 4 \<Longrightarrow> length d \<le> 4 \<Longrightarrow> cur_dir s = Some d \<Longrightarrow> open_room s 1 (ex_open f) \<le> 48"
  using str_sent_eq [of "Some f"] str_sent_eq [of "Some d"] 
  by (simp add: open_room_def ex_open_def open_event_def length_enc_open ptr_str_def)

lemma ex_open_call:
  "length rs = 1 \<Longrightarrow> build_os s = Linux \<Longrightarrow> cstr f \<Longrightarrow> length f \<le> 4 \<Longrightarrow> cstr d \<Longrightarrow> length d \<le> 4 \<Longrightarrow> cur_dir s = Some d \<Longrightarrow>
   concat (map (event_calls ex_watch Linux) (open_events s (ex_open f) rs))
     = [Call 12 (OpenArgs f 0 0 (Some d) (rs ! 0) (self_pid s)) 3]"
  by (cases rs) (simp_all add: ex_open_def open_event_def event_calls_def calls_of_def open_mode_def O_CREAT_def mode_cast_def
      ptr_str_def has_flag_def flag_defs str_seen_short)

theorem program_forks_witness:
  "\<exists>env rs1 rs2 rs3 u t bs ctx2 h2. ex_env = Some env
    \<and> fork_run [8] (replicate 400 (Take 2)) (ex_open ''/a'') (ex_open ''/b'') (ex_open ''/c'') (ex_proc\<lparr>environ := env\<rparr>)
        = Ok (rs1 @ rs3, Some u) t
    \<and> passed t = [Next_Open (Some ''/a'') 0 None, Next_Open (Some ''/c'') 0 None] \<and> closed t = [(5, bs)]
    \<and> voyeur_exec (\<lambda>_. 0x300) (Some ''/usr/lib/libvoyeur.so'') [NUL] ex_watch ''/bin/x'' [''x''] [''PATH=/bin'']
        (hears 4 6 [(8, bs, 2)] ex_runner) = Ok (0, ctx2) h2
    \<and> calls h2 = [Call 12 (OpenArgs ''/a'' 0 0 (Some ''/r'') (rs1 ! 0) 7) 3, Call 12 (OpenArgs ''/b'' 0 0 (Some ''/r'') (rs2 ! 0) 9) 3]"
proof -
  obtain env where env: "ex_env = Some env" using ex_env_some by blast
  let ?p = "ex_proc\<lparr>environ := env\<rparr>" and ?w = "replicate 400 (Take 2)"
  let ?c = "fork_child 9 [8] ?w ?p"
  have room: "open_room ?p 1 (ex_open ''/a'') \<le> 48" "open_room ?c 1 (ex_open ''/b'') \<le> 48" "open_room ?p 1 (ex_open ''/c'') \<le> 48"
    by (rule ex_open_room [of _ "''/r''"]; simp add: fork_child_def)+
  have serve: "can_serve 4 6 7 [8] (open_room ?p 1 (ex_open ''/a'') + open_room ?c 1 (ex_open ''/b'')) ex_runner"
    by (rule ex_can_serve) (use room in linarith)
  have kids: "child_pids ?p = [9]" by (simp add: ex_proc_def)
  have o: "open_opts ex_watch AND 0x1F = 1" by (simp add: ex_watch_def)
  have "\<exists>rs1 rs2 rs3 u t bs ctx2 h2. fork_run [8] ?w (ex_open ''/a'') (ex_open ''/b'') (ex_open ''/c'') ?p = Ok (rs1 @ rs3, Some u) t
    \<and> length rs1 = length (ex_open ''/a'') \<and> length rs2 = length (ex_open ''/b'') \<and> length rs3 = length (ex_open ''/c'')
    \<and> passed t = passed ?p @ next_opens (build_os ?p) (ex_open ''/a'') @ next_opens (build_os ?p) (ex_open ''/c'')
    \<and> passed u = passed ?p @ next_opens (build_os ?p) (ex_open ''/a'') @ next_opens (build_os ?p) (ex_open ''/b'')
    \<and> closed t = closed ?p @ [(5, bs)]
    \<and> bs = enc_msgs (open_opts ex_watch AND 0x1F) (open_events ?p (ex_open ''/a'') rs1 @ open_events ?c (ex_open ''/b'') rs2)
        @ enc_done @ enc_msgs (open_opts ex_watch AND 0x1F) (open_events ?p (ex_open ''/c'') rs3) @ enc_done
    \<and> voyeur_exec (\<lambda>_. 0x300) (Some ''/usr/lib/libvoyeur.so'') [NUL] ex_watch ''/bin/x'' [''x''] [''PATH=/bin'']
        (hears 4 6 [(8, bs, length (ex_open ''/a'') + length (ex_open ''/b''))] ex_runner) = Ok (0, ctx2) h2
    \<and> calls h2 = calls ex_runner @ concat (map (event_calls ex_watch (build_os ex_runner))
        (open_events ?p (ex_open ''/a'') rs1 @ open_events ?c (ex_open ''/b'') rs2))"
    by (rule program_forks [OF ex_can_prepare serve _ ex_started [OF env], where c = 9])
      (use room kids o in simp_all)
  then obtain rs1 rs2 rs3 u t bs ctx2 h2 where r:
    "fork_run [8] ?w (ex_open ''/a'') (ex_open ''/b'') (ex_open ''/c'') ?p = Ok (rs1 @ rs3, Some u) t"
    "length rs1 = 1" "length rs2 = 1" "passed t = [Next_Open (Some ''/a'') 0 None, Next_Open (Some ''/c'') 0 None]"
    "closed t = [(5, bs)]"
    "voyeur_exec (\<lambda>_. 0x300) (Some ''/usr/lib/libvoyeur.so'') [NUL] ex_watch ''/bin/x'' [''x''] [''PATH=/bin'']
        (hears 4 6 [(8, bs, 2)] ex_runner) = Ok (0, ctx2) h2"
    "calls h2 = concat (map (event_calls ex_watch Linux) (open_events ?p (ex_open ''/a'') rs1))
      @ concat (map (event_calls ex_watch Linux) (open_events ?c (ex_open ''/b'') rs2))"
    by (auto simp: numeral_2_eq_2)
  have a: "concat (map (event_calls ex_watch Linux) (open_events ?p (ex_open ''/a'') rs1)) = [Call 12 (OpenArgs ''/a'' 0 0 (Some ''/r'') (rs1 ! 0) 7) 3]"
    using ex_open_call [OF r(2), of ?p "''/a''" "''/r''"] by simp
  have b: "concat (map (event_calls ex_watch Linux) (open_events ?c (ex_open ''/b'') rs2)) = [Call 12 (OpenArgs ''/b'' 0 0 (Some ''/r'') (rs2 ! 0) 9) 3]"
    using ex_open_call [OF r(3), of ?c "''/b''" "''/r''"] by (simp add: fork_child_def)
  show ?thesis
    by (intro exI [of _ env] exI [of _ rs1] exI [of _ rs2] exI [of _ rs3] exI [of _ u] exI [of _ t] exI [of _ bs]
        exI [of _ ctx2] exI [of _ h2]) (use env r a b in simp)
qed

end
