(* ===== verification/Own_Close.thy ===== *)
theory Own_Close
  imports Exit_Interposer
begin

unbundle bit_operations_syntax

text \<open>
  The libraries together. \<open>voyeur_close_socket\<close> of \<open>src/net.c\<close>, which every interposing library has a
  copy of, calls \<open>close\<close> by name; when \<open>src/voyeur-close.c\<close> is loaded too, this is the interposed one.
  In the destructor of \<open>voyeur-close.c\<close> the flag sends the call straight to the real \<open>close\<close>; the
  other libraries' connections are reported to the observer as if the program had closed them.
\<close>

section \<open>Closing a connection with the interposed \<open>close\<close>\<close>

text \<open>The loop with the function it calls; \<open>es\<close> is what \<open>errno\<close> holds after each call that fails.\<close>

fun close_socket_through :: "(cint, 's) io \<Rightarrow> errno list \<Rightarrow> (unit, 's) io" where
  "close_socket_through cl [] = io_bind cl (\<lambda>r. if sint r < 0 then (\<lambda>s. Blocked) else io_ret ())"
| "close_socket_through cl (e # es) =
     io_bind cl (\<lambda>r. if sint r < 0 then (if e \<noteq> EINTR then io_ret () else close_socket_through cl es) else io_ret ())"

definition interposed_close_socket :: "errno list \<Rightarrow> int \<Rightarrow> (unit, 'z process_scheme) io" where
  "interposed_close_socket es fd = close_socket_through (voyeur_close (word_of_int fd)) es"

lemma descriptor_value: "0 \<le> fd \<Longrightarrow> fd < 2 ^ 31 \<Longrightarrow> sint (word_of_int fd :: cint) = fd"
  by (simp add: sint_sbintrunc' signed_take_bit_int_eq_self)

text \<open>With the real \<open>close\<close> and its errors it is the loop of \<open>net.c\<close>.\<close>

lemma close_socket_through_real:
  "close_socket_through (real_close fildes) (close_errs s @ [EBADF]) s = voyeur_close_socket (sint fildes) s"
proof (induction "close_errs s" arbitrary: s)
  case Nil
  then show ?case
    by (cases "fdt s (sint fildes)")
      (simp_all add: real_close_quiet close_result_def flip: Nil)
next
  case (Cons e es)
  let ?s = "s\<lparr>closed := closed s @ [(sint fildes, written (sint fildes) s)], close_errs := es\<rparr>"
  have c: "sys_close (sint fildes) s = Err e ?s" by (simp add: sys_close_def flip: Cons.hyps(2))
  then have "real_close fildes s = Ok (-1) ?s" by (simp add: real_close_def)
  then show ?case
    using Cons.hyps(1) [of ?s] c
    by (simp add: voyeur_close_socket.simps [of "sint fildes" s] flip: Cons.hyps(2))
qed

text \<open>While the library shuts down, the interposed \<open>close\<close> is the real one.\<close>

lemma close_forwards:
  "voyeur_close_finalized s \<Longrightarrow> lib_next (close_vars s) \<Longrightarrow> voyeur_close fildes s = real_close fildes s"
  by (simp add: voyeur_close_def)

lemma close_socket_forwards:
  "voyeur_close_finalized s \<Longrightarrow> lib_next (close_vars s) \<Longrightarrow>
   close_socket_through (voyeur_close fildes) es s = close_socket_through (real_close fildes) es s"
proof (induction es arbitrary: s)
  case Nil
  then show ?case by (simp add: close_forwards io_bind_def)
next
  case (Cons e es)
  obtain r es' tab where r: "real_close fildes s
      = Ok r (s\<lparr>closed := closed s @ [(sint fildes, written (sint fildes) s)], close_errs := es', fdt := tab\<rparr>)"
    by (rule real_close_effect)
  then show ?case using Cons by (simp add: close_forwards)
qed

section \<open>The destructor of \<open>voyeur-close.c\<close>\<close>

definition finish_stream_through :: "(int \<Rightarrow> (unit, 'z process_scheme) io) \<Rightarrow> ('z process_scheme \<Rightarrow> statics)
    \<Rightarrow> ((statics \<Rightarrow> statics) \<Rightarrow> 'z process_scheme \<Rightarrow> 'z process_scheme) \<Rightarrow> (unit, 'z process_scheme) io" where
  "finish_stream_through cl vars upd =
     io_bind (io_get vars) (\<lambda>v.
     io_when (lib_initialized v)
       (io_then
         (io_when (0 \<le> lib_sock v)
           (io_then (io_ignore (voyeur_write_msg_type (lib_sock v) VOYEUR_MSG_DONE))
           (io_then (cl (lib_sock v))
           (io_modify (upd (\<lambda>v. v\<lparr>lib_sock := -1\<rparr>))))))
         (io_modify (upd (\<lambda>v. v\<lparr>lib_initialized := False\<rparr>)))))"

lemma finish_stream_real: "finish_stream_through voyeur_close_socket vars upd = finish_stream vars upd"
  unfolding finish_stream_def finish_stream_through_def ..

definition cleanup_close_interposed :: "errno list \<Rightarrow> (unit, 'z process_scheme) io" where
  "cleanup_close_interposed es =
     io_then (pthread_mutex_lock Close_Mutex)
     (io_then (io_modify (\<lambda>s. s\<lparr>voyeur_close_finalized := True\<rparr>))
     (io_then (finish_stream_through (interposed_close_socket es) close_vars close_vars_update)
     (pthread_mutex_unlock Close_Mutex)))"

text \<open>Without the flag the destructor would wait for the mutex that it holds itself.\<close>

lemma close_would_wait:
  "\<not> voyeur_close_finalized s \<Longrightarrow> Close_Mutex \<in> locked s \<Longrightarrow> voyeur_close fildes s = Blocked"
  by (simp add: voyeur_close_def io_then_def io_bind_def mutex_lock_held)

lemma report_frame_finalized: "report_frame fd s t \<Longrightarrow> voyeur_close_finalized t = voyeur_close_finalized s"
  by (auto simp: report_frame_def)

lemma finish_through_agree:
  assumes "\<And>fd t. lib_initialized (vars s) \<Longrightarrow> 0 \<le> fd \<Longrightarrow> fd = lib_sock (vars s) \<Longrightarrow> report_frame fd s t \<Longrightarrow> cl fd t = cl' fd t"
  shows "finish_stream_through cl vars upd s = finish_stream_through cl' vars upd s"
proof -
  let ?fd = "lib_sock (vars s)"
  have "quiet (report_frame ?fd) (io_ignore (voyeur_write_msg_type ?fd VOYEUR_MSG_DONE))" by (rule quiet_writers)
  then show ?thesis
    by (rule quietE [of _ _ s]) (use assms [of ?fd] in \<open>auto simp: finish_stream_through_def io_when_def io_bind_def io_then_def\<close>)
qed

text \<open>
  C23: with the interposed \<open>close\<close> in the place of the real one, the destructor of \<open>voyeur-close.c\<close> does
  the same: it does not wait for its own mutex, reports nothing and retries as often; the flag that it
  sets first sees to that, whatever the kernel answers.
\<close>

theorem cleanup_own_close:
  assumes "lib_initialized (close_vars s) \<Longrightarrow> lib_next (close_vars s)" and "lib_sock (close_vars s) < 2 ^ 31"
  shows "cleanup_close_interposed (close_errs s @ [EBADF]) s = voyeur_cleanup_close s"
proof (cases "Close_Mutex \<in> locked s")
  case True
  then show ?thesis
    by (simp add: cleanup_close_interposed_def voyeur_cleanup_close_def io_then_def io_bind_def mutex_lock_held)
next
  case False
  let ?s = "s\<lparr>locked := insert Close_Mutex (locked s), voyeur_close_finalized := True\<rparr>"
  let ?cl = "interposed_close_socket (close_errs s @ [EBADF])"
  have "finish_stream_through ?cl close_vars close_vars_update ?s
      = finish_stream_through voyeur_close_socket close_vars close_vars_update ?s"
  proof (rule finish_through_agree)
    fix fd and t :: "'a process_scheme"
    assume h: "lib_initialized (close_vars ?s)" "0 \<le> fd" "fd = lib_sock (close_vars ?s)" "report_frame fd ?s t"
    have t: "voyeur_close_finalized t" "lib_next (close_vars t)" "close_errs t = close_errs s"
      using report_frame_process [OF h(4)] report_frame_finalized [OF h(4)] h(1) assms(1) by simp_all
    have fd: "sint (word_of_int fd :: cint) = fd" by (rule descriptor_value) (use h(2,3) assms(2) in simp_all)
    have "?cl fd t = close_socket_through (real_close (word_of_int fd)) (close_errs t @ [EBADF]) t"
      unfolding interposed_close_socket_def t(3) by (rule close_socket_forwards [OF t(1,2)])
    also have "\<dots> = voyeur_close_socket fd t"
      unfolding close_socket_through_real fd ..
    finally show "?cl fd t = voyeur_close_socket fd t" .
  qed
  then show ?thesis
    using False by (simp add: cleanup_close_interposed_def voyeur_cleanup_close_def finish_stream_real io_then_def io_bind_def)
qed

theorem cleanup_own_close_witness:
  "(let s = ex_proc\<lparr>close_vars := \<lparr>lib_initialized = True, lib_opts = 0, lib_sock = 6, lib_next = True\<rparr>,
       fdt := [6 \<mapsto> ex_desc []], close_errs := [EINTR]\<rparr>
    in cleanup_close_interposed [EINTR, EBADF] s = voyeur_cleanup_close s)"
  unfolding Let_def
  using cleanup_own_close [of "ex_proc\<lparr>close_vars := \<lparr>lib_initialized = True, lib_opts = 0, lib_sock = 6, lib_next = True\<rparr>,
       fdt := [6 \<mapsto> ex_desc []], close_errs := [EINTR]\<rparr>"]
  by simp

section \<open>The connections of the other libraries\<close>

lemma own_close_reported:
  assumes "attached (close_vars s) cfd s" and "Close_Mutex \<notin> locked s" and "\<not> voyeur_close_finalized s"
    and "connected fd s" and "0 \<le> fd" and "fd < 2 ^ 31" and "fd \<noteq> cfd"
    and "close_errs s = []" and "soft_w (wsys s)" and "n + 20 \<le> takes (wsys s)"
  obtains t where "interposed_close_socket es fd s = Ok () t" "attached (close_vars t) cfd t"
    "written cfd t = written cfd s @ enc_msg options (Close_Event (word_of_int fd) 0 (self_pid s))"
    "closed t = closed s @ [(fd, written fd s)]" "fdt t fd = None" "locked t = locked s" "n \<le> takes (wsys t)"
proof -
  let ?f = "word_of_int fd :: cint"
  have f: "sint ?f = fd" by (rule descriptor_value [OF assms(5,6)])
  have r: "close_result s ?f = 0" using assms(4) f by (auto simp: close_result_def connected_def)
  obtain t where t: "voyeur_close ?f s = Ok (close_result s ?f) t" "attached (close_vars t) cfd t"
    "written cfd t = written cfd s @ enc_msg options (close_event s ?f (close_result s ?f))"
    "n \<le> takes (wsys t)" "locked t = locked s" "closed t = closed s @ [(sint ?f, written (sint ?f) s)]"
    "\<forall>g. g \<noteq> cfd \<longrightarrow> fdt t g = (if g = sint ?f then None else fdt s g)"
    by (rule close_attached [OF assms(1-3) _ assms(8-10), of ?f]) (use f assms(7) in auto)
  have run: "interposed_close_socket es fd s = Ok () t"
    using t(1) by (cases es) (simp_all add: interposed_close_socket_def r)
  show ?thesis
    by (rule that [OF run t(2) _ _ _ t(5,4)]) (use t(3,6,7) f r assms(7) in \<open>simp_all add: close_event_def\<close>)
qed

text \<open>
  C22: a process that is observed for both its end and its closes: the exit library reports the exit and
  closes its connection, and, while this is invisible under the exit library alone, the close library
  reports the descriptor of that connection as one that the program closed.
\<close>

theorem exit_reports_own_close:
  assumes "\<not> did_exit_already s" and "reachable_observer fd s" and "fd < 2 ^ 31"
    and "attached (close_vars s) cfd s" and "fd \<noteq> cfd" and "Close_Mutex \<notin> locked s" and "\<not> voyeur_close_finalized s"
    and "close_errs s = []" and "soft_w (wsys s)" and "44 \<le> takes (wsys s)"
  shows "(\<exists>t. write_exit_event status s = Ok () t \<and> closed t = closed s @ [(fd, exit_message s status)]
      \<and> written cfd t = written cfd s)
    \<and> (\<exists>t. write_exit_through (interposed_close_socket es) status s = Ok () t
      \<and> closed t = closed s @ [(fd, exit_message s status)] \<and> attached (close_vars t) cfd t
      \<and> written cfd t = written cfd s @ enc_msg options (Close_Event (word_of_int fd) 0 (self_pid s)))"
proof -
  obtain t where t: "\<And>cl. write_exit_through cl status s = cl fd t" "written fd t = exit_message s status" "connected fd t"
    "closed t = closed s" "close_errs t = close_errs s" "soft_w (wsys t)" "20 \<le> takes (wsys t)" "same_proc s t"
    "locked t = locked s" "close_vars t = close_vars s" "voyeur_close_finalized t = voyeur_close_finalized s"
    "\<forall>g. g \<noteq> fd \<longrightarrow> fdt t g = fdt s g"
    by (rule write_exit_until_close [OF assms(1,2,9), of 20 status]) (use assms(10) in auto)
  have c: "fdt t cfd = fdt s cfd" using t(12) assms(5) by simp
  have at: "attached (close_vars t) cfd t" using assms(4) c t(10) by (simp add: attached_def connected_def)
  have w: "written cfd t = written cfd s" using c by (simp add: written_def)
  have fd: "0 \<le> fd" using assms(2) by (simp add: reachable_observer_def)
  have "write_exit_event status s = Ok () (close_fd fd t)"
    using t(1,5) assms(8) by (simp add: write_exit_event_through)
  moreover have "written cfd (close_fd fd t) = written cfd s"
    using w assms(5) by (simp add: close_fd_def written_def)
  moreover obtain u where "interposed_close_socket es fd t = Ok () u" "attached (close_vars u) cfd u"
    "written cfd u = written cfd t @ enc_msg options (Close_Event (word_of_int fd) 0 (self_pid t))"
    "closed u = closed t @ [(fd, written fd t)]"
    by (rule own_close_reported [OF at _ _ t(3) fd assms(3,5) _ t(6), of 0]) (use t assms in auto)
  moreover have "self_pid t = self_pid s" using t(8) by (simp add: same_proc_def)
  ultimately show ?thesis using t(1,2,4) w by simp
qed

lemma ex_proc_exits: "\<not> did_exit_already ex_proc"
  by (simp add: ex_proc_def)

theorem exit_reports_own_close_witness:
  "\<exists>t. write_exit_through (interposed_close_socket []) 3
         (ex_proc\<lparr>close_vars := \<lparr>lib_initialized = True, lib_opts = 0, lib_sock = 6, lib_next = True\<rparr>,
            fdt := [6 \<mapsto> ex_desc []]\<rparr>) = Ok () t
     \<and> closed t = [(5, enc_msg 0 (Exit_Event 3 7 1) @ enc_done)]
     \<and> written 6 t = enc_msg 0 (Close_Event 5 0 7)"
proof -
  let ?s = "ex_proc\<lparr>close_vars := \<lparr>lib_initialized = True, lib_opts = 0, lib_sock = 6, lib_next = True\<rparr>, fdt := [6 \<mapsto> ex_desc []]\<rparr>"
  have h: "\<not> did_exit_already ?s" "reachable_observer 5 ?s" "attached (close_vars ?s) 6 ?s" "written 6 ?s = []"
    using ex_proc_exits by (simp_all add: reachable_observer_def attached_def connected_def written_def ex_desc_def)
  have "exit_message ?s 3 = enc_msg 0 (Exit_Event 3 7 1) @ enc_done" by (simp add: exit_message_def)
  with exit_reports_own_close [OF h(1,2) _ h(3), of 3 "[]" 0] h(4) show ?thesis by auto
qed

text \<open>The destructor of \<open>voyeur-open.c\<close> does the same, when it runs before the one of \<open>voyeur-close.c\<close>.\<close>

lemma open_finish_reports_own_close:
  assumes "attached (open_vars s) fd s" and "fd < 2 ^ 31" and "attached (close_vars s) cfd s" and "fd \<noteq> cfd"
    and "Close_Mutex \<notin> locked s" and "\<not> voyeur_close_finalized s"
    and "close_errs s = []" and "soft_w (wsys s)" and "24 \<le> takes (wsys s)"
  obtains t where "finish_stream_through (interposed_close_socket es) open_vars open_vars_update s = Ok () t"
    "closed t = closed s @ [(fd, written fd s @ enc_done)]"
    "written cfd t = written cfd s @ enc_msg options (Close_Event (word_of_int fd) 0 (self_pid s))"
proof -
  have s: "sends (voyeur_write_msg_type fd VOYEUR_MSG_DONE) fd enc_done"
    unfolding enc_done_def by (rule msg_type_codec.put_sends)
  have h: "connected fd s" "lib_sock (open_vars s) = fd" "0 \<le> fd" "lib_initialized (open_vars s)"
    using assms(1) by (simp_all add: attached_def)
  obtain w where w: "voyeur_write_msg_type fd VOYEUR_MSG_DONE s = Ok () (put_bytes fd enc_done (s\<lparr>wsys := w\<rparr>))"
    "soft_w w" "20 \<le> takes w"
    using sendsE [OF s h(1) assms(8), of 20] assms(9) by auto
  let ?s1 = "put_bytes fd enc_done (s\<lparr>wsys := w\<rparr>)"
  have f: "written fd ?s1 = written fd s @ enc_done" using h(1) by (simp add: written_put_bytes)
  have c: "fdt ?s1 cfd = fdt s cfd" using assms(4) by (simp add: put_bytes_def)
  have pre: "attached (close_vars ?s1) cfd ?s1" "Close_Mutex \<notin> locked ?s1" "\<not> voyeur_close_finalized ?s1" "connected fd ?s1"
    "close_errs ?s1 = []" "soft_w (wsys ?s1)" "20 \<le> takes (wsys ?s1)" "closed ?s1 = closed s" "self_pid ?s1 = self_pid s"
    "written cfd ?s1 = written cfd s"
    using assms c w(2,3) h(1) by (auto simp: attached_def connected_def put_bytes_def written_def)
  obtain u where u: "interposed_close_socket es fd ?s1 = Ok () u"
    "written cfd u = written cfd ?s1 @ enc_msg options (Close_Event (word_of_int fd) 0 (self_pid ?s1))"
    "closed u = closed ?s1 @ [(fd, written fd ?s1)]"
    by (rule own_close_reported [OF pre(1-4) h(3) assms(2,4) pre(5,6), of 0]) (use pre(7) in auto)
  let ?t = "open_vars_update (\<lambda>v. v\<lparr>lib_initialized := False\<rparr>) (open_vars_update (\<lambda>v. v\<lparr>lib_sock := -1\<rparr>) u)"
  have run: "finish_stream_through (interposed_close_socket es) open_vars open_vars_update s = Ok () ?t"
    using h w(1) u(1) by (simp add: finish_stream_through_def)
  show ?thesis by (rule that [OF run]) (use u(2,3) f pre(8-10) in \<open>simp_all add: written_def\<close>)
qed

end
