(* ===== verification/Threads.thy ===== *)
theory Threads
  imports Open_Interposer
begin

text \<open>
  The interposed \<open>open\<close>, \<open>close\<close> and \<open>posix_spawn\<close> when several threads call them, with the destructor in one
  of the threads. The three have the same shape, in \<open>src/voyeur-close.c\<close> with a flag in addition: a step
  relation whose steps are the accesses to the shared variables and the single writes, interleaved in
  any order, with the writes of a report as a parameter. The other theories model the same code run by
  one thread at a time, with every failure of the kernel; here a write to a connected socket waits while
  the kernel's buffer is full and then sends all of its bytes, the options do not change, and the program
  does not close the library's own descriptor. A socket variable is negative, connected, or a descriptor
  whose connection attempts all failed (\<open>voyeur_create_client_socket\<close> of \<open>src/net.c\<close> returns it all the
  same). The calls with their arguments, what the real functions return, the moment the destructor runs,
  and when the observer reads are up to the step relation.
\<close>

section \<open>The threads and what they share\<close>

text \<open>
  Where a thread is, with the lines of \<open>src/voyeur-close.c\<close>: outside, about to forward a call (line 49), past
  the test of the flag (line 50), holding the mutex before and after the block of the first call (lines
  53 and 62), sending, with the writes still to do and the result of the call (lines 66 to 73), before
  the release of the mutex (line 75); in the destructor: before the mutex (line 28), holding it (line
  29), with the flag set (line 31), with the last message written (line 34), waiting in its own call of
  the interposed \<open>close\<close>, with the socket closed (line 35), before the release (line 42). A call is a value of \<open>'c\<close>, what it returns
  and what the report reads from the process a value of \<open>'r\<close>.
\<close>

datatype ('c, 'r) pc =
    Idle
  | Forwarding 'c
  | Checked 'c
  | Holding 'c
  | Initialized 'c
  | Sending 'c "byte list list" 'r
  | Leaving 'r
  | Cleanup_Waiting
  | Cleanup_Holding
  | Cleanup_Flagged
  | Cleanup_Ended
  | Cleanup_Calling
  | Cleanup_Closed
  | Cleanup_Leaving

text \<open>
  The shared variables. \<open>conns\<close> holds, for each connection the library ever made, the bytes written to
  it; \<open>conn\<close> is the index of the one the socket variable stands for, \<open>None\<close> when there is none, and
  \<open>unconnected\<close> then says that the variable is a descriptor all the same, which was never connected.
  \<open>full\<close> says that the kernel's buffer of the connection is full.
\<close>

record ('c, 'r) shared =
  pcs :: "nat \<Rightarrow> ('c, 'r) pc"
  holder :: "nat option"
  finalized_flag :: bool
  initialized_flag :: bool
  conn :: "nat option"
  unconnected :: bool
  conns :: "byte list list"
  full :: bool

definition shared0 :: "('c, 'r) shared" where
  "shared0 = \<lparr>pcs = (\<lambda>_. Idle), holder = None, finalized_flag = False, initialized_flag = False,
     conn = None, unconnected = False, conns = [], full = False\<rparr>"

definition goto :: "nat \<Rightarrow> ('c, 'r) pc \<Rightarrow> ('c, 'r) shared \<Rightarrow> ('c, 'r) shared" where
  "goto i p s = s\<lparr>pcs := (pcs s)(i := p)\<rparr>"

definition send_on :: "nat \<Rightarrow> byte list \<Rightarrow> ('c, 'r) shared \<Rightarrow> ('c, 'r) shared" where
  "send_on k bs s = s\<lparr>conns := (conns s)[k := conns s ! k @ bs]\<rparr>"

text \<open>
  The steps of a library that calls \<open>w\<close> for the writes of one report, in order. \<open>late\<close> says that it has the
  flag that lets it forward calls once the destructor has run; \<open>open\<close> and \<open>posix_spawn\<close> have none. The writes
  to a socket that is not connected fail at once, so that a report there changes nothing. The
  destructor's call of \<open>voyeur_close_socket\<close> is, in \<open>src/voyeur-close.c\<close>, a call of the interposed \<open>close\<close>: it
  is forwarded when the flag is set, and otherwise it waits for the mutex, which its own thread holds, so
  that no step leads on.
\<close>

inductive thread_step :: "bool \<Rightarrow> ('c \<Rightarrow> 'r \<Rightarrow> byte list list) \<Rightarrow> nat \<Rightarrow> ('c, 'r) shared \<Rightarrow> ('c, 'r) shared \<Rightarrow> bool"
  for late :: bool and w :: "'c \<Rightarrow> 'r \<Rightarrow> byte list list" and i :: nat where
  call_late: "pcs s i = Idle \<Longrightarrow> late \<Longrightarrow> finalized_flag s \<Longrightarrow> thread_step late w i s (goto i (Forwarding c) s)"
| forward: "pcs s i = Forwarding c \<Longrightarrow> thread_step late w i s (goto i Idle s)"
| call: "pcs s i = Idle \<Longrightarrow> \<not> (late \<and> finalized_flag s) \<Longrightarrow> thread_step late w i s (goto i (Checked c) s)"
| lock: "pcs s i = Checked c \<Longrightarrow> holder s = None \<Longrightarrow>
    thread_step late w i s (goto i (Holding c) (s\<lparr>holder := Some i\<rparr>))"
| init_done: "pcs s i = Holding c \<Longrightarrow> initialized_flag s \<Longrightarrow> thread_step late w i s (goto i (Initialized c) s)"
| init_connect: "pcs s i = Holding c \<Longrightarrow> \<not> initialized_flag s \<Longrightarrow>
    thread_step late w i s (goto i (Initialized c) (s\<lparr>initialized_flag := True, conn := Some (length (conns s)),
      unconnected := False, conns := conns s @ [[]]\<rparr>))"
| init_no_connection: "pcs s i = Holding c \<Longrightarrow> \<not> initialized_flag s \<Longrightarrow>
    thread_step late w i s (goto i (Initialized c) (s\<lparr>initialized_flag := True, conn := None, unconnected := b\<rparr>))"
| real_report: "pcs s i = Initialized c \<Longrightarrow> conn s \<noteq> None \<Longrightarrow>
    thread_step late w i s (goto i (Sending c (w c r) r) s)"
| real_only: "pcs s i = Initialized c \<Longrightarrow> conn s = None \<Longrightarrow> thread_step late w i s (goto i (Leaving r) s)"
| write_one: "pcs s i = Sending c (b # bs) r \<Longrightarrow> conn s = Some k \<Longrightarrow> \<not> full s \<Longrightarrow>
    thread_step late w i s (goto i (Sending c bs r) (send_on k b s))"
| write_end: "pcs s i = Sending c [] r \<Longrightarrow> thread_step late w i s (goto i (Leaving r) s)"
| unlock: "pcs s i = Leaving r \<Longrightarrow> thread_step late w i s (goto i Idle (s\<lparr>holder := None\<rparr>))"
| cleanup: "pcs s i = Idle \<Longrightarrow> thread_step late w i s (goto i Cleanup_Waiting s)"
| cleanup_lock: "pcs s i = Cleanup_Waiting \<Longrightarrow> holder s = None \<Longrightarrow>
    thread_step late w i s (goto i Cleanup_Holding (s\<lparr>holder := Some i\<rparr>))"
| cleanup_flag: "pcs s i = Cleanup_Holding \<Longrightarrow>
    thread_step late w i s (goto i Cleanup_Flagged (if late then s\<lparr>finalized_flag := True\<rparr> else s))"
| cleanup_nothing: "pcs s i = Cleanup_Flagged \<Longrightarrow> \<not> initialized_flag s \<Longrightarrow>
    thread_step late w i s (goto i Cleanup_Leaving s)"
| cleanup_no_socket: "pcs s i = Cleanup_Flagged \<Longrightarrow> initialized_flag s \<Longrightarrow> conn s = None \<Longrightarrow> \<not> unconnected s \<Longrightarrow>
    thread_step late w i s (goto i Cleanup_Leaving (s\<lparr>initialized_flag := False\<rparr>))"
| cleanup_done: "pcs s i = Cleanup_Flagged \<Longrightarrow> initialized_flag s \<Longrightarrow> conn s = Some k \<Longrightarrow> \<not> full s \<Longrightarrow>
    thread_step late w i s (goto i Cleanup_Ended (send_on k enc_done s))"
| cleanup_dead: "pcs s i = Cleanup_Flagged \<Longrightarrow> initialized_flag s \<Longrightarrow> conn s = None \<Longrightarrow> unconnected s \<Longrightarrow>
    thread_step late w i s (goto i Cleanup_Ended s)"
| cleanup_close: "pcs s i = Cleanup_Ended \<Longrightarrow> late \<longrightarrow> finalized_flag s \<Longrightarrow>
    thread_step late w i s (goto i Cleanup_Closed s)"
| cleanup_close_waits: "pcs s i = Cleanup_Ended \<Longrightarrow> late \<and> \<not> finalized_flag s \<Longrightarrow>
    thread_step late w i s (goto i Cleanup_Calling s)"
| cleanup_reset: "pcs s i = Cleanup_Closed \<Longrightarrow>
    thread_step late w i s (goto i Cleanup_Leaving (s\<lparr>conn := None, unconnected := False, initialized_flag := False\<rparr>))"
| cleanup_unlock: "pcs s i = Cleanup_Leaving \<Longrightarrow> thread_step late w i s (goto i Idle (s\<lparr>holder := None\<rparr>))"

text \<open>Between the steps the buffer fills up, or the observer reads and makes room.\<close>

inductive reachable :: "bool \<Rightarrow> ('c \<Rightarrow> 'r \<Rightarrow> byte list list) \<Rightarrow> ('c, 'r) shared \<Rightarrow> bool"
  for late :: bool and w :: "'c \<Rightarrow> 'r \<Rightarrow> byte list list" where
  start: "reachable late w shared0"
| step: "reachable late w s \<Longrightarrow> thread_step late w i s t \<Longrightarrow> reachable late w t"
| observer: "reachable late w s \<Longrightarrow> reachable late w (s\<lparr>full := b\<rparr>)"

section \<open>The invariant\<close>

text \<open>The places where a thread holds the mutex.\<close>

fun holds_mutex :: "('c, 'r) pc \<Rightarrow> bool" where
  "holds_mutex Idle = False"
| "holds_mutex (Forwarding c) = False"
| "holds_mutex (Checked c) = False"
| "holds_mutex Cleanup_Waiting = False"
| "holds_mutex _ = True"

text \<open>A stream of complete reports, with or without the message that ends it.\<close>

definition whole :: "('c \<Rightarrow> 'r \<Rightarrow> byte list list) \<Rightarrow> byte list \<Rightarrow> bool" where
  "whole w bs \<longleftrightarrow> (\<exists>cs. bs = concat (map (\<lambda>(c, r). concat (w c r)) cs))"

definition ended :: "('c \<Rightarrow> 'r \<Rightarrow> byte list list) \<Rightarrow> byte list \<Rightarrow> bool" where
  "ended w bs \<longleftrightarrow> (\<exists>ms. whole w ms \<and> bs = ms @ enc_done)"

text \<open>The mutex and the places agree.\<close>

definition mutex_ok :: "(nat \<Rightarrow> ('c, 'r) pc) \<Rightarrow> nat option \<Rightarrow> bool" where
  "mutex_ok P h \<longleftrightarrow> (\<forall>i. holds_mutex (P i) \<longleftrightarrow> h = Some i)"

definition mutex_inv :: "('c, 'r) shared \<Rightarrow> bool" where
  "mutex_inv s \<longleftrightarrow> mutex_ok (pcs s) (holder s)"

lemma whole_Nil [simp]: "whole w []"
  unfolding whole_def by (rule exI [of _ "[]"]) simp

lemma whole_snoc:
  assumes "whole w ms"
  shows "whole w (ms @ concat (w c r))"
proof -
  from assms obtain cs where "ms = concat (map (\<lambda>(c, r). concat (w c r)) cs)" unfolding whole_def by blast
  then have "ms @ concat (w c r) = concat (map (\<lambda>(c, r). concat (w c r)) (cs @ [(c, r)]))" by simp
  then show ?thesis unfolding whole_def by blast
qed

lemma goto_fields [simp]:
  "pcs (goto i p s) = (pcs s)(i := p)" "holder (goto i p s) = holder s" "conn (goto i p s) = conn s"
  "conns (goto i p s) = conns s" "initialized_flag (goto i p s) = initialized_flag s"
  "finalized_flag (goto i p s) = finalized_flag s" "full (goto i p s) = full s" "unconnected (goto i p s) = unconnected s"
  by (simp_all add: goto_def)

lemma send_on_fields [simp]:
  "pcs (send_on k bs s) = pcs s" "holder (send_on k bs s) = holder s" "conn (send_on k bs s) = conn s"
  "length (conns (send_on k bs s)) = length (conns s)" "initialized_flag (send_on k bs s) = initialized_flag s"
  "finalized_flag (send_on k bs s) = finalized_flag s" "full (send_on k bs s) = full s"
  "unconnected (send_on k bs s) = unconnected s"
  by (simp_all add: send_on_def)

lemma send_on_nth: "k < length (conns s) \<Longrightarrow>
  conns (send_on k bs s) ! j = (if j = k then conns s ! k @ bs else conns s ! j)"
  by (simp add: send_on_def nth_list_update)

lemma mutex_ok_same: "mutex_ok P h \<Longrightarrow> holds_mutex p = holds_mutex (P i) \<Longrightarrow> mutex_ok (P(i := p)) h"
  by (simp add: mutex_ok_def)

lemma mutex_ok_acquire: "mutex_ok P None \<Longrightarrow> holds_mutex p \<Longrightarrow> mutex_ok (P(i := p)) (Some i)"
  by (auto simp: mutex_ok_def)

lemma mutex_ok_release: "mutex_ok P h \<Longrightarrow> holds_mutex (P i) \<Longrightarrow> \<not> holds_mutex p \<Longrightarrow> mutex_ok (P(i := p)) None"
  by (auto simp: mutex_ok_def)

lemma mutex_inv_step:
  assumes "thread_step late w i s t" and "mutex_inv s"
  shows "mutex_inv t"
  using assms
  by cases (simp_all add: mutex_inv_def mutex_ok_same mutex_ok_acquire mutex_ok_release [where i = i])

lemma only_holder:
  assumes "mutex_inv s" and "holds_mutex (pcs s i)" and "holds_mutex (pcs s j)"
  shows "j = i"
  using assms unfolding mutex_inv_def mutex_ok_def by (metis option.inject)

text \<open>
  The places where the connection in use is not between two reports: a report is under way, or the
  destructor has ended the stream. Only the holder of the mutex is there.
\<close>

fun is_ending :: "('c, 'r) pc \<Rightarrow> bool" where
  "is_ending Cleanup_Ended = True"
| "is_ending Cleanup_Calling = True"
| "is_ending Cleanup_Closed = True"
| "is_ending _ = False"

fun is_busy :: "('c, 'r) pc \<Rightarrow> bool" where
  "is_busy (Sending c bs r) = True"
| "is_busy p = is_ending p"

lemma ending_busy: "is_ending p \<Longrightarrow> is_busy p"
  by (cases p) simp_all

lemma busy_holds: "is_busy p \<Longrightarrow> holds_mutex p"
  by (cases p) simp_all

text \<open>
  Of the connections: one that is not in use is complete; the one in use exists, and is complete when
  nobody is at such a place; what a sender has written and what it has still to write make a complete
  message, and the stream of an ending connection is ended.
\<close>

definition others_ok :: "('c \<Rightarrow> 'r \<Rightarrow> byte list list) \<Rightarrow> nat option \<Rightarrow> byte list list \<Rightarrow> bool" where
  "others_ok w cn bss \<longleftrightarrow> (\<forall>k < length bss. cn = Some k \<or> whole w (bss ! k) \<or> ended w (bss ! k))"

definition used_ok :: "('c \<Rightarrow> 'r \<Rightarrow> byte list list) \<Rightarrow> (nat \<Rightarrow> ('c, 'r) pc) \<Rightarrow> bool \<Rightarrow> nat option \<Rightarrow> byte list list \<Rightarrow> bool" where
  "used_ok w P ini cn bss \<longleftrightarrow>
     (\<forall>k. cn = Some k \<longrightarrow> k < length bss \<and> ini \<and> ((\<exists>i. is_busy (P i)) \<or> whole w (bss ! k)))"

fun rest_ok :: "('c \<Rightarrow> 'r \<Rightarrow> byte list list) \<Rightarrow> nat option \<Rightarrow> byte list list \<Rightarrow> ('c, 'r) pc \<Rightarrow> bool" where
  "rest_ok w cn bss (Sending c bs r) \<longleftrightarrow>
     (\<exists>k ms p. cn = Some k \<and> bss ! k = ms @ p \<and> whole w ms \<and> p @ concat bs = concat (w c r))"
| "rest_ok w cn bss p \<longleftrightarrow> (is_ending p \<longrightarrow> (\<forall>k. cn = Some k \<longrightarrow> ended w (bss ! k)))"

lemma rest_ok_plain [simp]: "\<not> is_busy p \<Longrightarrow> rest_ok w cn bss p"
  by (cases p) simp_all

lemma rest_ok_ending: "is_ending p \<Longrightarrow> rest_ok w cn bss p \<longleftrightarrow> (\<forall>k. cn = Some k \<longrightarrow> ended w (bss ! k))"
  by (cases p) simp_all

definition conns_ok :: "('c \<Rightarrow> 'r \<Rightarrow> byte list list) \<Rightarrow> (nat \<Rightarrow> ('c, 'r) pc) \<Rightarrow> bool \<Rightarrow> nat option \<Rightarrow> byte list list \<Rightarrow> bool" where
  "conns_ok w P ini cn bss \<longleftrightarrow> others_ok w cn bss \<and> used_ok w P ini cn bss \<and> (\<forall>i. rest_ok w cn bss (P i))"

abbreviation conn_good :: "('c \<Rightarrow> 'r \<Rightarrow> byte list list) \<Rightarrow> ('c, 'r) shared \<Rightarrow> bool" where
  "conn_good w s \<equiv> conns_ok w (pcs s) (initialized_flag s) (conn s) (conns s)"

lemma sending_upd: "\<not> is_busy (P i) \<Longrightarrow> \<not> is_busy p \<Longrightarrow>
  (\<exists>j. is_busy ((P(i := p)) j)) = (\<exists>j. is_busy (P j))"
  by (metis fun_upd_apply)

lemma conns_ok_plain:
  assumes "conns_ok w P ini cn bss" and "\<not> is_busy (P i)" and "\<not> is_busy p"
  shows "conns_ok w (P(i := p)) ini cn bss"
  using assms(1) assms(3) unfolding conns_ok_def used_ok_def sending_upd [of P i p, OF assms(2,3)] by simp

text \<open>While the holder of the mutex does something else, nobody is at such a place.\<close>

lemma nobody_busy:
  assumes "mutex_inv s" and "holds_mutex (pcs s i)" and "\<not> is_busy (pcs s i)"
  shows "\<not> is_busy (pcs s j)"
  using only_holder [OF assms(1,2)] busy_holds assms(3) by metis

lemma conns_ok_quiet:
  assumes "\<And>j. \<not> is_busy (P j)"
  shows "conns_ok w P ini cn bss \<longleftrightarrow> others_ok w cn bss \<and> (\<forall>k. cn = Some k \<longrightarrow> k < length bss \<and> ini \<and> whole w (bss ! k))"
  using assms by (simp add: conns_ok_def used_ok_def)

lemma upd_quiet: "(\<And>j. \<not> is_busy (P j)) \<Longrightarrow> \<not> is_busy p \<Longrightarrow> \<not> is_busy ((P(i := p)) j)"
  by simp

lemma others_ok_connect:
  assumes "others_ok w None bss"
  shows "others_ok w (Some (length bss)) (bss @ [[]])"
  using assms unfolding others_ok_def by (auto simp: nth_append)

lemma others_ok_ended:
  assumes "others_ok w (Some k) bss" and "ended w (bss ! k)"
  shows "others_ok w None bss"
  using assms unfolding others_ok_def by blast

lemma others_ok_write: "others_ok w (Some k) bss \<Longrightarrow> others_ok w (Some k) (bss[k := x])"
  unfolding others_ok_def by (metis length_list_update nth_list_update_neq)

lemma conn_good_connect:
  assumes "conn_good w s" and "\<not> initialized_flag s" and "\<And>j. \<not> is_busy (pcs s j)"
  shows "conns_ok w ((pcs s)(i := Initialized c)) True (Some (length (conns s))) (conns s @ [[]])"
proof -
  have q: "\<And>j. \<not> is_busy (((pcs s)(i := Initialized c)) j)" using assms(3) by simp
  have g: "others_ok w (conn s) (conns s)" "\<forall>k. conn s = Some k \<longrightarrow> initialized_flag s"
    using assms(1) conns_ok_quiet [of "pcs s", OF assms(3)] by simp_all
  then have "conn s = None" using assms(2) by (cases "conn s") simp_all
  with g(1) others_ok_connect show ?thesis unfolding conns_ok_quiet [OF q] by simp
qed

lemma conn_good_done:
  assumes "conn_good w s" and "conn s = Some k" and "\<And>j. \<not> is_busy (pcs s j)"
  shows "conns_ok w ((pcs s)(i := Cleanup_Ended)) (initialized_flag s) (conn s) ((conns s)[k := conns s ! k @ enc_done])"
proof -
  have g: "others_ok w (Some k) (conns s)" "k < length (conns s)" "initialized_flag s" "whole w (conns s ! k)"
    using assms(1,2) conns_ok_quiet [of "pcs s", OF assms(3)] by simp_all
  have "ended w (conns s ! k @ enc_done)" using g(4) unfolding ended_def by blast
  then have r: "rest_ok w (Some k) ((conns s)[k := conns s ! k @ enc_done]) Cleanup_Ended" using g(2) by simp
  have "\<exists>j. is_busy (((pcs s)(i := Cleanup_Ended)) j)" by (rule exI [of _ i]) simp
  with g r assms(3) others_ok_write [OF g(1)] show ?thesis unfolding assms(2) conns_ok_def used_ok_def by simp
qed

lemma conn_good_dead:
  assumes "conn_good w s" and "conn s = None" and "\<And>j. \<not> is_busy (pcs s j)"
  shows "conns_ok w ((pcs s)(i := Cleanup_Ended)) (initialized_flag s) (conn s) (conns s)"
  using assms by (simp add: conns_ok_def used_ok_def)

lemma conn_good_ending:
  assumes "conn_good w s" and "is_ending (pcs s i)" and "is_ending p"
  shows "conns_ok w ((pcs s)(i := p)) (initialized_flag s) (conn s) (conns s)"
proof -
  have "rest_ok w (conn s) (conns s) p"
    using assms unfolding conns_ok_def by (metis rest_ok_ending)
  moreover have "\<exists>j. is_busy (((pcs s)(i := p)) j)" using ending_busy [OF assms(3)] by (intro exI [of _ i]) simp
  ultimately show ?thesis using assms(1) unfolding conns_ok_def used_ok_def by simp
qed

lemma conn_good_reset:
  assumes "conn_good w s" and "is_ending (pcs s i)" and "\<And>j. is_busy (pcs s j) \<Longrightarrow> j = i"
  shows "conns_ok w ((pcs s)(i := Cleanup_Leaving)) False None (conns s)"
proof -
  have q: "\<And>j. \<not> is_busy (((pcs s)(i := Cleanup_Leaving)) j)" using assms(3) by auto
  have "others_ok w (conn s) (conns s)" "rest_ok w (conn s) (conns s) (pcs s i)"
    using assms(1) by (simp_all add: conns_ok_def)
  then have "others_ok w None (conns s)"
    using others_ok_ended unfolding rest_ok_ending [OF assms(2)] by (cases "conn s") auto
  then show ?thesis unfolding conns_ok_quiet [OF q] by simp
qed

lemma conn_good_report:
  assumes "conn_good w s" and "conn s = Some k" and "\<And>j. \<not> is_busy (pcs s j)"
  shows "conns_ok w ((pcs s)(i := Sending c (w c r) r)) (initialized_flag s) (conn s) (conns s)"
proof -
  have g: "others_ok w (Some k) (conns s)" "k < length (conns s)" "initialized_flag s" "whole w (conns s ! k)"
    using assms(1,2) conns_ok_quiet [of "pcs s", OF assms(3)] by simp_all
  have r: "rest_ok w (Some k) (conns s) (Sending c (w c r) r)" using g(4) by auto
  have "\<exists>j. is_busy (((pcs s)(i := Sending c (w c r) r)) j)" by (rule exI [of _ i]) simp
  with g r assms(3) show ?thesis unfolding assms(2) conns_ok_def used_ok_def by simp
qed

lemma conn_good_write:
  assumes "conn_good w s" and "pcs s i = Sending c (b # bs) r" and "conn s = Some k"
    and "\<And>j. is_busy (pcs s j) \<Longrightarrow> j = i"
  shows "conns_ok w ((pcs s)(i := Sending c bs r)) (initialized_flag s) (conn s) ((conns s)[k := conns s ! k @ b])"
proof -
  have g: "others_ok w (Some k) (conns s)" "k < length (conns s)" "initialized_flag s"
    and "rest_ok w (Some k) (conns s) (pcs s i)"
    using assms(1,3) unfolding conns_ok_def used_ok_def by simp_all
  then obtain ms p where p: "conns s ! k = ms @ p" "whole w ms" "p @ b @ concat bs = concat (w c r)"
    using assms(2) by auto
  have "rest_ok w (Some k) ((conns s)[k := conns s ! k @ b]) (Sending c bs r)"
    unfolding rest_ok.simps using p g(2) by (intro exI [of _ k] exI [of _ ms] exI [of _ "p @ b"]) simp
  moreover have "rest_ok w (Some k) bss' (pcs s j)" if "j \<noteq> i" for j bss'
    using assms(4) that by (intro rest_ok_plain) blast
  moreover have "\<exists>j. is_busy (((pcs s)(i := Sending c bs r)) j)" by (rule exI [of _ i]) simp
  ultimately show ?thesis using others_ok_write [OF g(1)] g(2,3) unfolding assms(3) conns_ok_def used_ok_def by simp
qed

lemma conn_good_write_end:
  assumes "conn_good w s" and "pcs s i = Sending c [] r" and "\<And>j. is_busy (pcs s j) \<Longrightarrow> j = i"
  shows "conns_ok w ((pcs s)(i := Leaving r)) (initialized_flag s) (conn s) (conns s)"
proof -
  have q: "\<And>j. \<not> is_busy (((pcs s)(i := Leaving r)) j)" using assms(3) by auto
  have "rest_ok w (conn s) (conns s) (Sending c [] r)" using assms(1,2) unfolding conns_ok_def by metis
  then obtain k ms where k: "conn s = Some k" "conns s ! k = ms @ concat (w c r)" "whole w ms"
    by (cases "conn s") auto
  have "whole w (conns s ! k)" unfolding k(2) using k(3) by (rule whole_snoc)
  then show ?thesis using assms(1) k(1) unfolding conns_ok_quiet [OF q] by (auto simp: conns_ok_def used_ok_def)
qed

text \<open>The whole invariant.\<close>

definition threads_inv :: "('c \<Rightarrow> 'r \<Rightarrow> byte list list) \<Rightarrow> ('c, 'r) shared \<Rightarrow> bool" where
  "threads_inv w s \<longleftrightarrow> mutex_inv s \<and> conn_good w s"

lemma threads_inv_start: "threads_inv w shared0"
  by (simp add: threads_inv_def mutex_inv_def mutex_ok_def conns_ok_def others_ok_def used_ok_def shared0_def)

lemma threads_inv_step:
  assumes "thread_step late w i s t" and "threads_inv w s"
  shows "threads_inv w t"
proof -
  have m: "mutex_inv s" and g: "conn_good w s" using assms(2) by (simp_all add: threads_inv_def)
  have nob: "\<And>j. \<not> is_busy (pcs s j)" if "holds_mutex (pcs s i)" "\<not> is_busy (pcs s i)"
    using nobody_busy [OF m that] by blast
  have own: "\<And>j. is_busy (pcs s j) \<Longrightarrow> j = i" if "is_busy (pcs s i)"
    using only_holder [OF m busy_holds [OF that] busy_holds] by blast
  have "conn_good w t"
    using assms(1)
  proof cases
    case (init_done c)
    with conns_ok_plain [OF g, of i "Initialized c"] show ?thesis by simp
  next
    case (real_only c r)
    with conns_ok_plain [OF g, of i "Leaving r"] show ?thesis by simp
  next
    case cleanup_nothing
    with conns_ok_plain [OF g, of i Cleanup_Leaving] show ?thesis by simp
  next
    case (init_connect c)
    with conn_good_connect [OF g _ nob, of i c] show ?thesis by simp
  next
    case (init_no_connection c b)
    then have n: "conn s = None" using g unfolding conns_ok_def used_ok_def by (cases "conn s") simp_all
    with init_no_connection conns_ok_plain [OF g, of i "Initialized c"] show ?thesis
      by (simp add: conns_ok_def used_ok_def)
  next
    case (real_report c r)
    then obtain k where "conn s = Some k" by blast
    with real_report conn_good_report [OF g _ nob, of k i c r] show ?thesis by simp
  next
    case (write_one c b bs r k)
    with conn_good_write [OF g _ _ own, of c b bs r k] show ?thesis by (simp add: send_on_def)
  next
    case (write_end c r)
    with conn_good_write_end [OF g _ own, of c r] show ?thesis by simp
  next
    case cleanup_no_socket
    with conns_ok_plain [OF g, of i Cleanup_Leaving] show ?thesis by (simp add: conns_ok_def used_ok_def)
  next
    case (cleanup_done k)
    with conn_good_done [OF g _ nob, of k i] show ?thesis by (simp add: send_on_def)
  next
    case cleanup_dead
    with conn_good_dead [OF g _ nob, of i] show ?thesis by simp
  next
    case cleanup_close
    with conn_good_ending [OF g, of i Cleanup_Closed] show ?thesis by simp
  next
    case cleanup_close_waits
    with conn_good_ending [OF g, of i Cleanup_Calling] show ?thesis by simp
  next
    case cleanup_reset
    with conn_good_reset [OF g _ own] show ?thesis by simp
  qed (simp_all add: conns_ok_plain [OF g])
  with mutex_inv_step [OF assms(1) m] show ?thesis by (simp add: threads_inv_def)
qed

lemma threads_inv_observer: "threads_inv w s \<Longrightarrow> threads_inv w (s\<lparr>full := b\<rparr>)"
  by (simp add: threads_inv_def mutex_inv_def)

lemma reachable_inv: "reachable late w s \<Longrightarrow> threads_inv w s"
  by (induction rule: reachable.induct) (auto intro: threads_inv_start threads_inv_step threads_inv_observer)

section \<open>The streams\<close>

lemma streams_whole:
  assumes "reachable late w s" and "holder s = None" and "bs \<in> set (conns s)"
  shows "whole w bs \<or> ended w bs"
proof -
  have m: "mutex_inv s" and g: "conn_good w s"
    using reachable_inv [OF assms(1)] by (simp_all add: threads_inv_def)
  have q: "\<not> is_busy (pcs s j)" for j
    using m assms(2) busy_holds [of "pcs s j"] by (auto simp: mutex_inv_def mutex_ok_def)
  obtain k where "k < length (conns s)" "bs = conns s ! k" using assms(3) by (metis in_set_conv_nth)
  moreover have "others_ok w (conn s) (conns s)" "\<forall>k. conn s = Some k \<longrightarrow> whole w (conns s ! k)"
    using g unfolding conns_ok_quiet [OF q] by simp_all
  ultimately show ?thesis unfolding others_ok_def by blast
qed

text \<open>A thread's run from the mutex to its release, when nobody interferes.\<close>

lemma reachable_sending:
  assumes "reachable late w s" and "pcs s i = Sending c bs r" and "conn s = Some k" and "k < length (conns s)" and "\<not> full s"
  shows "reachable late w (goto i (Sending c [] r) (send_on k (concat bs) s))"
  using assms
proof (induction bs arbitrary: s)
  case Nil
  then have "goto i (Sending c [] r) (send_on k (concat []) s) = s"
    by (simp add: goto_def send_on_def fun_upd_idem)
  with Nil show ?case by simp
next
  case (Cons b bs)
  let ?t = "goto i (Sending c bs r) (send_on k b s)"
  have "thread_step late w i s ?t" using Cons.prems(2,3,5) by (rule write_one)
  then have "reachable late w ?t" by (rule reachable.step [OF Cons.prems(1)])
  from Cons.IH [OF this] have "reachable late w (goto i (Sending c [] r) (send_on k (concat bs) ?t))"
    using Cons.prems(3-5) by simp
  moreover have "goto i (Sending c [] r) (send_on k (concat bs) ?t) = goto i (Sending c [] r) (send_on k (concat (b # bs)) s)"
    using Cons.prems(4) by (simp add: goto_def send_on_def)
  ultimately show ?case by simp
qed

definition after_report :: "('c \<Rightarrow> 'r \<Rightarrow> byte list list) \<Rightarrow> nat \<Rightarrow> 'c \<Rightarrow> 'r \<Rightarrow> ('c, 'r) shared \<Rightarrow> ('c, 'r) shared" where
  "after_report w i c r s = s\<lparr>pcs := (pcs s)(i := Idle), holder := None, initialized_flag := True,
     conn := Some (length (conns s)), unconnected := False, conns := conns s @ [concat (w c r)]\<rparr>"

lemma reachable_first_report:
  assumes "reachable late w s" and "pcs s i = Checked c" and "holder s = None" and "\<not> initialized_flag s"
    and "\<not> full s"
  shows "reachable late w (after_report w i c r s)"
proof -
  let ?k = "length (conns s)"
  let ?s1 = "goto i (Holding c) (s\<lparr>holder := Some i\<rparr>)"
  let ?s2 = "goto i (Initialized c) (?s1\<lparr>initialized_flag := True, conn := Some ?k, unconnected := False,
    conns := conns s @ [[]]\<rparr>)"
  let ?s3 = "goto i (Sending c (w c r) r) ?s2"
  let ?s4 = "goto i (Sending c [] r) (send_on ?k (concat (w c r)) ?s3)"
  let ?s5 = "goto i (Leaving r) ?s4"
  let ?s6 = "goto i Idle (?s5\<lparr>holder := None\<rparr>)"
  have 1: "reachable late w ?s1" by (rule reachable.step [OF assms(1)], rule thread_step.lock [OF assms(2,3)])
  have "thread_step late w i ?s1 ?s2"
    using thread_step.init_connect [where s = ?s1 and i = i and c = c and late = late and w = w] assms(4) by simp
  then have 2: "reachable late w ?s2" by (rule reachable.step [OF 1])
  have "thread_step late w i ?s2 ?s3" by (rule thread_step.real_report) simp_all
  then have 3: "reachable late w ?s3" by (rule reachable.step [OF 2])
  have 4: "reachable late w ?s4" by (rule reachable_sending [OF 3]) (use assms(5) in simp_all)
  have "thread_step late w i ?s4 ?s5" by (rule thread_step.write_end [where c = c]) simp
  then have 5: "reachable late w ?s5" by (rule reachable.step [OF 4])
  have "thread_step late w i ?s5 ?s6" by (rule thread_step.unlock [where r = r]) simp
  then have 6: "reachable late w ?s6" by (rule reachable.step [OF 5])
  have "?s6 = after_report w i c r s"
    by (simp add: after_report_def goto_def send_on_def)
  with 6 show ?thesis by simp
qed

section \<open>The mutex is always released\<close>

text \<open>
  The destructor has set the flag, if the library has one, before it comes to its call of \<open>close\<close>; so
  this call never waits.
\<close>

fun flag_ok :: "bool \<Rightarrow> ('c, 'r) pc \<Rightarrow> bool" where
  "flag_ok f Cleanup_Flagged = f"
| "flag_ok f Cleanup_Ended = f"
| "flag_ok f Cleanup_Calling = False"
| "flag_ok f _ = True"

definition flag_inv :: "bool \<Rightarrow> ('c, 'r) shared \<Rightarrow> bool" where
  "flag_inv late s \<longleftrightarrow> (\<forall>i. flag_ok (late \<longrightarrow> finalized_flag s) (pcs s i))"

lemma flag_ok_mono: "flag_ok f p \<Longrightarrow> (f \<Longrightarrow> f') \<Longrightarrow> flag_ok f' p"
  by (cases p) simp_all

lemma flag_inv_step:
  assumes "thread_step late w i s t" and "flag_inv late s"
  shows "flag_inv late t"
proof -
  have fl: "flag_ok (late \<longrightarrow> finalized_flag s) (pcs s j)" for j using assms(2) unfolding flag_inv_def by blast
  have up: "finalized_flag s \<Longrightarrow> finalized_flag t" using assms(1) by cases simp_all
  have new: "flag_ok (late \<longrightarrow> finalized_flag t) (pcs t i)"
    using assms(1) fl [of i] by cases simp_all
  have old: "pcs t j = pcs s j" if "j \<noteq> i" for j using assms(1) that by cases simp_all
  have "flag_ok (late \<longrightarrow> finalized_flag t) (pcs t j)" for j
  proof (cases "j = i")
    case True
    with new show ?thesis by simp
  next
    case False
    have "flag_ok (late \<longrightarrow> finalized_flag t) (pcs s j)" using up by (blast intro: flag_ok_mono [OF fl])
    with old [OF False] show ?thesis by simp
  qed
  then show ?thesis unfolding flag_inv_def by blast
qed

lemma reachable_flag: "reachable late w s \<Longrightarrow> flag_inv late s"
proof (induction rule: reachable.induct)
  case start
  show ?case by (simp add: flag_inv_def shared0_def)
next
  case (step s i t)
  from step.hyps(2) step.IH show ?case by (rule flag_inv_step)
next
  case (observer s b)
  then show ?case by (simp add: flag_inv_def)
qed

text \<open>The places where the thread waits for the observer: before a write while the buffer is full.\<close>

fun at_write :: "bool \<Rightarrow> ('c, 'r) pc \<Rightarrow> bool" where
  "at_write live_socket (Sending c (b # bs) r) = True"
| "at_write live_socket Cleanup_Flagged = live_socket"
| "at_write live_socket _ = False"

definition write_waits :: "nat \<Rightarrow> ('c, 'r) shared \<Rightarrow> bool" where
  "write_waits i s \<longleftrightarrow> full s \<and> at_write (initialized_flag s \<and> conn s \<noteq> None) (pcs s i)"

text \<open>
  The steps the holder of the mutex has before it at most, when the report of a call \<open>c\<close> takes \<open>cost c\<close>
  writes at most.
\<close>

fun steps_left :: "('c \<Rightarrow> nat) \<Rightarrow> ('c, 'r) pc \<Rightarrow> nat" where
  "steps_left cost (Holding c) = cost c + 4"
| "steps_left cost (Initialized c) = cost c + 3"
| "steps_left cost (Sending c bs r) = length bs + 2"
| "steps_left cost (Leaving r) = 1"
| "steps_left cost Cleanup_Holding = 5"
| "steps_left cost Cleanup_Flagged = 4"
| "steps_left cost Cleanup_Ended = 3"
| "steps_left cost Cleanup_Closed = 2"
| "steps_left cost Cleanup_Leaving = 1"
| "steps_left cost _ = 0"

lemma holder_advances:
  assumes "thread_step late w i s t" and "holder s = Some i" and "holds_mutex (pcs s i)"
    and "\<And>c r. length (w c r) \<le> cost c"
  shows "holder t = None \<or> holder t = Some i \<and> steps_left cost (pcs t i) < steps_left cost (pcs s i)"
  using assms(1)
proof cases
  case (real_report c r)
  then show ?thesis using assms(2) assms(4) [of c r] by simp
qed (use assms(2,3) in simp_all)

lemma waiting_stops:
  assumes "thread_step late w i s t"
  shows "\<not> write_waits i s"
  using assms by cases (simp_all add: write_waits_def)

lemma holder_can_step:
  assumes "holds_mutex (pcs s i)" and "conn_good w s" and "flag_inv late s" and "\<not> write_waits i s"
  shows "\<exists>t. thread_step late w i s t"
proof (cases "pcs s i")
  case (Sending c bs r)
  have "rest_ok w (conn s) (conns s) (pcs s i)" using assms(2) by (simp add: conns_ok_def)
  then obtain k where k: "conn s = Some k" using Sending by auto
  show ?thesis
  proof (cases bs)
    case Nil
    with Sending show ?thesis by (blast intro: thread_step.write_end)
  next
    case (Cons b bs')
    then have "\<not> full s" using assms(4) Sending by (simp add: write_waits_def)
    with Cons Sending k show ?thesis by (blast intro: thread_step.write_one)
  qed
next
  case (Holding c)
  then show ?thesis by (cases "initialized_flag s") (blast intro: thread_step.init_done thread_step.init_connect)+
next
  case (Initialized c)
  then show ?thesis by (cases "conn s = None") (blast intro: thread_step.real_only thread_step.real_report)+
next
  case Cleanup_Flagged
  show ?thesis
  proof (cases "initialized_flag s")
    case False
    with Cleanup_Flagged show ?thesis by (blast intro: thread_step.cleanup_nothing)
  next
    case ini: True
    show ?thesis
    proof (cases "conn s")
      case None
      then show ?thesis
        using Cleanup_Flagged ini by (cases "unconnected s") (blast intro: thread_step.cleanup_dead thread_step.cleanup_no_socket)+
    next
      case (Some k)
      then have "\<not> full s" using assms(4) Cleanup_Flagged ini by (simp add: write_waits_def)
      with Some Cleanup_Flagged ini show ?thesis by (blast intro: thread_step.cleanup_done)
    qed
  qed
next
  case Cleanup_Ended
  have "flag_ok (late \<longrightarrow> finalized_flag s) (pcs s i)" using assms(3) unfolding flag_inv_def by blast
  then have "late \<longrightarrow> finalized_flag s" using Cleanup_Ended by simp
  with Cleanup_Ended show ?thesis by (blast intro: thread_step.cleanup_close)
next
  case Cleanup_Calling
  have "flag_ok (late \<longrightarrow> finalized_flag s) (pcs s i)" using assms(3) unfolding flag_inv_def by blast
  with Cleanup_Calling show ?thesis by simp
next
  case Cleanup_Closed
  then show ?thesis by (blast intro: thread_step.cleanup_reset)
next
  case Cleanup_Leaving
  then show ?thesis by (blast intro: thread_step.cleanup_unlock)
next
  case Cleanup_Holding
  then show ?thesis by (blast intro: thread_step.cleanup_flag)
next
  case (Leaving r)
  then show ?thesis by (blast intro: thread_step.unlock)
qed (use assms(1) in simp_all)

lemma others_wait:
  assumes "thread_step late w j s t" and "j \<noteq> i" and "holder s = Some i" and "mutex_inv s"
  shows "holder t = Some i \<and> pcs t i = pcs s i"
proof -
  have "\<not> holds_mutex (pcs s j)" using assms(2-4) by (simp add: mutex_inv_def mutex_ok_def)
  from assms(1) this assms(2,3) show ?thesis by cases simp_all
qed

lemma holder_holds: "mutex_inv s \<Longrightarrow> holder s = Some i \<Longrightarrow> holds_mutex (pcs s i)"
  by (simp add: mutex_inv_def mutex_ok_def)

section \<open>The interface of a library that reports under its mutex\<close>

text \<open>
  The writes of a report make the message of its event (no event at all for a call that is not
  reported), and their number is bounded by the call.
\<close>

locale reporting =
  fixes writes :: "'c \<Rightarrow> 'r \<Rightarrow> byte list list"
    and report :: "'c \<Rightarrow> 'r \<Rightarrow> event list"
    and options :: u8
    and cost :: "'c \<Rightarrow> nat"
  assumes writes_report: "concat (writes c r) = enc_msgs options (report c r)"
    and writes_cost: "length (writes c r) \<le> cost c"
begin

lemma whole_messages: "whole writes bs \<longleftrightarrow> (\<exists>cs. bs = enc_msgs options (concat (map (\<lambda>(c, r). report c r) cs)))"
proof -
  have "concat (map (\<lambda>(c, r). concat (writes c r)) cs) = enc_msgs options (concat (map (\<lambda>(c, r). report c r) cs))" for cs
    by (induction cs) (auto simp: writes_report enc_msgs_def)
  then show ?thesis unfolding whole_def by simp
qed

lemma messages_whole:
  assumes "reachable late writes s" and "holder s = None" and "bs \<in> set (conns s)"
  shows "\<exists>cs. bs = enc_msgs options (concat (map (\<lambda>(c, r). report c r) cs))
    \<or> bs = enc_msgs options (concat (map (\<lambda>(c, r). report c r) cs)) @ enc_done"
  using streams_whole [OF assms] unfolding ended_def whole_messages by blast

lemma mutex_released:
  assumes "reachable late writes s" and "holder s = Some i"
  shows "((\<exists>t. thread_step late writes i s t) \<longleftrightarrow> \<not> write_waits i s)
    \<and> (\<exists>t. thread_step late writes i (s\<lparr>full := False\<rparr>) t)
    \<and> (\<forall>t. thread_step late writes i s t \<longrightarrow>
        holder t = None \<or> holder t = Some i \<and> steps_left cost (pcs t i) < steps_left cost (pcs s i))
    \<and> (\<forall>j t. j \<noteq> i \<and> thread_step late writes j s t \<longrightarrow> holder t = Some i \<and> pcs t i = pcs s i)"
proof -
  have inv: "mutex_inv s" "conn_good writes s" using reachable_inv [OF assms(1)] by (simp_all add: threads_inv_def)
  have h: "holds_mutex (pcs s i)" by (rule holder_holds [OF inv(1) assms(2)])
  have can: "(\<exists>t. thread_step late writes i u t) \<longleftrightarrow> \<not> write_waits i u"
    if "reachable late writes u" "pcs u = pcs s" for u
    using holder_can_step [of u i writes late] reachable_inv [OF that(1)] h reachable_flag [OF that(1)] waiting_stops
    unfolding that(2) threads_inv_def by blast
  have "\<not> write_waits i (s\<lparr>full := False\<rparr>)" by (simp add: write_waits_def)
  then have "\<exists>t. thread_step late writes i (s\<lparr>full := False\<rparr>) t"
    using can [OF reachable.observer [OF assms(1)], of False] by simp
  then show ?thesis
    using can [OF assms(1) refl] holder_advances [where w = writes and cost = cost, OF _ assms(2) h writes_cost]
      others_wait [where w = writes, OF _ _ assms(2) inv(1)] by blast
qed

end

end
