(* ===== verification/Close_Threads.thy ===== *)
theory Close_Threads
  imports Threads Close_Interposer
begin

text \<open>
  The interposed \<open>close\<close> under several threads: the instance of \<open>Threads\<close> with the flag and the writes of
  \<open>src/voyeur-close.c\<close>, and the race that the flag leaves.
\<close>

section \<open>The instance\<close>

text \<open>The writes of one report, in order; a call is its argument, and what it returns its result.\<close>

definition close_writes :: "pid_t \<Rightarrow> cint \<Rightarrow> cint \<Rightarrow> byte list list" where
  "close_writes pid fildes r =
     [obj32 (msg_type_val VOYEUR_MSG_EVENT), obj32 (event_type_val VOYEUR_EVENT_CLOSE), obj32 fildes, obj32 r, obj32 pid]"

type_synonym close_state = "(cint, cint) shared"

definition close_reports :: "pid_t \<Rightarrow> (cint \<times> cint) list \<Rightarrow> event list" where
  "close_reports pid cs = map (\<lambda>(c, r). Close_Event c r pid) cs"

lemma close_writes_msg: "concat (close_writes pid c r) = enc_msg options (Close_Event c r pid)"
  by (simp add: close_writes_def enc_msg_def)

text \<open>These are the writes of \<open>report_close\<close>, one for one, each with its error dropped.\<close>

lemma get_after_report:
  assumes "quiet (report_frame fd) m"
  shows "io_then m (io_bind (io_get self_pid) k) s = io_then m (k (self_pid s)) s"
proof (cases rule: quietE [OF assms, of s])
  case 1
  then show ?thesis by (simp add: io_then_def io_bind_def)
next
  case (2 v t)
  then show ?thesis using report_frame_process(6) [OF 2(2)] by simp
qed

lemma ignore_last: "io_then (io_ignore m) (io_ret ()) = io_ignore m"
  by (rule ext) (simp add: io_then_def io_bind_def io_ignore_def split: res.split)

lemma report_close_writes:
  "report_close fd fildes r s =
     io_each (\<lambda>b. io_ignore (do_write fd b (word_of_nat (length b)))) (close_writes (self_pid s) fildes r) s"
proof -
  let ?m = "io_then (io_ignore (voyeur_write_msg_type fd VOYEUR_MSG_EVENT))
     (io_then (io_ignore (voyeur_write_event_type fd VOYEUR_EVENT_CLOSE))
     (io_then (io_ignore (voyeur_write_int fd fildes)) (io_ignore (voyeur_write_int fd r))))"
  have "quiet (report_frame fd) ?m" by (intro quiet_reports)
  from get_after_report [OF this, of "\<lambda>pid. io_ignore (voyeur_write_pid fd pid)" s]
  have "report_close fd fildes r s = io_then ?m (io_ignore (voyeur_write_pid fd (self_pid s))) s"
    by (simp add: report_close_def io_then_assoc)
  also have "\<dots> = io_each (\<lambda>b. io_ignore (do_write fd b (word_of_nat (length b)))) (close_writes (self_pid s) fildes r) s"
    by (simp add: close_writes_def io_then_assoc voyeur_write_msg_type_def voyeur_write_event_type_def
        voyeur_write_int_def voyeur_write_pid_def ignore_last)
  finally show ?thesis .
qed

interpretation close_reporting: reporting "close_writes pid" "\<lambda>c r. [Close_Event c r pid]" options "\<lambda>_. 5"
  by unfold_locales (simp_all only: close_writes_msg enc_msgs_simps append_Nil2, simp add: close_writes_def)

lemma close_writes_one: "concat (close_writes pid c r) = enc_msgs 0 (close_reports pid [(c, r)])"
  by (simp add: close_writes_msg [where options = 0] close_reports_def)

lemma close_reports_concat: "concat (map (\<lambda>(c, r). [Close_Event c r pid]) cs) = close_reports pid cs"
  by (induction cs) (auto simp: close_reports_def)

section \<open>The streams\<close>

text \<open>
  C6: however the calls of any number of threads and the destructor interleave, whenever the mutex is
  free every connection the library ever made carries whole messages of close events and nothing else
  but, at its very end, the message that ends the stream: no message is mixed with another, and nothing
  follows the end.
\<close>

theorem close_streams_whole:
  assumes "reachable True (close_writes pid) s" and "holder s = None" and "bs \<in> set (conns s)"
  shows "\<exists>cs. bs = enc_msgs 0 (close_reports pid cs) \<or> bs = enc_msgs 0 (close_reports pid cs) @ enc_done"
  using close_reporting.messages_whole [OF assms, of 0] unfolding close_reports_concat .

lemma reachable_cleanup:
  assumes "reachable True (close_writes pid) s" and "pcs s i = Idle" and "holder s = None" and "initialized_flag s"
    and "conn s = Some k" and "\<not> full s"
  shows "reachable True (close_writes pid) (s\<lparr>finalized_flag := True, initialized_flag := False, conn := None,
    unconnected := False, conns := (conns s)[k := conns s ! k @ enc_done]\<rparr>)"
proof -
  let ?s1 = "goto i Cleanup_Waiting s"
  let ?s2 = "goto i Cleanup_Holding (?s1\<lparr>holder := Some i\<rparr>)"
  let ?s3 = "goto i Cleanup_Flagged (?s2\<lparr>finalized_flag := True\<rparr>)"
  let ?s4 = "goto i Cleanup_Ended (send_on k enc_done ?s3)"
  let ?s5 = "goto i Cleanup_Closed ?s4"
  let ?s6 = "goto i Cleanup_Leaving (?s5\<lparr>conn := None, unconnected := False, initialized_flag := False\<rparr>)"
  let ?s7 = "goto i Idle (?s6\<lparr>holder := None\<rparr>)"
  have 1: "reachable True (close_writes pid) ?s1" by (rule reachable.step [OF assms(1)], rule thread_step.cleanup [OF assms(2)])
  have "thread_step True (close_writes pid) i ?s1 ?s2" by (rule thread_step.cleanup_lock) (use assms(3) in simp_all)
  then have 2: "reachable True (close_writes pid) ?s2" by (rule reachable.step [OF 1])
  have "thread_step True (close_writes pid) i ?s2 ?s3"
    using thread_step.cleanup_flag [where s = ?s2 and i = i and late = True and w = "close_writes pid"] by simp
  then have 3: "reachable True (close_writes pid) ?s3" by (rule reachable.step [OF 2])
  have "thread_step True (close_writes pid) i ?s3 ?s4" by (rule thread_step.cleanup_done) (use assms(4-6) in simp_all)
  then have 4: "reachable True (close_writes pid) ?s4" by (rule reachable.step [OF 3])
  have "thread_step True (close_writes pid) i ?s4 ?s5" by (rule thread_step.cleanup_close) simp_all
  then have 5: "reachable True (close_writes pid) ?s5" by (rule reachable.step [OF 4])
  have "thread_step True (close_writes pid) i ?s5 ?s6" by (rule thread_step.cleanup_reset) simp
  then have 6: "reachable True (close_writes pid) ?s6" by (rule reachable.step [OF 5])
  have "thread_step True (close_writes pid) i ?s6 ?s7" by (rule thread_step.cleanup_unlock) simp
  then have 7: "reachable True (close_writes pid) ?s7" by (rule reachable.step [OF 6])
  have "?s7 = s\<lparr>finalized_flag := True, initialized_flag := False, conn := None, unconnected := False,
      conns := (conns s)[k := conns s ! k @ enc_done]\<rparr>"
    using assms(2,3) by (cases s) (simp add: goto_def send_on_def fun_upd_idem)
  with 7 show ?thesis by simp
qed

text \<open>Two threads and the destructor: the state after the first report, and the late one.\<close>

lemma race_run:
  "reachable True (close_writes pid) \<lparr>pcs = (\<lambda>_. Idle), holder = None, finalized_flag = True, initialized_flag = True, conn = Some 1,
     unconnected = False, conns = [enc_msgs 0 (close_reports pid [(c, r)]) @ enc_done, enc_msgs 0 (close_reports pid [(c', r')])],
     full = False\<rparr>"
proof -
  let ?s1 = "goto 0 (Checked c) shared0"
  have "reachable True (close_writes pid) ?s1"
    by (rule reachable.step [OF reachable.start], rule thread_step.call) (simp_all add: shared0_def)
  from reachable_first_report [OF this, of 0 c r]
  have 2: "reachable True (close_writes pid) (after_report (close_writes pid) 0 c r ?s1)" by (simp add: shared0_def)
  let ?s3 = "goto 1 (Checked c') (after_report (close_writes pid) 0 c r ?s1)"
  have 3: "reachable True (close_writes pid) ?s3"
    by (rule reachable.step [OF 2], rule thread_step.call) (simp_all add: shared0_def after_report_def)
  let ?s4 = "?s3\<lparr>finalized_flag := True, initialized_flag := False, conn := None,
    unconnected := False, conns := [enc_msgs 0 (close_reports pid [(c, r)]) @ enc_done]\<rparr>"
  have 4: "reachable True (close_writes pid) ?s4"
    using reachable_cleanup [OF 3, of 0 0] by (simp add: after_report_def close_writes_one shared0_def)
  have "reachable True (close_writes pid) (after_report (close_writes pid) 1 c' r' ?s4)"
    by (rule reachable_first_report [OF 4]) (simp_all add: after_report_def shared0_def)
  moreover have "after_report (close_writes pid) 1 c' r' ?s4 = \<lparr>pcs = (\<lambda>_. Idle), holder = None, finalized_flag = True,
      initialized_flag = True, conn = Some 1, unconnected = False,
      conns = [enc_msgs 0 (close_reports pid [(c, r)]) @ enc_done, enc_msgs 0 (close_reports pid [(c', r')])], full = False\<rparr>"
    by (auto simp: after_report_def close_writes_one shared0_def goto_def)
  ultimately show ?thesis by simp
qed

text \<open>The steps of the program's calls and of the observer, once the destructor has run: nobody runs it again.\<close>

inductive late_step :: "pid_t \<Rightarrow> close_state \<Rightarrow> close_state \<Rightarrow> bool" for pid :: pid_t where
  program: "thread_step True (close_writes pid) i s t \<Longrightarrow> pcs t i \<noteq> Cleanup_Waiting \<Longrightarrow> late_step pid s t"
| observer: "late_step pid s (s\<lparr>full := b\<rparr>)"

fun only_forwards :: "(cint, cint) pc \<Rightarrow> bool" where
  "only_forwards Idle = True"
| "only_forwards (Forwarding c) = True"
| "only_forwards _ = False"

lemma late_step_conns:
  assumes "late_step pid s t" and "finalized_flag s" and "\<And>i. only_forwards (pcs s i)"
  shows "conns t = conns s \<and> finalized_flag t \<and> (\<forall>i. only_forwards (pcs t i))"
  using assms(1)
proof cases
  case (program i)
  have "only_forwards (pcs s i)" by (rule assms(3))
  from program(1) this program(2) assms(2,3) show ?thesis by cases simp_all
qed (use assms(2,3) in simp)

lemma late_steps_conns:
  assumes "(late_step pid)\<^sup>*\<^sup>* s t" and "finalized_flag s" and "\<And>i. only_forwards (pcs s i)"
  shows "conns t = conns s \<and> finalized_flag t \<and> (\<forall>i. only_forwards (pcs t i))"
  using assms(1)
proof (induction rule: rtranclp_induct)
  case base
  show ?case using assms(2,3) by simp
next
  case (step t u)
  then show ?case using late_step_conns [OF step.hyps(2)] by auto
qed

text \<open>
  C24: a race with the destructor. The flag is tested before the mutex is taken, so a thread that has
  passed the test when the destructor runs initialises the library again: it opens a second connection
  after the first one was ended, and reports there. The destructor does not run again and every later
  call is forwarded, so that this stream never gets its end.
\<close>

theorem close_destructor_race:
  "\<exists>s. reachable True (close_writes pid) s \<and> finalized_flag s \<and> (\<forall>i. pcs s i = Idle)
    \<and> conns s = [enc_msgs 0 [Close_Event c r pid] @ enc_done, enc_msgs 0 [Close_Event c' r' pid]]
    \<and> conns ` {t. (late_step pid)\<^sup>*\<^sup>* s t} = {conns s}"
proof -
  let ?s = "\<lparr>pcs = (\<lambda>_. Idle), holder = None, finalized_flag = True, initialized_flag = True, conn = Some 1,
     unconnected = False, conns = [enc_msgs 0 (close_reports pid [(c, r)]) @ enc_done, enc_msgs 0 (close_reports pid [(c', r')])],
     full = False\<rparr>"
  have "conns t = conns ?s" if "(late_step pid)\<^sup>*\<^sup>* ?s t" for t
    using late_steps_conns [OF that] by simp
  then have "conns ` {t. (late_step pid)\<^sup>*\<^sup>* ?s t} = {conns ?s}" by auto
  with race_run [of pid c r c' r'] show ?thesis
    by (intro exI [of _ ?s]) (simp add: close_reports_def)
qed

section \<open>The mutex is always released\<close>

text \<open>
  C25: no deadlock: in every reachable state the thread that holds the mutex, a caller or the destructor,
  can go on, unless it is about to write while the buffer of its connection is full, and then it waits
  for nothing but the observer: as soon as there is room it goes on. In particular the destructor, which
  calls the interposed \<open>close\<close> while it holds the mutex, never waits for itself. Each step of the holder
  brings it nearer to the release, and no other thread can take the mutex or move the holder meanwhile.
\<close>

theorem close_mutex_released:
  assumes "reachable True (close_writes pid) s" and "holder s = Some i"
  shows "((\<exists>t. thread_step True (close_writes pid) i s t) \<longleftrightarrow> \<not> write_waits i s)
    \<and> (\<exists>t. thread_step True (close_writes pid) i (s\<lparr>full := False\<rparr>) t)
    \<and> (\<forall>t. thread_step True (close_writes pid) i s t \<longrightarrow>
        holder t = None \<or> holder t = Some i \<and> steps_left (\<lambda>_. 5) (pcs t i) < steps_left (\<lambda>_. 5) (pcs s i))
    \<and> (\<forall>j t. j \<noteq> i \<and> thread_step True (close_writes pid) j s t \<longrightarrow> holder t = Some i \<and> pcs t i = pcs s i)"
  using assms by (rule close_reporting.mutex_released)

text \<open>A sample: a thread is about to send its report when another one waits for the mutex.\<close>

definition ex_waiting :: close_state where
  "ex_waiting = \<lparr>pcs = (\<lambda>_. Idle)(0 := Sending 3 (close_writes 7 3 0) 0, 1 := Checked 4), holder = Some 0,
     finalized_flag = False, initialized_flag = True, conn = Some 0, unconnected = False, conns = [[]], full = False\<rparr>"

lemma ex_waiting_reachable: "reachable True (close_writes 7) ex_waiting"
proof -
  let ?s1 = "goto 0 (Checked 3) (shared0 :: close_state)" and ?w = "close_writes 7"
  let ?s2 = "goto 0 (Holding 3) (?s1\<lparr>holder := Some 0\<rparr>)"
  let ?s3 = "goto 0 (Initialized 3) (?s2\<lparr>initialized_flag := True, conn := Some (length (conns ?s2)), unconnected := False,
    conns := conns ?s2 @ [[]]\<rparr>)"
  let ?s4 = "goto 0 (Sending 3 (?w 3 0) 0) ?s3"
  have 1: "reachable True ?w ?s1"
    by (rule reachable.step [OF reachable.start], rule thread_step.call) (simp_all add: shared0_def)
  have 2: "reachable True ?w ?s2"
    by (rule reachable.step [OF 1], rule thread_step.lock) (simp_all add: shared0_def)
  have 3: "reachable True ?w ?s3"
    by (rule reachable.step [OF 2], rule thread_step.init_connect) (simp_all add: shared0_def)
  have 4: "reachable True ?w ?s4"
    by (rule reachable.step [OF 3], rule thread_step.real_report) simp_all
  have 5: "reachable True ?w (goto 1 (Checked 4) ?s4)"
    by (rule reachable.step [OF 4], rule thread_step.call) (simp_all add: shared0_def)
  have "goto 1 (Checked 4) ?s4 = ex_waiting"
    by (auto simp: goto_def shared0_def ex_waiting_def)
  with 5 show ?thesis by simp
qed

theorem close_mutex_released_witness:
  "reachable True (close_writes 7) ex_waiting \<and> pcs ex_waiting 1 = Checked 4
    \<and> (\<exists>t. thread_step True (close_writes 7) 0 ex_waiting t)
    \<and> \<not> (\<exists>t. thread_step True (close_writes 7) 0 (ex_waiting\<lparr>full := True\<rparr>) t)"
proof -
  have f: "holder ex_waiting = Some 0" "pcs ex_waiting 1 = Checked 4" "\<not> write_waits 0 ex_waiting"
    "write_waits 0 (ex_waiting\<lparr>full := True\<rparr>)"
    by (simp_all add: ex_waiting_def write_waits_def close_writes_def)
  have h: "holder (ex_waiting\<lparr>full := True\<rparr>) = Some 0" using f(1) by simp
  have "\<exists>t. thread_step True (close_writes 7) 0 ex_waiting t"
    using close_mutex_released [OF ex_waiting_reachable f(1)] f(3) by blast
  moreover have "\<not> (\<exists>t. thread_step True (close_writes 7) 0 (ex_waiting\<lparr>full := True\<rparr>) t)"
    using close_mutex_released [OF reachable.observer [OF ex_waiting_reachable] h] f(4) by blast
  ultimately show ?thesis using ex_waiting_reachable f(2) by blast
qed

theorem close_streams_whole_witness:
  "\<exists>s cs. reachable True (close_writes 7) s \<and> holder s = None \<and> conns s = [enc_msgs 0 [Close_Event 3 0 7] @ enc_done,
       enc_msgs 0 [Close_Event 4 (-1) 7]]
     \<and> (conns s ! 0 = enc_msgs 0 (close_reports 7 cs) \<or> conns s ! 0 = enc_msgs 0 (close_reports 7 cs) @ enc_done)"
proof -
  let ?s = "\<lparr>pcs = (\<lambda>_. Idle), holder = None, finalized_flag = True, initialized_flag = True, conn = Some 1,
     unconnected = False, conns = [enc_msgs 0 (close_reports 7 [(3, 0)]) @ enc_done, enc_msgs 0 (close_reports 7 [(4, -1)])],
     full = False\<rparr>"
  have r: "reachable True (close_writes 7) ?s" by (rule race_run)
  have "conns ?s ! 0 \<in> set (conns ?s)" by simp
  from close_streams_whole [OF r _ this] obtain cs where
    "conns ?s ! 0 = enc_msgs 0 (close_reports 7 cs) \<or> conns ?s ! 0 = enc_msgs 0 (close_reports 7 cs) @ enc_done" by auto
  with r show ?thesis by (intro exI [of _ ?s] exI [of _ cs]) (simp add: close_reports_def)
qed

end
