(* ===== verification/Open_Threads.thy ===== *)
theory Open_Threads
  imports Threads Exec_Interposer
begin

unbundle bit_operations_syntax

text \<open>
  The interposed \<open>open\<close> of \<open>src/voyeur-open.c\<close> and \<open>posix_spawn\<close> of \<open>src/voyeur-exec.c\<close> under several threads:
  the instances of \<open>Threads\<close> with their writes, whose number depends on the options and, for
  \<open>posix_spawn\<close>, on the arguments.
\<close>

section \<open>Opens\<close>

text \<open>The two writes of \<open>voyeur_write_string\<close>, and those of an array of strings.\<close>

definition str_writes :: "string option \<Rightarrow> byte list list" where
  "str_writes val = [obj64 (word_of_nat (length (str_sent val))), str_bytes (str_sent val)]"

definition strs_writes :: "string list \<Rightarrow> byte list list" where
  "strs_writes xs = obj32 (word_of_nat (length xs)) # concat (map (\<lambda>x. str_writes (Some x)) xs)"

lemma str_writes [simp]: "concat (str_writes val) = enc_str val" "length (str_writes val) = 2"
  by (simp_all add: str_writes_def enc_str_def)

lemma strs_writes [simp]: "concat (strs_writes xs) = enc_strs xs" "length (strs_writes xs) = 1 + 2 * length xs"
  by (induction xs) (simp_all add: strs_writes_def enc_strs_def)

text \<open>
  A call is the path, the flags and the mode that is reported (0 without one); the report also reads the
  result and the working directory.
\<close>

fun open_writes :: "pid_t \<Rightarrow> u8 \<Rightarrow> string option \<times> cint \<times> cint \<Rightarrow> cint \<times> string option \<Rightarrow> byte list list" where
  "open_writes pid options (path, oflag, mode) (retval, cwd) =
     [obj32 (msg_type_val VOYEUR_MSG_EVENT), obj32 (event_type_val VOYEUR_EVENT_OPEN)]
     @ str_writes path @ [obj32 oflag, obj32 mode, obj32 retval]
     @ (if has_flag options OBSERVE_OPEN_CWD then str_writes cwd else []) @ [obj32 pid]"

fun open_reports :: "pid_t \<Rightarrow> string option \<times> cint \<times> cint \<Rightarrow> cint \<times> string option \<Rightarrow> event list" where
  "open_reports pid (path, oflag, mode) (retval, cwd) = [Open_Event (ptr_str path) oflag mode retval cwd pid]"

lemma open_writes_msg: "concat (open_writes pid options c r) = enc_msgs options (open_reports pid c r)"
  by (cases c; cases r) (simp add: enc_msg_def enc_str_ptr)

interpretation open_reporting: reporting "open_writes pid options" "open_reports pid" options "\<lambda>_. 10"
proof
  fix c :: "string option \<times> cint \<times> cint" and r :: "cint \<times> string option"
  show "concat (open_writes pid options c r) = enc_msgs options (open_reports pid c r)" by (rule open_writes_msg)
  show "length (open_writes pid options c r) \<le> 10" by (cases c; cases r) simp
qed

text \<open>
  C21: the connections of \<open>open\<close> under any interleaving of its callers and the destructor: whenever the
  mutex is free, each carries whole open events and, at most at its very end, the message that ends the
  stream. There is no flag here: a call after the destructor opens a connection of its own.
\<close>

theorem open_streams_whole:
  assumes "reachable False (open_writes pid options) s" and "holder s = None" and "bs \<in> set (conns s)"
  shows "\<exists>cs. bs = enc_msgs options (concat (map (\<lambda>(c, r). open_reports pid c r) cs))
    \<or> bs = enc_msgs options (concat (map (\<lambda>(c, r). open_reports pid c r) cs)) @ enc_done"
  using assms by (rule open_reporting.messages_whole)

theorem open_streams_whole_witness:
  "\<exists>s :: (string option \<times> cint \<times> cint, cint \<times> string option) shared. reachable False (open_writes 7 1) s
    \<and> holder s = None \<and> conns s = [enc_msg 1 (Open_Event ''/f'' 0 0 3 (Some ''/r'') 7)]
    \<and> (\<exists>cs. conns s ! 0 = enc_msgs 1 (concat (map (\<lambda>(c, r). open_reports 7 c r) cs))
         \<or> conns s ! 0 = enc_msgs 1 (concat (map (\<lambda>(c, r). open_reports 7 c r) cs)) @ enc_done)"
proof -
  let ?c = "(Some ''/f'', 0, 0) :: string option \<times> cint \<times> cint" and ?r = "(3, Some ''/r'') :: cint \<times> string option"
  let ?s1 = "goto 0 (Checked ?c) shared0 :: (string option \<times> cint \<times> cint, cint \<times> string option) shared"
  let ?s = "after_report (open_writes 7 1) 0 ?c ?r ?s1"
  have "reachable False (open_writes 7 1) ?s1"
    by (rule reachable.step [OF reachable.start], rule thread_step.call) (simp_all add: shared0_def)
  then have r: "reachable False (open_writes 7 1) ?s"
    by (rule reachable_first_report) (simp_all add: shared0_def)
  have c: "conns ?s = [enc_msg 1 (Open_Event ''/f'' 0 0 3 (Some ''/r'') 7)]" and h: "holder ?s = None"
    unfolding after_report_def open_writes_msg by (simp_all add: shared0_def ptr_str_def)
  from c have "conns ?s ! 0 \<in> set (conns ?s)" by simp
  from open_streams_whole [OF r h this] r c h show ?thesis by blast
qed

lemma open_mutex_released:
  assumes "reachable False (open_writes pid options) s" and "holder s = Some i"
  shows "((\<exists>t. thread_step False (open_writes pid options) i s t) \<longleftrightarrow> \<not> write_waits i s)
    \<and> (\<exists>t. thread_step False (open_writes pid options) i (s\<lparr>full := False\<rparr>) t)"
  using open_reporting.mutex_released [OF assms] by blast

section \<open>Spawns\<close>

text \<open>
  A call is the path and the two arrays; the report also reads what \<open>access\<close> answers, the variable
  \<open>PATH\<close>, the working directory and the child's identifier. It may write nothing.
\<close>

fun spawn_writes :: "pid_t \<Rightarrow> u8 \<Rightarrow> string option \<times> string list \<times> string list
    \<Rightarrow> bool \<times> string option \<times> string option \<times> pid_t \<Rightarrow> byte list list" where
  "spawn_writes self options (path, argv, envp) (ok, PATH, cwd, child) =
     (if has_flag options OBSERVE_EXEC_SILENT \<or> \<not> has_flag options OBSERVE_EXEC_NOACCESS \<and> \<not> ok then []
      else [obj32 (msg_type_val VOYEUR_MSG_EVENT), obj32 (event_type_val VOYEUR_EVENT_EXEC)]
        @ str_writes path @ strs_writes argv
        @ (if has_flag options OBSERVE_EXEC_ENV then strs_writes envp else [])
        @ (if has_flag options OBSERVE_EXEC_PATH then str_writes PATH else [])
        @ (if has_flag options OBSERVE_EXEC_CWD then str_writes cwd else [])
        @ [obj32 child, obj32 self])"

fun spawn_reports_of :: "pid_t \<Rightarrow> u8 \<Rightarrow> string option \<times> string list \<times> string list
    \<Rightarrow> bool \<times> string option \<times> string option \<times> pid_t \<Rightarrow> event list" where
  "spawn_reports_of self options (path, argv, envp) (ok, PATH, cwd, child) =
     (if has_flag options OBSERVE_EXEC_SILENT \<or> \<not> has_flag options OBSERVE_EXEC_NOACCESS \<and> \<not> ok then []
      else [Exec_Event (ptr_str path) argv envp PATH cwd child self])"

interpretation spawn_reporting: reporting "spawn_writes self options" "spawn_reports_of self options" options
    "\<lambda>(path, argv, envp). 12 + 2 * length argv + 2 * length envp"
proof
  fix c :: "string option \<times> string list \<times> string list" and r :: "bool \<times> string option \<times> string option \<times> pid_t"
  show "concat (spawn_writes self options c r) = enc_msgs options (spawn_reports_of self options c r)"
    by (cases c; cases r) (simp add: enc_msg_def enc_str_ptr)
  show "length (spawn_writes self options c r) \<le> (case c of (path, argv, envp) \<Rightarrow> 12 + 2 * length argv + 2 * length envp)"
    by (cases c; cases r) simp
qed

lemma spawn_streams_whole:
  assumes "reachable False (spawn_writes self options) s" and "holder s = None" and "bs \<in> set (conns s)"
  shows "\<exists>cs. bs = enc_msgs options (concat (map (\<lambda>(c, r). spawn_reports_of self options c r) cs))
    \<or> bs = enc_msgs options (concat (map (\<lambda>(c, r). spawn_reports_of self options c r) cs)) @ enc_done"
  using assms by (rule spawn_reporting.messages_whole)

lemma spawn_mutex_released:
  assumes "reachable False (spawn_writes self options) s" and "holder s = Some i"
  shows "((\<exists>t. thread_step False (spawn_writes self options) i s t) \<longleftrightarrow> \<not> write_waits i s)
    \<and> (\<exists>t. thread_step False (spawn_writes self options) i (s\<lparr>full := False\<rparr>) t)"
  using spawn_reporting.mutex_released [OF assms] by blast

end
