(* ===== verification/Examples.thy ===== *)
theory Examples
  imports Program_Run
begin

unbundle bit_operations_syntax

text \<open>
  The two programs of \<open>examples\<close>, which use the library as its users do: create a context, register
  callbacks, run a command, destroy the context. A callback prints a line for each event, by calls of
  \<open>fprintf\<close> with the format strings of the source. What is printed is a function of the calls the observer
  made, and undefined where the C code is.
\<close>

section \<open>Printing\<close>

text \<open>\<open>%d\<close>, \<open>%u\<close> and \<open>%o\<close> of \<open>fprintf\<close>.\<close>

definition digit :: "nat \<Rightarrow> char" where
  "digit n = char_of (48 + n)"

fun show_base :: "nat \<Rightarrow> nat \<Rightarrow> string" where
  "show_base b n = (if b < 2 \<or> n < b then [digit n] else show_base b (n div b) @ [digit (n mod b)])"

declare show_base.simps [simp del]

definition show_u :: "cint \<Rightarrow> string" where
  "show_u w = show_base 10 (unat w)"

definition show_o :: "cint \<Rightarrow> string" where
  "show_o w = show_base 8 (unat w)"

definition show_d :: "cint \<Rightarrow> string" where
  "show_d w = (if sint w < 0 then CHR ''-'' # show_base 10 (nat (- sint w)) else show_base 10 (nat (sint w)))"

text \<open>
  The text of a call of \<open>printf\<close> or \<open>fprintf\<close>: the format is copied, but for the conversions, each of which
  takes the next argument. It is undefined (\<open>None\<close>) when an argument is missing, when its type is not the
  one of the conversion, and when a null string is to be printed.
\<close>

datatype printf_arg = Str_Arg "string option" | Int_Arg cint

fun conversion :: "char \<Rightarrow> printf_arg \<Rightarrow> string option" where
  "conversion c (Str_Arg str) = (if c = CHR ''s'' then str else None)"
| "conversion c (Int_Arg w) =
     (if c = CHR ''d'' then Some (show_d w) else if c = CHR ''u'' then Some (show_u w)
      else if c = CHR ''o'' then Some (show_o w) else None)"

fun c_format :: "string \<Rightarrow> printf_arg list \<Rightarrow> string option" where
  "c_format [] args = Some []"
| "c_format [c] args = (if c = CHR ''%'' then None else Some [c])"
| "c_format (c # d # fmt) args =
     (if c = CHR ''%'' then
        (case args of
           [] \<Rightarrow> None
         | a # args' \<Rightarrow> Option.bind (conversion d a) (\<lambda>t. map_option (\<lambda>rest. t @ rest) (c_format fmt args')))
      else map_option ((#) c) (c_format (d # fmt) args))"

definition c_printf :: "string \<Rightarrow> printf_arg list \<Rightarrow> (string, 's) io" where
  "c_printf fmt args = (case c_format fmt args of None \<Rightarrow> io_fault | Some out \<Rightarrow> io_ret out)"

text \<open>The digits denote the number.\<close>

definition read_base :: "nat \<Rightarrow> string \<Rightarrow> nat" where
  "read_base b ds = foldl (\<lambda>v c. b * v + (of_char c - 48)) 0 ds"

lemma digit_value: "n < 10 \<Longrightarrow> of_char (digit n) - 48 = n"
  by (simp add: digit_def)

lemma show_base_denotes: "2 \<le> b \<Longrightarrow> b \<le> 10 \<Longrightarrow> read_base b (show_base b n) = n"
proof (induction n rule: less_induct)
  case (less n)
  show ?case
  proof (cases "n < b")
    case True
    then show ?thesis using less.prems by (simp add: show_base.simps [of b n] read_base_def digit_value)
  next
    case False
    with less.prems have "n div b < n" by simp
    then have "read_base b (show_base b (n div b)) = n div b" using less by blast
    moreover have "n mod b < 10" using less.prems by (intro less_le_trans [OF mod_less_divisor]) simp_all
    ultimately show ?thesis
      using False less.prems by (simp add: show_base.simps [of b n] read_base_def digit_value)
  qed
qed

section \<open>Callback types\<close>

text \<open>
  The parameters of a callback, as \<open>include/voyeur.h\<close> and the examples declare them. Calling a function
  through a pointer of another type is undefined.
\<close>

datatype c_type = C_String | C_Strings | C_Int | C_Mode | C_Pid | C_Pointer

fun callback_params :: "voyeur_event_type \<Rightarrow> c_type list" where
  "callback_params VOYEUR_EVENT_EXEC = [C_String, C_Strings, C_Strings, C_String, C_String, C_Pid, C_Pid, C_Pointer]"
| "callback_params VOYEUR_EVENT_EXIT = [C_Int, C_Pid, C_Pid, C_Pointer]"
| "callback_params VOYEUR_EVENT_OPEN = [C_String, C_Int, C_Mode, C_String, C_Int, C_Pid, C_Pointer]"
| "callback_params VOYEUR_EVENT_CLOSE = [C_Int, C_Int, C_Pid, C_Pointer]"

section \<open>\<open>voyeur-watch-open.c\<close>\<close>

text \<open>The functions are known by numbers, and a null string cannot be printed.\<close>

definition open_callback_fun :: nat where
  "open_callback_fun = 1"

definition close_callback_fun :: nat where
  "close_callback_fun = 2"

definition exec_callback_fun :: nat where
  "exec_callback_fun = 3"

definition open_callback :: "string \<Rightarrow> cint \<Rightarrow> cint \<Rightarrow> string option \<Rightarrow> cint \<Rightarrow> pid_t \<Rightarrow> string option" where
  "open_callback path oflag mode cwd retval pid =
     c_format (''[OPEN] %s (flags %d) (mode %o) (in %s) (rv %d) (pid %u)'' @ [CHR 0x0A])
       [Str_Arg (Some path), Int_Arg oflag, Int_Arg mode, Str_Arg cwd, Int_Arg retval, Int_Arg pid]"

definition close_callback :: "cint \<Rightarrow> cint \<Rightarrow> pid_t \<Rightarrow> string option" where
  "close_callback fd retval pid =
     c_format (''[CLOSE] %d (rv %d) (pid %u)'' @ [CHR 0x0A]) [Int_Arg fd, Int_Arg retval, Int_Arg pid]"

definition watch_open_go :: "(pid_t \<Rightarrow> cint) \<Rightarrow> string option \<Rightarrow> char list \<Rightarrow> string list \<Rightarrow> string list
    \<Rightarrow> (unit, 'z host_scheme) io" where
  "watch_open_go waits dli_fname behind argv envp =
     io_bind voyeur_context_create (\<lambda>created. case (created, argv) of
       (Some ctx, prog # _) \<Rightarrow>
         (let ctx1 = voyeur_observe_open ctx OBSERVE_OPEN_CWD (Some open_callback_fun) 0;
              ctx2 = voyeur_observe_close ctx1 0 (Some close_callback_fun) 0
          in io_bind (voyeur_exec waits dli_fname behind ctx2 prog argv envp) (\<lambda>(_, ctx3).
             voyeur_context_destroy ctx3))
     | _ \<Rightarrow> io_fault)"

text \<open>\<open>main\<close>: the result, and what is written to the standard output: without a command, the usage.\<close>

definition watch_open_main :: "(pid_t \<Rightarrow> cint) \<Rightarrow> string option \<Rightarrow> char list \<Rightarrow> string list \<Rightarrow> string list
    \<Rightarrow> (int \<times> string, 'z host_scheme) io" where
  "watch_open_main waits dli_fname behind argv envp =
     (if length argv = 1 then
        io_bind (c_printf (''Usage: %s [command]'' @ [CHR 0x0A]) [Str_Arg (Some (hd argv))]) (\<lambda>out. io_ret (-1, out))
      else case argv of
        [] \<Rightarrow> io_fault
      | _ # args \<Rightarrow> io_then (watch_open_go waits dli_fname behind args envp) (io_ret (0, [])))"

section \<open>\<open>voyeur-watch-exec.c\<close>\<close>

definition exec_callback_params :: "c_type list" where
  "exec_callback_params = [C_String, C_Strings, C_Strings, C_String, C_Pid, C_Pid, C_Pointer]"

fun print_all :: "string option list \<Rightarrow> string option" where
  "print_all [] = Some []"
| "print_all (x # xs) = Option.bind x (\<lambda>t. map_option (\<lambda>rest. t @ rest) (print_all xs))"

definition exec_callback :: "string \<Rightarrow> string list \<Rightarrow> string option \<Rightarrow> pid_t \<Rightarrow> pid_t \<Rightarrow> string option" where
  "exec_callback path argv cwd pid ppid = print_all
     (c_format ''[EXEC] %s'' [Str_Arg (Some path)]
      # map (\<lambda>arg. c_format '' %s'' [Str_Arg (Some arg)]) (if argv \<noteq> [] then tl argv else [])
      @ [c_format ('' (in %s) (pid %u) (ppid %u)'' @ [CHR 0x0A]) [Str_Arg cwd, Int_Arg pid, Int_Arg ppid]])"

definition watch_exec_go :: "(pid_t \<Rightarrow> cint) \<Rightarrow> string option \<Rightarrow> char list \<Rightarrow> string list \<Rightarrow> string list
    \<Rightarrow> (unit, 'z host_scheme) io" where
  "watch_exec_go waits dli_fname behind argv envp =
     io_bind voyeur_context_create (\<lambda>created. case (created, argv) of
       (Some ctx, prog # _) \<Rightarrow>
         (let ctx1 = voyeur_observe_exec ctx OBSERVE_EXEC_CWD (Some exec_callback_fun) 0
          in io_bind (voyeur_exec waits dli_fname behind ctx1 prog argv envp) (\<lambda>(_, ctx2).
             voyeur_context_destroy ctx2))
     | _ \<Rightarrow> io_fault)"

definition watch_exec_main :: "(pid_t \<Rightarrow> cint) \<Rightarrow> string option \<Rightarrow> char list \<Rightarrow> string list \<Rightarrow> string list
    \<Rightarrow> (int \<times> string, 'z host_scheme) io" where
  "watch_exec_main waits dli_fname behind argv envp =
     (if length argv = 1 then
        io_bind (c_printf (''Usage: %s [command]'' @ [CHR 0x0A]) [Str_Arg (Some (hd argv))]) (\<lambda>out. io_ret (-1, out))
      else case argv of
        [] \<Rightarrow> io_fault
      | _ # args \<Rightarrow> io_then (watch_exec_go waits dli_fname behind args envp) (io_ret (0, [])))"

text \<open>What a call of the observer prints in these programs; \<open>None\<close> where the call is undefined.\<close>

fun printed :: "call \<Rightarrow> string option" where
  "printed (Call f (OpenArgs path oflag mode cwd retval pid) userdata) =
     (if f = open_callback_fun then open_callback path oflag mode cwd retval pid else None)"
| "printed (Call f (CloseArgs fd retval pid) userdata) =
     (if f = close_callback_fun then close_callback fd retval pid else None)"
| "printed (Call f (ExecArgs path argv envp env_path cwd pid ppid) userdata) =
     (if f = exec_callback_fun \<and> exec_callback_params = callback_params VOYEUR_EVENT_EXEC
      then exec_callback path argv cwd pid ppid else None)"
| "printed (Call f (ExitArgs status pid ppid) userdata) = None"

section \<open>Only callbacks are called\<close>

text \<open>Preparing leaves the log and the registered callbacks alone.\<close>

abbreviation silent :: "('a, 'z observer_scheme) io \<Rightarrow> bool" where
  "silent m \<equiv> keeps (\<lambda>s s'. calls s' = calls s) m"

lemma silent_calls: "silent m \<Longrightarrow> m s = Ok v t \<Longrightarrow> calls t = calls s"
  using keepsD [of "\<lambda>s s'. calls s' = calls s" m s t] by simp

lemma silent_kernel:
  "silent (sys_mkdtemp x)" "silent (sys_unlink x)" "silent sys_socket" "silent (sys_bind fd x)"
  "silent (sys_listen fd)" "silent (sys_spawnp x argv env)" "silent (sys_malloc n)" "silent sys_free"
  by (auto simp: keeps_def sys_mkdtemp_def sys_unlink_def sys_socket_def sys_bind_def sys_listen_def sys_spawnp_def
      sys_malloc_def sys_free_def Let_def split: list.splits option.splits if_splits bool.splits)

lemma silent_server_socket: "silent (voyeur_create_server_socket :: (_, 'z host_scheme) io)"
  unfolding voyeur_create_server_socket_def RETURN_ERROR_ON_FAIL_def Let_def
  by (intro calls_frame.keeps_rules silent_kernel)

lemma resource_path_quiet:
  "get_default_resource_path dli_fname s = Ok r s' \<Longrightarrow> calls s' = calls s"
  by (auto simp: get_default_resource_path_def sys_calloc_def sys_malloc_def Let_def io_bind_Ok_iff
      split: option.splits if_splits)

lemma requested_libs_quiet:
  assumes "voyeur_requested_libs dli_fname ctx s = Ok (libs, ctx') s'"
  shows "calls s' = calls s \<and> ctx' = ctx"
proof -
  have dir: "calls t = calls s" if "(case resource_path ctx of Some p \<Rightarrow> io_ret (p, False)
      | None \<Rightarrow> get_default_resource_path dli_fname) s = Ok db t" for db t
    using that resource_path_quiet [of dli_fname s db t] by (cases "resource_path ctx") auto
  have alloc: "silent (sys_calloc n)" "silent (io_when c sys_free)" for n c
    unfolding sys_calloc_def by (intro calls_frame.keeps_rules silent_kernel)+
  define C where "C = (if exec_cb ctx = None then ctx\<lparr>exec_cb := Some 0\<rparr> else ctx)"
  have C: "(if exec_cb ctx = None then C\<lparr>exec_cb := None\<rparr> else C) = ctx" by (simp add: C_def)
  let ?n = "\<lambda>d. compute_libs_size (build_os s) (strnlen d 4096)"
  have "voyeur_requested_libs dli_fname ctx s = io_bind (case resource_path ctx of Some p \<Rightarrow> io_ret (p, False)
      | None \<Rightarrow> get_default_resource_path dli_fname) (\<lambda>(d, b). io_bind (sys_calloc (?n d)) (\<lambda>ob.
      case ob of None \<Rightarrow> io_fault | Some l \<Rightarrow> (case append_libs (build_os s) d (?n d) C MAP_EVENTS False l of
        None \<Rightarrow> io_fault | Some l' \<Rightarrow> io_then (io_when b sys_free) (io_ret (l', ctx))))) s"
    unfolding voyeur_requested_libs_def Let_def C_def [symmetric] C by simp
  with assms obtain db t where 1: "(case resource_path ctx of Some p \<Rightarrow> io_ret (p, False)
      | None \<Rightarrow> get_default_resource_path dli_fname) s = Ok db t"
    and k: "(case db of (d, b) \<Rightarrow> io_bind (sys_calloc (?n d)) (\<lambda>ob.
      case ob of None \<Rightarrow> io_fault | Some l \<Rightarrow> (case append_libs (build_os s) d (?n d) C MAP_EVENTS False l of
        None \<Rightarrow> io_fault | Some l' \<Rightarrow> io_then (io_when b sys_free) (io_ret (l', ctx))))) t = Ok (libs, ctx') s'"
    by (simp only: io_bind_Ok_iff) (elim exE conjE, rule that)
  from k obtain ob u where 2: "sys_calloc (?n (fst db)) t = Ok ob u"
    and 3: "(case ob of None \<Rightarrow> io_fault | Some l \<Rightarrow> (case append_libs (build_os s) (fst db) (?n (fst db)) C MAP_EVENTS False l of
        None \<Rightarrow> io_fault | Some l' \<Rightarrow> io_then (io_when (snd db) sys_free) (io_ret (l', ctx)))) u = Ok (libs, ctx') s'"
    by (simp only: io_bind_Ok_iff split_beta) (elim exE conjE, rule that)
  from 3 obtain l' where l: "io_then (io_when (snd db) sys_free) (io_ret (l', ctx)) u = Ok (libs, ctx') s'"
    by (auto split: option.split_asm)
  then have "calls s' = calls u" "ctx' = ctx"
    using silent_calls [OF alloc(2), of "snd db" u] by (auto simp: io_then_Ok_iff)
  with dir [OF 1] silent_calls [OF alloc(1) 2] show ?thesis by simp
qed

lemma requested_opts_quiet:
  assumes "voyeur_requested_opts ctx s = Ok (opts, ctx') s'"
  shows "calls s' = calls s \<and> ctx' = (if exec_cb ctx = None then ctx\<lparr>exec_opts := OBSERVE_EXEC_SILENT\<rparr> else ctx)"
  using assms by (auto simp: voyeur_requested_opts_def sys_calloc_def sys_malloc_def Let_def io_bind_Ok_iff
      split: option.splits if_splits)

lemma augment_quiet: "voyeur_augment_environment envp l os sp s = Ok env s' \<Longrightarrow> calls s' = calls s"
  by (auto simp: voyeur_augment_environment_def sys_malloc_def io_bind_Ok_iff split: option.splits if_splits)

text \<open>What the preparation may change in a context: the options of an event nobody observes, and the server's state.\<close>

definition same_callbacks :: "'c voyeur_context_scheme \<Rightarrow> 'c voyeur_context_scheme \<Rightarrow> bool" where
  "same_callbacks ctx ctx' \<longleftrightarrow>
     (\<forall>E. event_cb ctx' E = event_cb ctx E \<and> event_userdata ctx' E = event_userdata ctx E
        \<and> (event_cb ctx E \<noteq> None \<longrightarrow> event_opts ctx' E = event_opts ctx E))"

lemma prepare_quiet:
  assumes "voyeur_prepare dli_fname behind ctx envp s = Ok (env', ctx') s'"
  shows "calls s' = calls s \<and> same_callbacks ctx ctx'"
proof -
  have slots: "event_cb (ctx\<lparr>exec_opts := v, server_state := x\<rparr>) E = event_cb ctx E"
    "event_userdata (ctx\<lparr>exec_opts := v, server_state := x\<rparr>) E = event_userdata ctx E"
    "E \<noteq> VOYEUR_EVENT_EXEC \<Longrightarrow> event_opts (ctx\<lparr>exec_opts := v, server_state := x\<rparr>) E = event_opts ctx E" for v x E
    by (cases E; simp)+
  have st: "same_callbacks ctx (ctx\<lparr>exec_opts := v, server_state := x\<rparr>)" if "exec_cb ctx = None \<or> v = exec_opts ctx" for x v
    unfolding same_callbacks_def
  proof (intro allI conjI impI)
    show "event_opts (ctx\<lparr>exec_opts := v, server_state := x\<rparr>) E = event_opts ctx E" if "event_cb ctx E \<noteq> None" for E
      using slots(3) that \<open>exec_cb ctx = None \<or> v = exec_opts ctx\<close> by (cases "E = VOYEUR_EVENT_EXEC") auto
  qed (simp_all add: slots)
  have same: "same_callbacks ctx (ctx\<lparr>server_state := x\<rparr>)" for x using st [of "exec_opts ctx" x] by simp
  from assms obtain s1 sock path s2 where a: "sys_malloc 128 s = Ok True s1" "voyeur_create_server_socket s1 = Ok (sock, path) s2"
    and k: "(case sock of
       None \<Rightarrow> io_ret (None, ctx\<lparr>server_state := Some \<lparr>server_sock = -1, sun_path = path, env_buf = False\<rparr>\<rparr>)
     | Some fd \<Rightarrow>
         io_bind (voyeur_requested_libs dli_fname ctx) (\<lambda>(libs, context1).
         io_bind (voyeur_requested_opts context1) (\<lambda>(opts, context2).
         io_bind (voyeur_augment_environment envp (obj_str libs) (obj_str (opts @ behind)) (Some path)) (\<lambda>voyeur_envp.
         io_ret (Some voyeur_envp, context2\<lparr>server_state :=
           Some \<lparr>server_sock = fd, sun_path = path, env_buf = True\<rparr>\<rparr>))))) s2 = Ok (env', ctx') s'"
    by (auto simp: voyeur_prepare_def io_bind_Ok_iff split: if_splits)
  have c: "calls s2 = calls s"
    using silent_calls [OF silent_kernel(7) a(1)] silent_calls [OF silent_server_socket a(2)] by simp
  show ?thesis
  proof (cases sock)
    case None
    with k c same show ?thesis by auto
  next
    case (Some fd)
    with k obtain libs c1 s3 opts c2 s4 env where
      "voyeur_requested_libs dli_fname ctx s2 = Ok (libs, c1) s3" "voyeur_requested_opts c1 s3 = Ok (opts, c2) s4"
      "voyeur_augment_environment envp (obj_str libs) (obj_str (opts @ behind)) (Some path) s4 = Ok env s'"
      "ctx' = c2\<lparr>server_state := Some \<lparr>server_sock = fd, sun_path = path, env_buf = True\<rparr>\<rparr>"
      by (auto simp: io_bind_Ok_iff)
    note parts = this
    have "c1 = ctx" "calls s3 = calls s2" using requested_libs_quiet [OF parts(1)] by simp_all
    moreover have "calls s4 = calls s3" "c2 = (if exec_cb c1 = None then c1\<lparr>exec_opts := OBSERVE_EXEC_SILENT\<rparr> else c1)"
      using requested_opts_quiet [OF parts(2)] by simp_all
    moreover have "calls s' = calls s4" by (rule augment_quiet [OF parts(3)])
    ultimately show ?thesis using c parts(4) st same by simp
  qed
qed

lemma registered_calls: "registered ctx s t \<Longrightarrow> calls t' = calls t \<Longrightarrow> calls s' = calls s \<Longrightarrow> registered ctx s' t'"
  by (simp add: registered_def)

lemma silent_warn: "silent m \<Longrightarrow> silent (WARN_ON_FAIL m)"
  by (rule keepsI) (auto simp: WARN_ON_FAIL_def split: if_splits dest: keepsD [OF calls_frame.keeps_ignore])

lemma start_registered:
  assumes "voyeur_start waits ctx pid s = Ok (r, ctx') s'"
  shows "registered ctx s s'"
proof -
  from assms obtain st where st: "server_state ctx = Some st" by (cases "server_state ctx") (simp_all add: voyeur_start_def)
  with assms obtain out s1 s2 s3 dir where
    a: "start_waitpid_thread waits pid s = Ok out s1" "run_server ctx (server_sock st) out s1 = Ok r s2"
    and b: "WARN_ON_FAIL (sys_unlink (sun_path st)) s2 = Ok () s3" "WARN_ON_FAIL (sys_rmdir dir) s3 = Ok () s'"
    by (auto simp: voyeur_start_def io_bind_Ok_iff io_then_Ok_iff Let_def)
  have "silent (sys_rmdir dir)" by (auto simp: keeps_def sys_rmdir_def split: if_splits)
  then have "calls s' = calls s2"
    using silent_calls [OF silent_warn [OF silent_kernel(2)] b(1)] silent_calls [OF silent_warn b(2)] by simp
  moreover have "calls s = calls s1" using start_waitpid_dry [OF a(1)] by simp
  ultimately show ?thesis by (rule registered_calls [OF registered_loop.run_server_R [OF a(2)]])
qed

lemma exec_registered:
  assumes "voyeur_exec waits dli_fname behind ctx path argv envp s = Ok (r, ctx') s'"
  shows "\<exists>ctx1. same_callbacks ctx ctx1 \<and> registered ctx1 s s'"
proof -
  from assms obtain env ctx1 s1 where p: "voyeur_prepare dli_fname behind ctx envp s = Ok (env, ctx1) s1"
    and k: "(case env of None \<Rightarrow> io_ret (-1, ctx1)
     | Some env \<Rightarrow>
         io_bind (io_on_fail (io_bind (sys_spawnp path argv env) (\<lambda>pid. io_ret (Some pid))) (io_ret None)) (\<lambda>child.
         case child of
           None \<Rightarrow> io_then sys_free (io_ret (-1, ctx1))
         | Some child_pid \<Rightarrow>
             io_bind (voyeur_start waits ctx1 child_pid) (\<lambda>(retval, context2).
             io_then sys_free (io_ret (retval, context2))))) s1 = Ok (r, ctx') s'"
    by (auto simp: voyeur_exec_def io_bind_Ok_iff)
  have q: "calls s1 = calls s" "same_callbacks ctx ctx1" using prepare_quiet [OF p] by simp_all
  have "registered ctx1 s s'"
  proof (cases env)
    case None
    with k q(1) show ?thesis by (auto intro: same_calls)
  next
    case (Some e)
    let ?spawn = "io_on_fail (io_bind (sys_spawnp path argv e) (\<lambda>pid. io_ret (Some pid))) (io_ret None)"
    have sp: "silent ?spawn" by (intro calls_frame.keeps_rules silent_kernel)
    from k Some obtain child s2 where c: "?spawn s1 = Ok child s2"
      and k2: "(case child of
           None \<Rightarrow> io_then sys_free (io_ret (-1, ctx1))
         | Some child_pid \<Rightarrow>
             io_bind (voyeur_start waits ctx1 child_pid) (\<lambda>(retval, context2).
             io_then sys_free (io_ret (retval, context2)))) s2 = Ok (r, ctx') s'"
      by (auto simp: io_bind_Ok_iff)
    have c2: "calls s2 = calls s" using silent_calls [OF sp c] q(1) by simp
    show ?thesis
    proof (cases child)
      case None
      with k2 c2 show ?thesis by (auto intro: same_calls simp: io_then_Ok_iff sys_free_def)
    next
      case (Some pid)
      with k2 obtain v c3 s3 where v: "voyeur_start waits ctx1 pid s2 = Ok (v, c3) s3" "calls s' = calls s3"
        by (auto simp: io_bind_Ok_iff io_then_Ok_iff sys_free_def)
      show ?thesis by (rule registered_calls [OF start_registered [OF v(1)] v(2) c2 [symmetric]])
    qed
  qed
  with q(2) show ?thesis by blast
qed

text \<open>Destroying the context makes no call.\<close>

lemma destroy_silent: "silent (voyeur_context_destroy ctx)"
  unfolding voyeur_context_destroy_def
  by (cases "server_state ctx") (auto intro!: calls_frame.keeps_rules silent_kernel)

section \<open>What the programs print\<close>

lemma callback_lines:
  "open_callback path oflag mode (Some dir) retval pid = Some (''[OPEN] '' @ path @ '' (flags '' @ show_d oflag
     @ '') (mode '' @ show_o mode @ '') (in '' @ dir @ '') (rv '' @ show_d retval @ '') (pid '' @ show_u pid @ '')'' @ [CHR 0x0A])"
  "close_callback fd retval pid = Some (''[CLOSE] '' @ show_d fd @ '' (rv '' @ show_d retval @ '') (pid '' @ show_u pid
     @ '')'' @ [CHR 0x0A])"
  by (simp_all add: open_callback_def close_callback_def)

text \<open>A line and the call that prints it.\<close>

definition open_line :: "call \<Rightarrow> string \<Rightarrow> bool" where
  "open_line k l \<longleftrightarrow> (\<exists>path oflag mode dir rv pid.
     k = Call open_callback_fun (OpenArgs path oflag mode (Some dir) rv pid) 0
     \<and> l = ''[OPEN] '' @ path @ '' (flags '' @ show_d oflag @ '') (mode '' @ show_o mode @ '') (in '' @ dir
         @ '') (rv '' @ show_d rv @ '') (pid '' @ show_u pid @ '')'' @ [CHR 0x0A])"

definition close_line :: "call \<Rightarrow> string \<Rightarrow> bool" where
  "close_line k l \<longleftrightarrow> (\<exists>fd rv pid. k = Call close_callback_fun (CloseArgs fd rv pid) 0
     \<and> l = ''[CLOSE] '' @ show_d fd @ '' (rv '' @ show_d rv @ '') (pid '' @ show_u pid @ '')'' @ [CHR 0x0A])"

lemma lines_printed:
  "\<exists>l. printed (Call open_callback_fun (OpenArgs path oflag mode (Some dir) rv pid) 0) = Some l
     \<and> open_line (Call open_callback_fun (OpenArgs path oflag mode (Some dir) rv pid) 0) l"
  "\<exists>l. printed (Call close_callback_fun (CloseArgs fd rv pid) 0) = Some l
     \<and> close_line (Call close_callback_fun (CloseArgs fd rv pid) 0) l"
  unfolding printed.simps callback_lines open_line_def close_line_def by simp_all

abbreviation watch_open_ctx :: "voyeur_context \<Rightarrow> voyeur_context" where
  "watch_open_ctx ctx \<equiv> voyeur_observe_close (voyeur_observe_open ctx OBSERVE_OPEN_CWD (Some open_callback_fun) 0)
     0 (Some close_callback_fun) 0"

lemma open_registered_printed:
  assumes "event_cb ctx1 E = Some f" and "args_typed ctx1 E args"
    and "same_callbacks (watch_open_ctx ctx) ctx1" and "exec_cb ctx = None" and "exit_cb ctx = None"
  obtains line where "printed (Call f args (event_userdata ctx1 E)) = Some line"
    "open_line (Call f args (event_userdata ctx1 E)) line \<or> close_line (Call f args (event_userdata ctx1 E)) line"
proof -
  let ?c = "watch_open_ctx ctx"
  have cb: "event_cb ctx1 E = event_cb ?c E" "event_userdata ctx1 E = event_userdata ?c E" for E
    using assms(3) by (simp_all add: same_callbacks_def)
  have "event_cb ?c VOYEUR_EVENT_OPEN \<noteq> None \<longrightarrow> event_opts ctx1 VOYEUR_EVENT_OPEN = event_opts ?c VOYEUR_EVENT_OPEN"
    using assms(3) unfolding same_callbacks_def by blast
  then have op: "event_opts ctx1 VOYEUR_EVENT_OPEN = OBSERVE_OPEN_CWD" by (simp add: observe_defs)
  show ?thesis
  proof (cases E)
    case VOYEUR_EVENT_OPEN
    then have f: "f = open_callback_fun" "event_userdata ctx1 E = 0"
      using assms(1) cb [of E] by (simp_all add: observe_defs)
    from assms(2) VOYEUR_EVENT_OPEN op obtain path oflag mode dir retval pid where
      a: "args = OpenArgs path oflag mode (Some dir) retval pid"
      by (cases args) (auto simp: has_flag_def flag_defs)
    show ?thesis using lines_printed(1) [of path oflag mode dir retval pid] that by (auto simp: f a)
  next
    case VOYEUR_EVENT_CLOSE
    then have f: "f = close_callback_fun" "event_userdata ctx1 E = 0"
      using assms(1) cb [of E] by (simp_all add: observe_defs)
    from assms(2) VOYEUR_EVENT_CLOSE obtain fd retval pid where a: "args = CloseArgs fd retval pid" by (cases args) auto
    show ?thesis using lines_printed(2) [of fd retval pid] that by (auto simp: f a)
  qed (use assms(1,4,5) cb [of E] in \<open>simp_all add: observe_defs\<close>)
qed

text \<open>
  C32: \<open>voyeur-watch-open\<close>, whatever the kernel and the clients do: if the program comes to its end it
  returns 0, and each call the library has made of its callbacks is defined and prints exactly one line:
  for an open the path, the flags, the mode in octal, the working directory, the result and the process,
  for a close the descriptor, the result and the process, as the formats of the source lay them out. No
  callback gets a null pointer where it prints a string.
\<close>

theorem watch_open_prints:
  assumes "watch_open_main waits dli_fname behind (name # prog # args) envp s = Ok r s'"
  shows "r = (0, []) \<and> (\<exists>cs lines. calls s' = calls s @ cs \<and> map printed cs = map Some lines
    \<and> list_all2 (\<lambda>k l.
        (\<exists>path oflag mode dir rv pid. k = Call open_callback_fun (OpenArgs path oflag mode (Some dir) rv pid) 0
           \<and> l = ''[OPEN] '' @ path @ '' (flags '' @ show_d oflag @ '') (mode '' @ show_o mode @ '') (in '' @ dir
                @ '') (rv '' @ show_d rv @ '') (pid '' @ show_u pid @ '')'' @ [CHR 0x0A])
        \<or> (\<exists>fd rv pid. k = Call close_callback_fun (CloseArgs fd rv pid) 0
           \<and> l = ''[CLOSE] '' @ show_d fd @ '' (rv '' @ show_d rv @ '') (pid '' @ show_u pid @ '')'' @ [CHR 0x0A])) cs lines)"
  unfolding open_line_def [symmetric] close_line_def [symmetric]
proof -
  from assms obtain ctx s1 v ctx3 s2 where r: "r = (0, [])"
    and a: "voyeur_context_create s = Ok (Some ctx) s1"
      "voyeur_exec waits dli_fname behind (watch_open_ctx ctx) prog (prog # args) envp s1 = Ok (v, ctx3) s2"
      "voyeur_context_destroy ctx3 s2 = Ok () s'"
    by (auto simp: watch_open_main_def watch_open_go_def io_bind_Ok_iff io_then_Ok_iff Let_def split: option.splits)
  have new: "exec_cb ctx = None" "exit_cb ctx = None" "calls s1 = calls s"
    using a(1) by (auto simp: voyeur_context_create_def io_bind_Ok_iff sys_malloc_def split: if_splits)
  from exec_registered [OF a(2)] obtain ctx1 cs where c: "same_callbacks (watch_open_ctx ctx) ctx1" "calls s2 = calls s @ cs"
    "\<forall>k \<in> set cs. \<exists>E f args. event_cb ctx1 E = Some f \<and> args_typed ctx1 E args \<and> k = Call f args (event_userdata ctx1 E)"
    unfolding registered_def new(3) by blast
  have "\<exists>l. printed k = Some l \<and> (open_line k l \<or> close_line k l)" if k: "k \<in> set cs" for k
  proof -
    from c(3) k obtain E f args where "event_cb ctx1 E = Some f" "args_typed ctx1 E args" "k = Call f args (event_userdata ctx1 E)"
      by blast
    with open_registered_printed [OF this(1,2) c(1) new(1,2)] show ?thesis by metis
  qed
  then obtain L where L: "\<And>k. k \<in> set cs \<Longrightarrow> printed k = Some (L k) \<and> (open_line k (L k) \<or> close_line k (L k))"
    by metis
  then have "map printed cs = map Some (map L cs)" by simp
  moreover have "list_all2 (\<lambda>k l. open_line k l \<or> close_line k l) cs (map L cs)"
    using L by (simp add: list_all2_conv_all_nth)
  moreover have "calls s' = calls s2" by (rule silent_calls [OF destroy_silent a(3)])
  ultimately show "r = (0, []) \<and> (\<exists>cs lines. calls s' = calls s @ cs \<and> map printed cs = map Some lines
    \<and> list_all2 (\<lambda>k l. open_line k l \<or> close_line k l) cs lines)"
    using r c(2) by (intro conjI exI [of _ cs] exI [of _ "map L cs"]) simp_all
qed

lemma watch_open_usage:
  "watch_open_main waits dli_fname behind [name] envp s = Ok (-1, ''Usage: '' @ name @ '' [command]'' @ [CHR 0x0A]) s"
  by (simp add: watch_open_main_def c_printf_def)

section \<open>A sample\<close>

text \<open>
  \<open>voyeur-watch-open\<close> watches a command that opens a file and closes it: two libraries, two connections.
\<close>

definition ex_opened :: event where
  "ex_opened = Open_Event ''/f'' 0x241 0x1B4 3 (Some ''/r'') 7"

definition ex_closed :: event where
  "ex_closed = Close_Event 3 0 7"

definition ex_watched :: "(int \<times> byte list \<times> nat) list" where
  "ex_watched = [(8, enc_msgs OBSERVE_OPEN_CWD [ex_opened] @ enc_done, 1), (9, enc_msgs 0 [ex_closed] @ enc_done, 1)]"

abbreviation ex_streams :: "stream list" where
  "ex_streams \<equiv>
    [\<lparr>str_client = 8, str_type = VOYEUR_EVENT_OPEN, str_events = [ex_opened], str_rest = []\<rparr>,
     \<lparr>str_client = 9, str_type = VOYEUR_EVENT_CLOSE, str_events = [ex_closed], str_rest = []\<rparr>]"

definition ex_watch_ctx :: voyeur_context where
  "ex_watch_ctx = watch_open_ctx ex_ctx0"

lemma ex_watch_ctx_fields [simp]:
  "exec_cb ex_watch_ctx = None" "exit_cb ex_watch_ctx = None" "open_cb ex_watch_ctx = Some open_callback_fun"
  "close_cb ex_watch_ctx = Some close_callback_fun" "open_opts ex_watch_ctx = OBSERVE_OPEN_CWD" "close_opts ex_watch_ctx = 0"
  "resource_path ex_watch_ctx = None" "open_userdata ex_watch_ctx = 0" "close_userdata ex_watch_ctx = 0"
  by (simp_all add: ex_watch_ctx_def ex_ctx0_def observe_defs)

lemma ex_watch_prepare: "can_prepare ''Ab3dEf'' 4 None [NUL] ex_watch_ctx [] (ex_runner\<lparr>live := 1\<rparr>)"
proof -
  have dir: "lib_dir None ex_watch_ctx = ''./''" by (simp add: lib_dir_def default_dir_def)
  have size: "compute_libs_size Linux (length ''./'') \<le> 65536"
    by (simp add: compute_libs_size_def MAP_EVENTS_def lib_name_def LIB_SUFFIX_def VOYEUR_EVENT_MAX_def)
  have req: "requested Linux None ex_watch_ctx = ''./libvoyeur-exec.so:./libvoyeur-open.so:./libvoyeur-close.so''"
    by (simp add: requested_def MAP_EVENTS_def lib_name_def LIB_SUFFIX_def join_def default_dir_def)
  have os: "build_os (ex_runner\<lparr>live := 1\<rparr>) = Linux" "mem_max (ex_runner\<lparr>live := 1\<rparr>) = 65536" by simp_all
  show ?thesis
    unfolding can_prepare_def dir os req using size by (simp add: ex_runner_def getenv_prefix)
qed

lemma ex_watch_streams:
  "map (stream_conn (silenced ex_watch_ctx)) ex_streams = ex_watched"
  "length (concat (map (stream_msgs (silenced ex_watch_ctx)) ex_streams)) \<le> 100"
  "streams_events ex_streams = [ex_opened, ex_closed]"
  "\<forall>x \<in> set ex_streams. stream_ok (ex_runner\<lparr>live := 1\<rparr>) x
     \<and> (exec_cb ex_watch_ctx = None \<and> str_type x = VOYEUR_EVENT_EXEC \<longrightarrow> str_events x = [])"
  by (simp_all add: stream_conn_def stream_msgs_def silenced_fields ex_watched_def flag_defs stream_ok_def ex_opened_def
      ex_closed_def enc_msg_def enc_str_def str_sent_eq has_flag_def)

lemma ex_watch_calls:
  "concat (map (event_calls ex_watch_ctx Linux) [ex_opened, ex_closed]) =
    [Call open_callback_fun (OpenArgs ''/f'' 0x241 0x1B4 (Some ''/r'') 3 7) 0, Call close_callback_fun (CloseArgs 3 0 7) 0]"
  by (simp add: event_calls_def calls_of_def ex_opened_def ex_closed_def has_flag_def flag_defs str_seen_short mode_cast_def)

lemma ex_watch_run:
  "\<exists>s'. watch_open_main (\<lambda>_. 0x300) None [NUL] [''watch'', ''ls''] [] (hears 4 6 ex_watched ex_runner) = Ok (0, []) s'
    \<and> calls s' = [Call open_callback_fun (OpenArgs ''/f'' 0x241 0x1B4 (Some ''/r'') 3 7) 0,
         Call close_callback_fun (CloseArgs 3 0 7) 0]"
proof -
  let ?h = "ex_runner\<lparr>live := 1\<rparr>"
  have c: "voyeur_context_create (hears 4 6 ex_watched ex_runner) = Ok (Some ex_ctx0) (hears 4 6 ex_watched ?h)"
    by (simp add: voyeur_context_create_def sys_malloc_def io_bind_def ex_ctx0_def hears_def ex_runner_def)
  obtain env where env: "child_env None [NUL] ex_watch_ctx [] ?h = Some env"
    by (rule prepare_hears [OF ex_watch_prepare])
  have serve: "can_serve 4 6 7 (map str_client ex_streams) (length (concat (map (stream_msgs (silenced ex_watch_ctx)) ex_streams))) ?h"
    using ex_watch_streams(2) by (simp add: can_serve_def ex_runner_def FD_SETSIZE_def ex_sys_def)
  have sp: "spawns ?h = Some 99 # []" by simp
  obtain c2 h2 where h2: "voyeur_exec (\<lambda>_. 0x300) None [NUL] ex_watch_ctx ''ls'' [''ls''] [] (hears 4 6 ex_watched ?h) = Ok (0, c2) h2"
    "calls h2 = concat (map (event_calls ex_watch_ctx Linux) [ex_opened, ex_closed])"
    by (rule exec_hears [OF ex_watch_prepare sp serve ex_watch_streams(4) env, of "\<lambda>_. 0x300" "''ls''" "[''ls'']"])
      (rule that, unfold ex_watch_streams(1,3), assumption, simp)
  obtain u where u: "voyeur_context_destroy c2 h2 = Ok () u" by (simp add: context_destroy_eq)
  have "watch_open_main (\<lambda>_. 0x300) None [NUL] [''watch'', ''ls''] [] (hears 4 6 ex_watched ex_runner) = Ok (0, []) u"
    using c h2(1) u by (simp add: watch_open_main_def watch_open_go_def Let_def ex_watch_ctx_def)
  moreover have "calls u = calls h2" by (rule silent_calls [OF destroy_silent u])
  ultimately show ?thesis using h2(2) unfolding ex_watch_calls by metis
qed

theorem watch_open_prints_witness:
  "\<exists>s' cs lines. watch_open_main (\<lambda>_. 0x300) None [NUL] [''watch'', ''ls''] [] (hears 4 6 ex_watched ex_runner) = Ok (0, []) s'
    \<and> calls s' = cs \<and> map printed cs = map Some lines
    \<and> lines = [''[OPEN] /f (flags 577) (mode 664) (in /r) (rv 3) (pid 7)'' @ [CHR 0x0A],
         ''[CLOSE] 3 (rv 0) (pid 7)'' @ [CHR 0x0A]]"
proof -
  obtain s' where run: "watch_open_main (\<lambda>_. 0x300) None [NUL] [''watch'', ''ls''] [] (hears 4 6 ex_watched ex_runner) = Ok (0, []) s'"
    "calls s' = [Call open_callback_fun (OpenArgs ''/f'' 0x241 0x1B4 (Some ''/r'') 3 7) 0, Call close_callback_fun (CloseArgs 3 0 7) 0]"
    using ex_watch_run by blast
  have no: "calls (hears 4 6 ex_watched ex_runner) = []" by simp
  from watch_open_prints [OF run(1)] obtain lines where
    "map printed (calls s') = map Some lines" and
    "list_all2 (\<lambda>k l.
        (\<exists>path oflag mode dir rv pid. k = Call open_callback_fun (OpenArgs path oflag mode (Some dir) rv pid) 0
           \<and> l = ''[OPEN] '' @ path @ '' (flags '' @ show_d oflag @ '') (mode '' @ show_o mode @ '') (in '' @ dir
                @ '') (rv '' @ show_d rv @ '') (pid '' @ show_u pid @ '')'' @ [CHR 0x0A])
        \<or> (\<exists>fd rv pid. k = Call close_callback_fun (CloseArgs fd rv pid) 0
           \<and> l = ''[CLOSE] '' @ show_d fd @ '' (rv '' @ show_d rv @ '') (pid '' @ show_u pid @ '')'' @ [CHR 0x0A])) (calls s') lines"
    unfolding no append_Nil by blast
  note lines = this
  have n: "show_d 0x241 = ''577''" "show_o 0x1B4 = ''664''" "show_d 3 = ''3''" "show_d 0 = ''0''" "show_u 7 = ''7''"
    by (code_simp)+
  have "lines = [''[OPEN] /f (flags 577) (mode 664) (in /r) (rv 3) (pid 7)'' @ [CHR 0x0A], ''[CLOSE] 3 (rv 0) (pid 7)'' @ [CHR 0x0A]]"
    using lines(2) unfolding run(2) by (auto simp: list_all2_Cons1 n)
  with run(1) lines(1) show ?thesis by blast
qed

section \<open>\<open>voyeur-watch-exec\<close>\<close>

text \<open>
  \<open>voyeur-watch-exec\<close> declares its callback without the parameter for \<open>PATH\<close>, so that every event it
  is called for is undefined behaviour.
\<close>

lemma watch_exec_undefined:
  assumes "watch_exec_main waits dli_fname behind (name # prog # args) envp s = Ok r s'"
  shows "\<exists>cs. calls s' = calls s @ cs \<and> list_all (\<lambda>k. printed k = None) cs"
proof -
  let ?reg = "\<lambda>ctx. voyeur_observe_exec ctx OBSERVE_EXEC_CWD (Some exec_callback_fun) 0"
  from assms obtain ctx s1 v ctx3 s2 where a: "voyeur_context_create s = Ok (Some ctx) s1"
      "voyeur_exec waits dli_fname behind (?reg ctx) prog (prog # args) envp s1 = Ok (v, ctx3) s2"
      "voyeur_context_destroy ctx3 s2 = Ok () s'"
    by (auto simp: watch_exec_main_def watch_exec_go_def io_bind_Ok_iff io_then_Ok_iff Let_def split: option.splits)
  have new: "exit_cb ctx = None" "open_cb ctx = None" "close_cb ctx = None" "calls s1 = calls s"
    using a(1) by (auto simp: voyeur_context_create_def io_bind_Ok_iff sys_malloc_def split: if_splits)
  from exec_registered [OF a(2)] obtain ctx1 cs where c: "same_callbacks (?reg ctx) ctx1" "calls s2 = calls s @ cs"
    "\<forall>k \<in> set cs. \<exists>E f args. event_cb ctx1 E = Some f \<and> args_typed ctx1 E args \<and> k = Call f args (event_userdata ctx1 E)"
    unfolding registered_def new(4) by blast
  have "printed k = None" if k: "k \<in> set cs" for k
  proof -
    from c(3) k obtain E f args where e: "event_cb ctx1 E = Some f" "args_typed ctx1 E args" "k = Call f args (event_userdata ctx1 E)"
      by blast
    have "event_cb ctx1 E = event_cb (?reg ctx) E" using c(1) by (simp add: same_callbacks_def)
    with e(1) new(1-3) have "E = VOYEUR_EVENT_EXEC" by (cases E) (simp_all add: observe_defs)
    with e(2,3) show ?thesis by (cases args) (simp_all add: exec_callback_params_def)
  qed
  moreover have "calls s' = calls s2" by (rule silent_calls [OF destroy_silent a(3)])
  ultimately show ?thesis using c(2) by (auto simp: list_all_iff)
qed

end
