(* ===== verification/Spec2Isabelle.thy ===== *)
theory Spec2Isabelle
  imports Program_Run Exec_Chain Fork Own_Close Close_Threads Open_Threads Examples
begin

text \<open>
  libvoyeur: what a child process does, seen by the process that started it. An observer creates a
  context, registers callbacks for four kinds of events (exec, exit, open, close) and runs a command
  with an environment that preloads one library per event into the child and all its descendants. Each
  library replaces functions of the C library: it passes a call on to the real function and reports it
  over a Unix socket. The observer's server reads the messages and calls the callbacks until the child
  has exited.

  The parts, and where they are.

    \<^item> \<open>src/net.c\<close>, \<open>src/net.h\<close>: \<open>Protocol\<close> has the enumerations, the flags and the bytes of an object, \<open>Net\<close>
      the read and write loops and the readers and writers, \<open>Connect\<close> the client's socket and the
      closing of descriptors, \<open>Host\<close> the listening socket.
    \<^item> \<open>src/util.h\<close>: \<open>Util\<close>, the error macros, in debugging and release builds, and the debugging aids of \<open>src/util.c\<close>.
    \<^item> \<open>src/env.c\<close>: \<open>Env\<close>, the augmented environment and the option characters.
    \<^item> \<open>src/event.h\<close>, \<open>include/voyeur.h\<close>, \<open>src/event.c\<close>: \<open>Context\<close> has the context and the registration of
      callbacks, \<open>Handlers\<close> the handlers of events from the wire, \<open>Requests\<close> the list of libraries and
      the options the observer asks for.
    \<^item> \<open>src/voyeur.c\<close>: \<open>Host\<close> has the life of a context and \<open>voyeur_prepare\<close>, \<open>Server\<close> the waiting thread,
      the server loop, \<open>voyeur_start\<close> and \<open>voyeur_exec\<close>.
    \<^item> \<open>src/dyld.h\<close>, \<open>src/voyeur-open.c\<close>, \<open>src/voyeur-close.c\<close>, \<open>src/voyeur-exit.c\<close>, \<open>src/voyeur-exec.c\<close>:
      \<open>Process\<close> has the observed process with the libraries' static variables and the real functions,
      \<open>Interpose\<close> what the libraries share, \<open>Open_Interposer\<close>, \<open>Close_Interposer\<close>, \<open>Exit_Interposer\<close> and
      \<open>Exec_Interposer\<close> one file each. \<open>Own_Close\<close> has several libraries in one process, where the \<open>close\<close> that
      \<open>voyeur_close_socket\<close> calls is the interposed one. \<open>Threads\<close> has the shape of the interposed \<open>open\<close>, \<open>close\<close> and
      \<open>posix_spawn\<close> with their destructor again, as the steps of any number of threads, \<open>Close_Threads\<close> and
      \<open>Open_Threads\<close> its three instances.
    \<^item> All of it: \<open>Observation\<close> has the server when it hears whole streams of the libraries, \<open>Program_Run\<close> runs
      \<open>voyeur_exec\<close> from the preparation to the last callback with the program it starts, \<open>Exec_Chain\<close> does so for a
      program that execs another one and \<open>Fork\<close> for one that forks.
    \<^item> \<open>examples\<close>: \<open>Examples\<close>, the two programs and what they print.

  A definition has the name of the C function it models. The operating system is \<open>Machine\<close>: a table of
  descriptors, and scripts of answers to \<open>read\<close>, \<open>send\<close>, \<open>close\<close>, \<open>connect\<close>, \<open>select\<close>, \<open>accept\<close> and the
  others, which the calls consume; a theorem about all states is one about every behaviour of the
  kernel, with short reads and writes, interrupted calls and errors. A function is a state transformer
  whose result (\<open>Prelude\<close>) is a normal return, an error return, an exit of the process, a call that never
  returns since the kernel does not answer, or undefined behaviour. Allocated blocks are counted.
  Integers are words of their C width, and a C string is a list of characters (\<open>CString\<close>).

  The contracts.

    \<^item> \<open>Messages\<close> states the contract of the two ends of the connection: the bytes of an event, and what a
      callback sees of it. The locale \<open>wire_codec\<close> of \<open>Machine\<close> joins a writer and a reader that agree on the
      bytes of a value; \<open>Net\<close> interprets it for every type on the wire.
    \<^item> \<open>Frame\<close>, \<open>Handlers\<close> and \<open>Serving\<close> have the locales \<open>io_frame\<close>, \<open>reader_frame\<close>, \<open>handler_frame\<close> and \<open>loop_frame\<close>:
      what holds of every kernel call holds of every routine above it, up to the whole server. They are
      interpreted for the descriptors that are touched, the files, the log of calls and its types.
    \<^item> \<open>Interpose\<close> has the locale \<open>library\<close>, the static variables of one interposing library with the block of
      the first call and the destructor, interpreted for \<open>open\<close>, \<open>close\<close> and \<open>posix_spawn\<close>. \<open>Threads\<close> has the locale
      \<open>reporting\<close>, the writes that make up one report, interpreted for the same three.
    \<^item> \<open>Env\<close> states an abstract update of an environment, and \<open>Clients\<close> an abstract server over lists of events;
      the code refines both.

  What the lemmas show.

    \<^item> The wire: the loops transfer exactly their bytes or fail after a part of them; what is written is
      read back; the client tries 20 times and gives up in bounded time; lengths no sender should use
      are undefined behaviour of the reader.
    \<^item> The observer: a handler consumes one event and calls one callback, whose arguments are well-typed
      whatever was sent; the server closes what it opened; with any number of clients and any answers
      of \<open>select\<close> it delivers each client's events in order, as the abstract server does; what is unread
      when the child exits is lost. The preparation tells the child the socket, the libraries and the
      options. \<open>voyeur_start\<close> always returns 0, since the waiting thread uses \<open>send\<close> on a pipe.
    \<^item> The observed process: the interposed functions return what the real ones do and change no descriptor but
      the caller's and their own, whatever becomes of the report; the streams they send are complete; an exec
      call hands the instrumentation on; the four functions that end a process, and on Linux a return from
      \<open>main\<close>, are reported once.
    \<^item> Both ends: a program runs against an interposer with the environment that \<open>voyeur_prepare\<close> computed, and
      \<open>voyeur_exec\<close> serves the bytes that the interposer wrote; the callbacks see the program's calls, in order
      and with their results, and those of the program that it execs. After a
      fork the child ends the parent's stream, and the rest of it is lost.
    \<^item> Several libraries: the destructor of \<open>voyeur-close.c\<close> does not wait for its own mutex, but the connections of
      the other libraries are reported as if the program had closed them.
    \<^item> Threads: an inductive invariant shows that the messages of threads never mix and that the holder of
      the mutex waits for nothing but room in the buffer of its connection, the destructor included, whose own
      \<open>close\<close> is the interposed one; a reachable state shows a race of \<open>close\<close> with the destructor.
    \<^item> The examples: each call of a callback prints the line that the format string of the source lays out.

  Bounds. The scripts of the kernel are finite, so a theorem that says that a call returns asks for
  enough answers: as many bytes as the message has, since every answer transfers at least one byte.
  \<open>Clients\<close> asks for \<open>passes_room B sels\<close>, a message of \<open>B\<close> bytes for each of the 1024 descriptors of each pass, which
  is more than any run of the loop consumes. \<open>mem_max\<close> is the largest block the allocator grants. The loops of
  \<open>src/net.c\<close> terminate because each iteration consumes an answer; there is no other fuel.
  The loop that waits for a debugger is a partial function, and is shown never to return.

  Not modelled: which symbol replaces which (the dynamic linker's work, the rest of \<open>src/dyld.h\<close>); diagnostics;
  \<open>setsockopt\<close> and \<open>fcntl\<close>, which have no effect on the modelled state; the test programs; \<open>errno\<close> after a
  call, which a report that fails overwrites; a process that a signal ends. In \<open>Threads\<close> a write to a connected
  socket waits or succeeds, but does not fail. The waiting thread runs before the server loop, as all it does is to
  make the pipe readable. Callbacks are opaque: a call of one is recorded with its arguments. Of
  an environment only the list of its entries is modelled, and of a fork the run in which the parent waits for
  its child. What the libraries write in \<open>Program_Run\<close>, \<open>Exec_Chain\<close> and \<open>Fork\<close> is complete before the
  server reads it, and connections follow one another; \<open>Clients\<close> has the other orders.
\<close>

end
